(* ===== verification/Prelude.thy ===== *)
theory Prelude
  imports Main "HOL-Library.Word"
begin

text \<open>
  The vocabulary shared by every theory of the development.

  \<^item> the types the Go sources use everywhere: bytes, node identifiers, log
    indices and terms.  Go strings are byte sequences, so a \<open>NodeID\<close> is a list
    of bytes and the empty string is the empty list.  \<open>Index\<close>, \<open>Term\<close> and write
    sequence numbers are \<open>uint64\<close> in the source and only ever count up from
    0, so they are natural numbers here; the places where the source can step
    below 0 use \<open>pred64\<close>, which wraps as \<open>uint64\<close> does.  A Go \<open>int\<close> is an
    \<open>int\<close>;
  \<^item> the outcome of a Go function that can fail or panic;
  \<^item> the fixed-width integers of package \<open>encoding/binary\<close>, as bytes;
  \<^item> the contract of a decoder that reads a counted list of elements, with the
    round-trip and no-panic laws every such decoder of the program inherits.
\<close>

type_synonym byte = "8 word"
type_synonym bytes = "byte list"
type_synonym NodeID = bytes
type_synonym Index = nat
type_synonym Term = nat

text \<open>The collections the component proofs draw on.\<close>

named_theorems codec_simps \<open>evaluation of encoders and decoders on encoded input\<close>
named_theorems log_simps \<open>facts on contiguous logs\<close>
named_theorems node_frame \<open>which fields of a node an operation leaves alone\<close>

section \<open>Go integers\<close>

definition pred64 :: "nat \<Rightarrow> nat" where
  "pred64 i = (if i = 0 then 2 ^ 64 - 1 else i - 1)"

definition maxInt :: int where
  "maxInt = 2 ^ 63 - 1"

text \<open>The conversions \<open>uint64(i)\<close> of an \<open>int\<close> and \<open>int(v)\<close> of a \<open>uint64\<close> that is
  at most the largest \<open>int\<close>.\<close>

definition u64_of_int :: "int \<Rightarrow> nat" where
  "u64_of_int i = nat (i mod 2 ^ 64)"

lemma u64_of_int_id: "0 \<le> i \<Longrightarrow> i \<le> maxInt \<Longrightarrow> int (u64_of_int i) = i"
  unfolding u64_of_int_def maxInt_def by (simp add: mod_pos_pos_trivial)

lemma u64_of_int_less: "u64_of_int i < 2 ^ 64"
proof -
  have "i mod 2 ^ 64 < (2::int) ^ 64" by (rule pos_mod_bound) simp
  then show ?thesis unfolding u64_of_int_def by (simp add: nat_less_iff)
qed

lemma pred64_pos [simp]: "0 < i \<Longrightarrow> pred64 i = i - 1"
  by (simp add: pred64_def)

section \<open>Outcomes\<close>

text \<open>\<open>Ok\<close> is a normal return, \<open>Fail\<close> a returned error, and \<open>Panic\<close> an
  out-of-range slice expression or index, which stops a Go program.\<close>

datatype ('e, 'a) outcome = Ok 'a | Fail 'e | Panic

fun obind :: "('e, 'a) outcome \<Rightarrow> ('a \<Rightarrow> ('e, 'b) outcome) \<Rightarrow> ('e, 'b) outcome" where
  "obind (Ok x) f = f x"
| "obind (Fail e) f = Fail e"
| "obind Panic f = Panic"

lemma obind_eq_Ok: "obind m f = Ok y \<longleftrightarrow> (\<exists>x. m = Ok x \<and> f x = Ok y)"
  by (cases m) simp_all

lemma obind_eq_Panic: "obind m f = Panic \<longleftrightarrow> m = Panic \<or> (\<exists>x. m = Ok x \<and> f x = Panic)"
  by (cases m) simp_all

lemma obind_assoc: "obind (obind m f) g = obind m (\<lambda>x. obind (f x) g)"
  by (cases m) simp_all

text \<open>Slice expressions.  \<open>buf[n:]\<close>, \<open>buf[:n]\<close> and \<open>buf[i]\<close> panic out of
  range.\<close>

definition slice_from :: "'a list \<Rightarrow> nat \<Rightarrow> ('e, 'a list) outcome" where
  "slice_from xs n = (if n \<le> length xs then Ok (drop n xs) else Panic)"

definition slice_to :: "'a list \<Rightarrow> nat \<Rightarrow> ('e, 'a list) outcome" where
  "slice_to xs n = (if n \<le> length xs then Ok (take n xs) else Panic)"

definition slice_range :: "'a list \<Rightarrow> nat \<Rightarrow> nat \<Rightarrow> ('e, 'a list) outcome" where
  "slice_range xs i j = (if i \<le> j \<and> j \<le> length xs then Ok (take (j - i) (drop i xs)) else Panic)"

definition index_at :: "'a list \<Rightarrow> nat \<Rightarrow> ('e, 'a) outcome" where
  "index_at xs i = (if i < length xs then Ok (xs ! i) else Panic)"

lemma slice_from_append [codec_simps]: "length xs = n \<Longrightarrow> slice_from (xs @ ys) n = Ok ys"
  by (simp add: slice_from_def)

lemma slice_to_append [codec_simps]: "length xs = n \<Longrightarrow> slice_to (xs @ ys) n = Ok xs"
  by (simp add: slice_to_def)

lemma slice_from_Panic [simp]: "slice_from xs n = Panic \<longleftrightarrow> length xs < n"
  by (auto simp: slice_from_def)

lemma slice_to_Panic [simp]: "slice_to xs n = Panic \<longleftrightarrow> length xs < n"
  by (auto simp: slice_to_def)

lemma index_at_Panic [simp]: "index_at xs i = Panic \<longleftrightarrow> length xs \<le> i"
  by (auto simp: index_at_def)

lemma slice_from_Ok [simp]: "slice_from xs n = Ok ys \<longleftrightarrow> n \<le> length xs \<and> ys = drop n xs"
  by (auto simp: slice_from_def)

lemma slice_to_Ok [simp]: "slice_to xs n = Ok ys \<longleftrightarrow> n \<le> length xs \<and> ys = take n xs"
  by (auto simp: slice_to_def)

lemma index_at_Ok [simp]: "index_at xs i = Ok x \<longleftrightarrow> i < length xs \<and> x = xs ! i"
  by (auto simp: index_at_def)

section \<open>Fixed-width integers as bytes\<close>

primrec le_bytes :: "nat \<Rightarrow> nat \<Rightarrow> bytes" where
  "le_bytes 0 x = []"
| "le_bytes (Suc n) x = word_of_nat (x mod 256) # le_bytes n (x div 256)"

primrec le_nat :: "bytes \<Rightarrow> nat" where
  "le_nat [] = 0"
| "le_nat (b # bs) = unat b + 256 * le_nat bs"

definition be_bytes :: "nat \<Rightarrow> nat \<Rightarrow> bytes" where
  "be_bytes n x = rev (le_bytes n x)"

definition be_nat :: "bytes \<Rightarrow> nat" where
  "be_nat bs = le_nat (rev bs)"

text \<open>\<open>LittleEndian.UintN\<close> and \<open>BigEndian.UintN\<close> of a buffer: the first \<open>n\<close>
  bytes, with the bounds check the library makes.\<close>

definition get_le :: "nat \<Rightarrow> bytes \<Rightarrow> ('e, nat) outcome" where
  "get_le n buf = (if n \<le> length buf then Ok (le_nat (take n buf)) else Panic)"

definition get_be :: "nat \<Rightarrow> bytes \<Rightarrow> ('e, nat) outcome" where
  "get_be n buf = (if n \<le> length buf then Ok (be_nat (take n buf)) else Panic)"

lemma length_le_bytes [simp]: "length (le_bytes n x) = n"
  by (induction n arbitrary: x) simp_all

lemma length_be_bytes [simp]: "length (be_bytes n x) = n"
  by (simp add: be_bytes_def)

lemma unat_byte [simp]: "unat (word_of_nat (x mod 256) :: byte) = x mod 256"
  by (simp add: unat_of_nat take_bit_eq_mod)

lemma le_nat_le_bytes: "le_nat (le_bytes n x) = x mod 256 ^ n"
proof (induction n arbitrary: x)
  case (Suc n)
  have "x mod (256 * 256 ^ n) = 256 * (x div 256 mod 256 ^ n) + x mod 256"
    by (rule mod_mult2_eq)
  then show ?case using Suc.IH by simp
qed simp

lemma be_nat_be_bytes: "be_nat (be_bytes n x) = x mod 256 ^ n"
  by (simp add: be_nat_def be_bytes_def le_nat_le_bytes)

lemma le_nat_less: "le_nat bs < 256 ^ length bs"
proof (induction bs)
  case (Cons b bs)
  have "unat b < 256" using unsigned_less [of b, where ?'a = nat] by simp
  moreover have "256 * le_nat bs + 256 \<le> 256 * 256 ^ length bs"
    using Cons.IH by (metis Suc_leI add.commute mult_Suc_right mult_le_mono2)
  ultimately show ?case by simp
qed simp

lemma be_nat_less: "be_nat bs < 256 ^ length bs"
  using le_nat_less [of "rev bs"] by (simp add: be_nat_def)

lemma le_bytes_le_nat: "length bs = n \<Longrightarrow> le_bytes n (le_nat bs) = bs"
proof (induction bs arbitrary: n)
  case (Cons b bs)
  have "unat b < 256" using unsigned_less [of b, where ?'a = nat] by simp
  then have "(unat b + 256 * le_nat bs) mod 256 = unat b"
    and "(unat b + 256 * le_nat bs) div 256 = le_nat bs" by simp_all
  with Cons show ?case by (auto simp del: le_nat.simps simp add: le_nat.simps(2))
qed simp

lemma be_bytes_be_nat: "length bs = n \<Longrightarrow> be_bytes n (be_nat bs) = bs"
  by (simp add: be_bytes_def be_nat_def le_bytes_le_nat)

lemma get_le_append [codec_simps]: "get_le n (le_bytes n x @ r) = Ok (x mod 256 ^ n)"
  by (simp add: get_le_def le_nat_le_bytes)

lemma get_be_append [codec_simps]: "get_be n (be_bytes n x @ r) = Ok (x mod 256 ^ n)"
  by (simp add: get_be_def be_nat_be_bytes)

lemma get_le_Panic [simp]: "get_le n buf = Panic \<longleftrightarrow> length buf < n"
  by (auto simp: get_le_def)

lemma get_be_Panic [simp]: "get_be n buf = Panic \<longleftrightarrow> length buf < n"
  by (auto simp: get_be_def)

lemma get_le_Ok [simp]: "get_le n buf = Ok x \<longleftrightarrow> n \<le> length buf \<and> x = le_nat (take n buf)"
  by (auto simp: get_le_def)

lemma get_be_Ok [simp]: "get_be n buf = Ok x \<longleftrightarrow> n \<le> length buf \<and> x = be_nat (take n buf)"
  by (auto simp: get_be_def)

section \<open>Counted lists of elements\<close>

text \<open>
  A codec that writes a list as its elements one after the other and reads it
  back with a loop that runs a given number of times.  \<open>enc\<close> writes one element,
  \<open>dec i\<close> reads the element number \<open>i\<close> and returns the rest of the buffer, and
  \<open>loop i n buf acc\<close> is the state of the loop with \<open>i\<close> elements read, \<open>n\<close> to
  read and \<open>acc\<close> collected.  What a provider promises is the round trip of one
  element, that reading one element never panics, and the two equations of the
  loop; the laws of whole lists follow once for all.
\<close>

locale counted_codec =
  fixes enc :: "'a \<Rightarrow> bytes"
    and dec :: "nat \<Rightarrow> bytes \<Rightarrow> ('e, 'a \<times> bytes) outcome"
    and loop :: "nat \<Rightarrow> nat \<Rightarrow> bytes \<Rightarrow> 'a list \<Rightarrow> ('e, 'a list \<times> bytes) outcome"
    and ok :: "'a \<Rightarrow> bool"
  assumes elem_roundtrip: "ok x \<Longrightarrow> dec i (enc x @ r) = Ok (x, r)"
    and elem_no_panic: "dec i buf \<noteq> Panic"
    and loop_0: "loop i 0 buf acc = Ok (acc, buf)"
    and loop_Suc: "loop i (Suc n) buf acc
      = obind (dec i buf) (\<lambda>(x, r). loop (Suc i) n r (acc @ [x]))"
begin

lemma loop_roundtrip:
  "list_all ok xs \<Longrightarrow> loop i (length xs) (concat (map enc xs) @ r) acc = Ok (acc @ xs, r)"
  by (induction xs arbitrary: i acc) (simp_all add: loop_0 loop_Suc elem_roundtrip)

lemma loop_no_panic: "loop i n buf acc \<noteq> Panic"
proof (induction n arbitrary: i buf acc)
  case (Suc n)
  then show ?case by (auto simp: loop_Suc obind_eq_Panic elem_no_panic)
qed (simp add: loop_0)

lemma loop_length: "loop i n buf acc = Ok (xs, r) \<Longrightarrow> length xs = length acc + n"
proof (induction n arbitrary: i buf acc)
  case (Suc n)
  then show ?case by (fastforce simp: loop_Suc obind_eq_Ok)
qed (simp add: loop_0)

end

section \<open>Lists\<close>

lemma takeWhile_dropWhile_sorted_nth:
  assumes "sorted xs" "i < length xs"
  shows "i < length (takeWhile (\<lambda>x. x \<le> b) xs) \<longleftrightarrow> xs ! i \<le> b"
  using assms
proof (induction xs arbitrary: i)
  case (Cons x xs)
  then show ?case
    by (cases i) (auto simp: nth_Cons' intro: order_trans)
qed simp

end
