(* ===== verification/Types.thy ===== *)
theory Types
  imports Prelude
begin

text \<open>
  The data types every component shares: \<open>types.go\<close>, \<open>transport.go\<close>, \<open>errors.go\<close>
  and the \<open>PeerConfig\<close> of \<open>config.go\<close>.  Field names carry the initials of their
  struct, because HOL records share one name space for their selectors.
\<close>

section \<open>Roles\<close>

datatype State = Follower | Candidate | Leader | PreCandidate

fun state_String :: "State \<Rightarrow> string" where
  "state_String Follower = ''Follower''"
| "state_String Candidate = ''Candidate''"
| "state_String Leader = ''Leader''"
| "state_String PreCandidate = ''PreCandidate''"

definition state_MarshalText :: "State \<Rightarrow> string" where
  "state_MarshalText s = state_String s"

definition state_UnmarshalText :: "string \<Rightarrow> (string, State) outcome" where
  "state_UnmarshalText text =
    (if text = ''Follower'' then Ok Follower
     else if text = ''Candidate'' then Ok Candidate
     else if text = ''Leader'' then Ok Leader
     else if text = ''PreCandidate'' then Ok PreCandidate
     else Fail text)"

section \<open>Log entries and persistent state\<close>

record LogEntry =
  e_Index :: Index
  e_Term :: Term
  e_Command :: bytes

record HardState =
  hs_CurrentTerm :: Term
  hs_VotedFor :: NodeID

record SnapshotMeta =
  sm_LastIncludedIndex :: Index
  sm_LastIncludedTerm :: Term

record PeerConfig =
  pc_ID :: NodeID
  pc_Voter :: bool
  pc_Witness :: bool

section \<open>Errors\<close>

datatype raft_error =
    ErrNotLeader NodeID
  | ErrNotFound
  | ErrNoSnapshot
  | ErrCompacted
  | ErrConfigChangeInProgress
  | ErrLeadershipTransferInProgress
  | ErrObsoleteSeqNum
  | ErrNodeFailed
  | ErrMemberNotCaughtUp
  | ErrNotMember
  | ErrLeaseReadUnavailable
  | ErrWriteBacklogFull
  | ErrProposalTooLarge
  | ErrWitnessMismatch
  | ErrLeaseExpired
  | ErrStopped
  | ErrSnapshotNeedsRestart
  | ErrSnapshotSuperseded
  | ErrStorage nat
  | ErrOther string

section \<open>Messages\<close>

record RequestVoteRequest =
  rv_Term :: Term
  rv_CandidateID :: NodeID
  rv_LastLogIndex :: Index
  rv_LastLogTerm :: Term
  rv_PreVote :: bool

record RequestVoteResponse =
  rvr_Term :: Term
  rvr_VoteGranted :: bool

record AppendEntriesRequest =
  ae_Term :: Term
  ae_LeaderID :: NodeID
  ae_PrevLogIndex :: Index
  ae_PrevLogTerm :: Term
  ae_Entries :: "LogEntry list"
  ae_LeaderCommit :: Index
  ae_ReadBarrier :: nat

record AppendEntriesResponse =
  aer_Term :: Term
  aer_Success :: bool
  aer_ConflictIndex :: Index
  aer_ConflictTerm :: Term

record InstallSnapshotRequest =
  is_Term :: Term
  is_LeaderID :: NodeID
  is_LastIncludedIndex :: Index
  is_LastIncludedTerm :: Term
  is_Offset :: int
  is_Data :: bytes
  is_Done :: bool

record TimeoutNowRequest =
  tn_Term :: Term
  tn_LeaderID :: NodeID

record ReadIndexRequest =
  ri_Term :: Term

text \<open>The group a request is for only matters to the transport that routes it, so \<open>GroupID\<close> is
  left out of every request.\<close>

section \<open>The text form of a role\<close>

lemma state_text_roundtrip: "state_UnmarshalText (state_MarshalText s) = Ok s"
  by (cases s) (simp_all add: state_UnmarshalText_def state_MarshalText_def)

lemma state_UnmarshalText_Ok: "state_UnmarshalText t = Ok s \<longleftrightarrow> t = state_MarshalText s"
  by (cases s) (auto simp: state_UnmarshalText_def state_MarshalText_def split: if_splits)

end
