(* ===== verification/Storage.thy ===== *)
theory Storage
  imports Types
begin

text \<open>
  The persistence interface (\<open>storage.go\<close>) as a record of operations over an
  arbitrary store \<open>'st\<close>, and its documented contract as three locales:
  \<open>storage_contract\<close> says what a call that reports success did, and
  \<open>reliable_storage\<close> adds that the calls the log and its writer make do succeed, and
  \<open>complete_storage\<close> the remaining reads and the snapshot.  The two
  optional interfaces a store may implement, \<open>BatchWriter\<close> and
  \<open>CommitRecorder\<close>, are optional fields.

  A mutating call returns the new store and its result, because a call that fails
  may have changed the store.  The context argument is dropped: no operation is
  called with one that can be cancelled.
\<close>

section \<open>Contiguous runs of entries\<close>

definition contig_from :: "Index \<Rightarrow> LogEntry list \<Rightarrow> bool" where
  "contig_from n es \<longleftrightarrow> map e_Index es = [n ..< n + length es]"

text \<open>The entries of a store: contiguous, from some index above 0.\<close>

definition contig :: "LogEntry list \<Rightarrow> bool" where
  "contig es \<longleftrightarrow> (case es of [] \<Rightarrow> True | e # _ \<Rightarrow> 0 < e_Index e \<and> contig_from (e_Index e) es)"

definition first_index :: "LogEntry list \<Rightarrow> Index" where
  "first_index es = (case es of [] \<Rightarrow> 0 | e # _ \<Rightarrow> e_Index e)"

definition last_index :: "LogEntry list \<Rightarrow> Index" where
  "last_index es = (if es = [] then 0 else e_Index (last es))"

text \<open>The entries at indices in \<open>[lo, hi)\<close>.\<close>

definition between :: "Index \<Rightarrow> Index \<Rightarrow> LogEntry list \<Rightarrow> LogEntry list" where
  "between lo hi es = filter (\<lambda>e. lo \<le> e_Index e \<and> e_Index e < hi) es"

lemma contig_from_Nil [simp]: "contig_from n []"
  by (simp add: contig_from_def)

lemma contig_from_Cons [simp]: "contig_from n (e # es) \<longleftrightarrow> e_Index e = n \<and> contig_from (Suc n) es"
  by (auto simp: contig_from_def upt_rec)

lemma contig_from_append [simp]:
  "contig_from n (xs @ ys) \<longleftrightarrow> contig_from n xs \<and> contig_from (n + length xs) ys"
  by (induction xs arbitrary: n) auto

lemma contig_from_nth: "contig_from n es \<Longrightarrow> i < length es \<Longrightarrow> e_Index (es ! i) = n + i"
  by (metis add.commute add_less_cancel_right contig_from_def length_map nth_map nth_upt)

lemma contig_from_index_bounds: "contig_from n es \<Longrightarrow> e \<in> set es \<Longrightarrow> n \<le> e_Index e \<and> e_Index e < n + length es"
  by (metis contig_from_nth in_set_conv_nth le_add1 nat_add_left_cancel_less)

lemma contig_from_inj: "contig_from n es \<Longrightarrow> a \<in> set es \<Longrightarrow> b \<in> set es \<Longrightarrow> e_Index a = e_Index b \<Longrightarrow> a = b"
  by (metis add_left_cancel contig_from_nth in_set_conv_nth)

lemma contig_from_filter_less:
  "contig_from n es \<Longrightarrow> filter (\<lambda>e. e_Index e < k) es = take (k - n) es"
proof (induction es arbitrary: n)
  case (Cons e es)
  have "filter (\<lambda>e. e_Index e < k) es = take (k - Suc n) es" using Cons by simp
  then show ?case using Cons.prems by (cases "k \<le> n") (simp_all add: take_Cons')
qed simp

lemma contig_from_filter_ge:
  "contig_from n es \<Longrightarrow> filter (\<lambda>e. k \<le> e_Index e) es = drop (k - n) es"
proof (induction es arbitrary: n)
  case (Cons e es)
  have "filter (\<lambda>e. k \<le> e_Index e) es = drop (k - Suc n) es" using Cons by simp
  then show ?case using Cons.prems by (cases "k \<le> n") (simp_all add: drop_Cons')
qed simp

lemma contig_from_take: "contig_from n es \<Longrightarrow> contig_from n (take k es)"
  by (metis append_take_drop_id contig_from_append)

lemma contig_from_drop: "contig_from n es \<Longrightarrow> k \<le> length es \<Longrightarrow> contig_from (n + k) (drop k es)"
  by (metis append_take_drop_id contig_from_append length_take min.absorb2)

lemma contig_Nil [simp]: "contig []"
  by (simp add: contig_def)

lemma contig_iff: "contig es \<longleftrightarrow> es = [] \<or> 0 < first_index es \<and> contig_from (first_index es) es"
  by (cases es) (auto simp: contig_def first_index_def)

lemma contig_fromI: "contig_from n es \<Longrightarrow> 0 < n \<Longrightarrow> contig es"
  by (cases es) (auto simp: contig_def)

lemma first_index_Nil [simp]: "first_index [] = 0" "last_index [] = 0"
  by (simp_all add: first_index_def last_index_def)

lemma index_single [simp]: "first_index [e] = e_Index e" "last_index [e] = e_Index e"
  by (simp_all add: first_index_def last_index_def)

lemma last_index_snoc [simp]: "last_index (es @ [e]) = e_Index e"
  by (simp add: last_index_def)

lemma last_index_append [simp]: "ys \<noteq> [] \<Longrightarrow> last_index (xs @ ys) = last_index ys"
  by (simp add: last_index_def)

lemma first_index_append [simp]: "xs \<noteq> [] \<Longrightarrow> first_index (xs @ ys) = first_index xs"
  by (cases xs) (simp_all add: first_index_def)

lemma contig_from_last: "contig_from n es \<Longrightarrow> es \<noteq> [] \<Longrightarrow> Suc (last_index es) = n + length es"
  using contig_from_nth [of n es "length es - 1"] by (simp add: last_index_def last_conv_nth)

lemma contig_from_first: "contig_from n es \<Longrightarrow> es \<noteq> [] \<Longrightarrow> first_index es = n"
  by (cases es) (simp_all add: first_index_def)

lemma contig_last: "contig es \<Longrightarrow> es \<noteq> [] \<Longrightarrow> Suc (last_index es) = first_index es + length es"
  by (simp add: contig_iff contig_from_last)

lemma contig_first_le_last: "contig es \<Longrightarrow> first_index es \<le> last_index es"
  using contig_last [of es] by (cases es) (simp_all add: first_index_def)

lemma contig_zero_iff: "contig es \<Longrightarrow> first_index es = 0 \<longleftrightarrow> es = []" "contig es \<Longrightarrow> last_index es = 0 \<longleftrightarrow> es = []"
  using contig_last [of es] by (auto simp: contig_iff, cases es, auto)

lemma contig_inj: "contig es \<Longrightarrow> a \<in> set es \<Longrightarrow> b \<in> set es \<Longrightarrow> e_Index a = e_Index b \<Longrightarrow> a = b"
  by (auto simp: contig_iff dest: contig_from_inj)

lemma contig_bounds: "contig es \<Longrightarrow> e \<in> set es \<Longrightarrow> first_index es \<le> e_Index e \<and> e_Index e \<le> last_index es"
  using contig_from_index_bounds [of "first_index es" es e] contig_last [of es]
  by (cases "es = []") (auto simp: contig_iff less_Suc_eq_le [symmetric])

lemma contig_filter_less:
  "contig es \<Longrightarrow> filter (\<lambda>e. e_Index e < k) es = take (k - first_index es) es"
  by (auto simp: contig_iff contig_from_filter_less)

lemma contig_filter_ge:
  "contig es \<Longrightarrow> filter (\<lambda>e. k \<le> e_Index e) es = drop (k - first_index es) es"
  by (auto simp: contig_iff contig_from_filter_ge)

lemma contig_take: "contig es \<Longrightarrow> contig (take k es)"
  by (cases es; cases k) (auto simp: contig_def contig_from_take)

lemma first_index_take [simp]: "0 < k \<Longrightarrow> first_index (take k es) = first_index es"
  by (cases es; cases k) (simp_all add: first_index_def)

lemma contig_drop: "contig es \<Longrightarrow> contig (drop k es)"
proof (cases "k < length es")
  case True
  assume "contig es"
  with True have "contig_from (first_index es + k) (drop k es)" "0 < first_index es + k"
    using contig_from_drop [of "first_index es" es k] by (auto simp: contig_iff)
  then show ?thesis by (rule contig_fromI)
qed simp

lemma contig_prefix: "contig (xs @ ys) \<Longrightarrow> contig xs"
  by (metis append_eq_conv_conj contig_take)

lemma contig_suffix: "contig (xs @ ys) \<Longrightarrow> contig ys"
  by (metis append_eq_conv_conj contig_drop)

lemma contig_append:
  "contig xs \<Longrightarrow> contig ys \<Longrightarrow> ys \<noteq> [] \<Longrightarrow> first_index ys = Suc (last_index xs) \<Longrightarrow> contig (xs @ ys)"
  using contig_last [of xs] by (cases "xs = []") (auto simp: contig_iff)

lemma contig_append_first:
  "contig (xs @ ys) \<Longrightarrow> xs \<noteq> [] \<Longrightarrow> ys \<noteq> [] \<Longrightarrow> first_index ys = Suc (last_index xs)"
  using contig_from_last [of "first_index xs" xs] contig_from_first [of "first_index xs + length xs" ys]
  by (simp add: contig_iff)

lemma contig_lookup:
  "contig es \<Longrightarrow> first_index es \<le> i \<Longrightarrow> i \<le> last_index es \<Longrightarrow> es \<noteq> [] \<Longrightarrow>
    i - first_index es < length es \<and> e_Index (es ! (i - first_index es)) = i"
  using contig_last [of es] contig_from_nth [of "first_index es" es "i - first_index es"]
  by (auto simp: contig_iff)

lemma nth0_first_index: "es \<noteq> [] \<Longrightarrow> e_Index (es ! 0) = first_index es"
  by (cases es) (simp_all add: first_index_def)

lemma nth_last_index: "es \<noteq> [] \<Longrightarrow> e_Index (es ! (length es - 1)) = last_index es"
  by (simp add: last_index_def last_conv_nth)

lemma between_slice:
  assumes "contig es" "es \<noteq> []" "first_index es \<le> lo" "lo < hi" "hi \<le> Suc (last_index es)"
  shows "slice_range es (lo - first_index es) (hi - first_index es) = Ok (between lo hi es)"
proof -
  have "between lo hi es = filter (\<lambda>e. lo \<le> e_Index e) (filter (\<lambda>e. e_Index e < hi) es)"
    by (simp add: between_def conj_commute)
  also have "\<dots> = drop (lo - first_index es) (take (hi - first_index es) es)"
    using assms(1,3,4) by (simp add: contig_filter_less contig_filter_ge contig_take)
  finally show ?thesis
    using assms contig_last [OF assms(1,2)] by (auto simp: slice_range_def drop_take)
qed

section \<open>The interface\<close>

type_synonym 'a result = "(raft_error, 'a) outcome"

record 'st Storage =
  st_SaveHardState :: "'st \<Rightarrow> HardState \<Rightarrow> 'st \<times> unit result"
  st_LoadHardState :: "'st \<Rightarrow> HardState result"
  st_AppendLogEntries :: "'st \<Rightarrow> LogEntry list \<Rightarrow> 'st \<times> unit result"
  st_GetLogEntry :: "'st \<Rightarrow> Index \<Rightarrow> LogEntry result"
  st_GetLogEntries :: "'st \<Rightarrow> Index \<Rightarrow> Index \<Rightarrow> LogEntry list result"
  st_FirstIndex :: "'st \<Rightarrow> Index result"
  st_LastIndex :: "'st \<Rightarrow> Index result"
  st_TruncateSuffix :: "'st \<Rightarrow> Index \<Rightarrow> 'st \<times> unit result"
  st_TruncatePrefix :: "'st \<Rightarrow> Index \<Rightarrow> 'st \<times> unit result"
  st_SaveSnapshot :: "'st \<Rightarrow> SnapshotMeta \<Rightarrow> bytes \<Rightarrow> 'st \<times> unit result"
  st_LoadSnapshot :: "'st \<Rightarrow> (SnapshotMeta \<times> bytes) result"
  st_SaveState :: "('st \<Rightarrow> HardState option \<Rightarrow> LogEntry list \<Rightarrow> 'st \<times> unit result) option"
  st_SaveCommitIndex :: "('st \<Rightarrow> Index \<Rightarrow> 'st \<times> unit result) option"

section \<open>The contract\<close>

text \<open>\<open>inv\<close> is the store's own invariant, \<open>ents\<close>, \<open>hard\<close> and \<open>snap\<close> what it holds.
  \<open>ok_append\<close> and \<open>ok_suffix\<close> are the caller's side of the bargain.\<close>

definition ok_append :: "LogEntry list \<Rightarrow> LogEntry list \<Rightarrow> bool" where
  "ok_append old new \<longleftrightarrow> contig (old @ new)"

definition ok_suffix :: "LogEntry list \<Rightarrow> Index \<Rightarrow> bool" where
  "ok_suffix old i \<longleftrightarrow> old = [] \<or> first_index old \<le> i"

locale storage_contract =
  fixes ops :: "'st Storage"
    and inv :: "'st \<Rightarrow> bool"
    and ents :: "'st \<Rightarrow> LogEntry list"
    and hard :: "'st \<Rightarrow> HardState"
    and snap :: "'st \<Rightarrow> (SnapshotMeta \<times> bytes) option"
  assumes inv_contig: "inv s \<Longrightarrow> contig (ents s)"
    and save_hs: "inv s \<Longrightarrow> st_SaveHardState ops s hs = (s', r) \<Longrightarrow>
      r \<noteq> Panic \<and> (r = Ok () \<longrightarrow> inv s' \<and> ents s' = ents s \<and> hard s' = hs \<and> snap s' = snap s)"
    and append: "inv s \<Longrightarrow> ok_append (ents s) es \<Longrightarrow> st_AppendLogEntries ops s es = (s', r) \<Longrightarrow>
      r \<noteq> Panic \<and> (r = Ok () \<longrightarrow> inv s' \<and> ents s' = ents s @ es \<and> hard s' = hard s \<and> snap s' = snap s)"
    and trunc_suffix: "inv s \<Longrightarrow> ok_suffix (ents s) i \<Longrightarrow> st_TruncateSuffix ops s i = (s', r) \<Longrightarrow>
      r \<noteq> Panic \<and> (r = Ok () \<longrightarrow> inv s' \<and> ents s' = filter (\<lambda>e. e_Index e < i) (ents s)
        \<and> hard s' = hard s \<and> snap s' = snap s)"
    and trunc_prefix: "inv s \<Longrightarrow> st_TruncatePrefix ops s i = (s', r) \<Longrightarrow>
      r \<noteq> Panic \<and> (r = Ok () \<longrightarrow> inv s' \<and> ents s' = filter (\<lambda>e. i \<le> e_Index e) (ents s)
        \<and> hard s' = hard s \<and> snap s' = snap s)"
    and save_snap: "inv s \<Longrightarrow> st_SaveSnapshot ops s meta d = (s', r) \<Longrightarrow>
      r \<noteq> Panic \<and> (r = Ok () \<longrightarrow> inv s' \<and> ents s' = ents s \<and> hard s' = hard s \<and> snap s' = Some (meta, d))"
    and save_state: "inv s \<Longrightarrow> st_SaveState ops = Some save \<Longrightarrow> ok_append (ents s) es \<Longrightarrow> save s hso es = (s', r) \<Longrightarrow>
      r \<noteq> Panic \<and> (r = Ok () \<longrightarrow> inv s' \<and> ents s' = ents s @ es
        \<and> hard s' = (case hso of None \<Rightarrow> hard s | Some h \<Rightarrow> h) \<and> snap s' = snap s)"
    and save_commit: "inv s \<Longrightarrow> st_SaveCommitIndex ops = Some savec \<Longrightarrow> savec s i = (s', r) \<Longrightarrow>
      r \<noteq> Panic \<and> (r = Ok () \<longrightarrow> inv s' \<and> ents s' = ents s \<and> hard s' = hard s \<and> snap s' = snap s)"
    and load_hs: "inv s \<Longrightarrow> st_LoadHardState ops s = Ok h \<Longrightarrow> h = hard s"
    and get_entries: "inv s \<Longrightarrow> lo < hi \<Longrightarrow> st_GetLogEntries ops s lo hi = Ok es \<Longrightarrow>
      ents s \<noteq> [] \<and> first_index (ents s) \<le> lo \<and> hi \<le> last_index (ents s) + 1 \<and> es = between lo hi (ents s)"
    and first_idx: "inv s \<Longrightarrow> st_FirstIndex ops s = Ok i \<Longrightarrow> i = first_index (ents s)"
    and last_idx: "inv s \<Longrightarrow> st_LastIndex ops s = Ok i \<Longrightarrow> i = last_index (ents s)"
    and load_snap: "inv s \<Longrightarrow> st_LoadSnapshot ops s = Ok p \<Longrightarrow> snap s = Some p"
    and no_snap: "inv s \<Longrightarrow> st_LoadSnapshot ops s = Fail ErrNoSnapshot \<Longrightarrow> snap s = None"

locale reliable_storage = storage_contract +
  assumes append_ok: "inv s \<Longrightarrow> ok_append (ents s) es \<Longrightarrow> snd (st_AppendLogEntries ops s es) = Ok ()"
    and suffix_ok: "inv s \<Longrightarrow> ok_suffix (ents s) i \<Longrightarrow> snd (st_TruncateSuffix ops s i) = Ok ()"
    and prefix_ok: "inv s \<Longrightarrow> snd (st_TruncatePrefix ops s i) = Ok ()"
    and hs_ok: "inv s \<Longrightarrow> snd (st_SaveHardState ops s hs) = Ok ()"
    and state_ok: "inv s \<Longrightarrow> st_SaveState ops = Some save \<Longrightarrow> ok_append (ents s) es \<Longrightarrow> snd (save s h es) = Ok ()"
    and commit_ok: "inv s \<Longrightarrow> st_SaveCommitIndex ops = Some savec \<Longrightarrow> snd (savec s i) = Ok ()"
    and get_ok: "inv s \<Longrightarrow> ents s \<noteq> [] \<Longrightarrow> first_index (ents s) \<le> lo \<Longrightarrow> lo < hi \<Longrightarrow>
      hi \<le> last_index (ents s) + 1 \<Longrightarrow> st_GetLogEntries ops s lo hi = Ok (between lo hi (ents s))"
    and idx_ok: "inv s \<Longrightarrow> st_FirstIndex ops s = Ok (first_index (ents s))"
      "inv s \<Longrightarrow> st_LastIndex ops s = Ok (last_index (ents s))"

text \<open>\<open>complete_storage\<close> adds the rest of what \<open>storage.go\<close> documents: the reads of the hard
  state, of a single entry and of the snapshot return what is held, a read out of range is
  \<open>ErrNotFound\<close>, a store without a snapshot says so, and saving a snapshot succeeds.\<close>

locale complete_storage = reliable_storage +
  assumes load_hs_ok: "inv s \<Longrightarrow> st_LoadHardState ops s = Ok (hard s)"
    and get_one: "inv s \<Longrightarrow> st_GetLogEntry ops s i =
      (case find (\<lambda>e. e_Index e = i) (ents s) of None \<Rightarrow> Fail ErrNotFound | Some e \<Rightarrow> Ok e)"
    and get_none: "inv s \<Longrightarrow> hi \<le> lo \<Longrightarrow> st_GetLogEntries ops s lo hi = Ok []"
    and get_outside: "inv s \<Longrightarrow> lo < hi \<Longrightarrow> ents s = [] \<or> lo < first_index (ents s) \<or> last_index (ents s) + 1 < hi \<Longrightarrow>
      st_GetLogEntries ops s lo hi = Fail ErrNotFound"
    and save_snap_ok: "inv s \<Longrightarrow> snd (st_SaveSnapshot ops s meta d) = Ok ()"
    and load_snap_ok: "inv s \<Longrightarrow> st_LoadSnapshot ops s =
      (case snap s of None \<Rightarrow> Fail ErrNoSnapshot | Some p \<Rightarrow> Ok p)"

end
