(* ===== verification/Memstore.thy ===== *)
theory Memstore
  imports Storage
begin

text \<open>
  The reference store (\<open>storage/memstore/memstore.go\<close>): its operations, and the
  interpretation that shows it meets the contract of \<open>Storage\<close>.  Copies made to
  break aliasing are identities on values; locks are not modelled, each method
  being one atomic operation under the store's mutex.
\<close>

record MemStore =
  mem_hs :: HardState
  mem_entries :: "LogEntry list"
  mem_hasSnap :: bool
  mem_snapMeta :: SnapshotMeta
  mem_snapData :: bytes
  mem_commitIndex :: Index

definition mem_New :: MemStore where
  "mem_New = \<lparr>mem_hs = \<lparr>hs_CurrentTerm = 0, hs_VotedFor = []\<rparr>, mem_entries = [], mem_hasSnap = False,
    mem_snapMeta = \<lparr>sm_LastIncludedIndex = 0, sm_LastIncludedTerm = 0\<rparr>, mem_snapData = [],
    mem_commitIndex = 0\<rparr>"

definition cloneEntry :: "LogEntry \<Rightarrow> LogEntry" where
  "cloneEntry e = e"

definition mem_SaveHardState :: "MemStore \<Rightarrow> HardState \<Rightarrow> MemStore \<times> unit result" where
  "mem_SaveHardState m hs = (m\<lparr>mem_hs := hs\<rparr>, Ok ())"

definition mem_LoadHardState :: "MemStore \<Rightarrow> HardState result" where
  "mem_LoadHardState m = Ok (mem_hs m)"

definition mem_SaveCommitIndex :: "MemStore \<Rightarrow> Index \<Rightarrow> MemStore \<times> unit result" where
  "mem_SaveCommitIndex m i =
    (if mem_commitIndex m < i then (m\<lparr>mem_commitIndex := i\<rparr>, Ok ()) else (m, Ok ()))"

definition mem_LoadCommitIndex :: "MemStore \<Rightarrow> Index result" where
  "mem_LoadCommitIndex m = Ok (mem_commitIndex m)"

definition mem_AppendLogEntries :: "MemStore \<Rightarrow> LogEntry list \<Rightarrow> MemStore \<times> unit result" where
  "mem_AppendLogEntries m es =
    (if length es = 0 then (m, Ok ())
     else (m\<lparr>mem_entries := mem_entries m @ map cloneEntry es\<rparr>, Ok ()))"

definition mem_GetLogEntry :: "MemStore \<Rightarrow> Index \<Rightarrow> LogEntry result" where
  "mem_GetLogEntry m i =
    (if length (mem_entries m) = 0 then Fail ErrNotFound
     else let f = e_Index (mem_entries m ! 0);
              l = e_Index (mem_entries m ! (length (mem_entries m) - 1))
          in if i < f \<or> l < i then Fail ErrNotFound
             else obind (index_at (mem_entries m) (i - f)) (\<lambda>e. Ok (cloneEntry e)))"

definition mem_GetLogEntries :: "MemStore \<Rightarrow> Index \<Rightarrow> Index \<Rightarrow> LogEntry list result" where
  "mem_GetLogEntries m lo hi =
    (if hi \<le> lo then Ok []
     else if length (mem_entries m) = 0 then Fail ErrNotFound
     else let f = e_Index (mem_entries m ! 0);
              l = e_Index (mem_entries m ! (length (mem_entries m) - 1))
          in if lo < f \<or> l + 1 < hi then Fail ErrNotFound
             else obind (slice_range (mem_entries m) (lo - f) (hi - f)) (\<lambda>es. Ok (map cloneEntry es)))"

definition mem_FirstIndex :: "MemStore \<Rightarrow> Index result" where
  "mem_FirstIndex m = (if length (mem_entries m) = 0 then Ok 0 else Ok (e_Index (mem_entries m ! 0)))"

definition mem_LastIndex :: "MemStore \<Rightarrow> Index result" where
  "mem_LastIndex m =
    (if length (mem_entries m) = 0 then Ok 0
     else Ok (e_Index (mem_entries m ! (length (mem_entries m) - 1))))"

definition mem_TruncateSuffix :: "MemStore \<Rightarrow> Index \<Rightarrow> MemStore \<times> unit result" where
  "mem_TruncateSuffix m fromIndex =
    (if length (mem_entries m) = 0 then (m, Ok ())
     else let f = e_Index (mem_entries m ! 0)
          in if fromIndex < f then (m, Fail ErrCompacted)
             else if fromIndex = f then (m\<lparr>mem_entries := []\<rparr>, Ok ())
             else let l = e_Index (mem_entries m ! (length (mem_entries m) - 1))
                  in if l < fromIndex then (m, Ok ())
                     else case slice_to (mem_entries m) (fromIndex - f) of
                         Ok es \<Rightarrow> (m\<lparr>mem_entries := es\<rparr>, Ok ())
                       | Fail e \<Rightarrow> (m, Fail e)
                       | Panic \<Rightarrow> (m, Panic))"

definition mem_TruncatePrefix :: "MemStore \<Rightarrow> Index \<Rightarrow> MemStore \<times> unit result" where
  "mem_TruncatePrefix m toIndex =
    (if length (mem_entries m) = 0 then (m, Ok ())
     else let f = e_Index (mem_entries m ! 0)
          in if toIndex \<le> f then (m, Ok ())
             else let l = e_Index (mem_entries m ! (length (mem_entries m) - 1))
                  in if l < toIndex then (m\<lparr>mem_entries := []\<rparr>, Ok ())
                     else case slice_from (mem_entries m) (toIndex - f) of
                         Ok es \<Rightarrow> (m\<lparr>mem_entries := es\<rparr>, Ok ())
                       | Fail e \<Rightarrow> (m, Fail e)
                       | Panic \<Rightarrow> (m, Panic))"

text \<open>The reader handed to \<open>SaveSnapshot\<close> is the bytes it gives; a reader that
  fails is a failed call, and is not a call this model makes.\<close>

definition mem_SaveSnapshot :: "MemStore \<Rightarrow> SnapshotMeta \<Rightarrow> bytes \<Rightarrow> MemStore \<times> unit result" where
  "mem_SaveSnapshot m meta buf = (m\<lparr>mem_snapMeta := meta, mem_snapData := buf, mem_hasSnap := True\<rparr>, Ok ())"

definition mem_LoadSnapshot :: "MemStore \<Rightarrow> (SnapshotMeta \<times> bytes) result" where
  "mem_LoadSnapshot m = (if \<not> mem_hasSnap m then Fail ErrNoSnapshot else Ok (mem_snapMeta m, mem_snapData m))"

text \<open>The method set: \<open>MemStore\<close> implements \<open>CommitRecorder\<close> and not \<open>BatchWriter\<close>.\<close>

definition mem_storage :: "MemStore Storage" where
  "mem_storage = \<lparr>st_SaveHardState = mem_SaveHardState, st_LoadHardState = mem_LoadHardState,
    st_AppendLogEntries = mem_AppendLogEntries, st_GetLogEntry = mem_GetLogEntry,
    st_GetLogEntries = mem_GetLogEntries, st_FirstIndex = mem_FirstIndex, st_LastIndex = mem_LastIndex,
    st_TruncateSuffix = mem_TruncateSuffix, st_TruncatePrefix = mem_TruncatePrefix,
    st_SaveSnapshot = mem_SaveSnapshot, st_LoadSnapshot = mem_LoadSnapshot,
    st_SaveState = None, st_SaveCommitIndex = Some mem_SaveCommitIndex\<rparr>"

section \<open>The store meets the contract\<close>

definition mem_ok :: "MemStore \<Rightarrow> bool" where
  "mem_ok m \<longleftrightarrow> contig (mem_entries m)"

definition mem_snap :: "MemStore \<Rightarrow> (SnapshotMeta \<times> bytes) option" where
  "mem_snap m = (if mem_hasSnap m then Some (mem_snapMeta m, mem_snapData m) else None)"

lemma map_cloneEntry [simp]: "map cloneEntry es = es"
  by (induction es) (simp_all add: cloneEntry_def)

lemma mem_FirstIndex_eq: "mem_FirstIndex m = Ok (first_index (mem_entries m))"
  by (auto simp: mem_FirstIndex_def nth0_first_index)

lemma mem_LastIndex_eq: "mem_LastIndex m = Ok (last_index (mem_entries m))"
  using nth_last_index [of "mem_entries m"] by (auto simp: mem_LastIndex_def)

lemma mem_TruncateSuffix_spec:
  assumes "contig (mem_entries m)" "ok_suffix (mem_entries m) i"
  shows "mem_TruncateSuffix m i = (m\<lparr>mem_entries := filter (\<lambda>e. e_Index e < i) (mem_entries m)\<rparr>, Ok ())"
proof (cases "mem_entries m = []")
  case False
  let ?es = "mem_entries m"
  have f: "filter (\<lambda>e. e_Index e < i) ?es = take (i - first_index ?es) ?es"
    using assms(1) by (rule contig_filter_less)
  show ?thesis
    using False assms contig_last [OF assms(1) False] nth_last_index [OF False]
    by (auto simp: mem_TruncateSuffix_def Let_def nth0_first_index ok_suffix_def f slice_to_def)
qed (simp add: mem_TruncateSuffix_def)

lemma mem_TruncatePrefix_spec:
  assumes "contig (mem_entries m)"
  shows "mem_TruncatePrefix m i = (m\<lparr>mem_entries := filter (\<lambda>e. i \<le> e_Index e) (mem_entries m)\<rparr>, Ok ())"
proof (cases "mem_entries m = []")
  case False
  let ?es = "mem_entries m"
  have f: "filter (\<lambda>e. i \<le> e_Index e) ?es = drop (i - first_index ?es) ?es"
    using assms(1) by (rule contig_filter_ge)
  show ?thesis
    using False contig_last [OF assms(1) False] nth_last_index [OF False]
    by (auto simp: mem_TruncatePrefix_def Let_def nth0_first_index f slice_from_def)
qed (simp add: mem_TruncatePrefix_def)

lemma mem_GetLogEntries_spec:
  assumes "contig (mem_entries m)" "lo < hi"
  shows "mem_GetLogEntries m lo hi =
    (if mem_entries m \<noteq> [] \<and> first_index (mem_entries m) \<le> lo \<and> hi \<le> Suc (last_index (mem_entries m))
     then Ok (between lo hi (mem_entries m)) else Fail ErrNotFound)"
  using assms nth_last_index [of "mem_entries m"]
  by (auto simp: mem_GetLogEntries_def Let_def nth0_first_index between_slice)

lemma find_contig:
  assumes "contig es"
  shows "find (\<lambda>e. e_Index e = i) es
    = (if es \<noteq> [] \<and> first_index es \<le> i \<and> i \<le> last_index es then Some (es ! (i - first_index es)) else None)"
proof (cases "es \<noteq> [] \<and> first_index es \<le> i \<and> i \<le> last_index es")
  case True
  then have l: "i - first_index es < length es" "e_Index (es ! (i - first_index es)) = i"
    using contig_lookup [OF assms] by simp_all
  obtain e where e: "find (\<lambda>e. e_Index e = i) es = Some e"
    using l nth_mem [OF l(1)] by (cases "find (\<lambda>e. e_Index e = i) es") (auto simp: find_None_iff)
  then have "e \<in> set es" "e_Index e = i" by (auto simp: find_Some_iff)
  then have "e = es ! (i - first_index es)" using l nth_mem [OF l(1)] contig_inj [OF assms] by simp
  then show ?thesis using e True by simp
next
  case False
  then have "find (\<lambda>e. e_Index e = i) es = None"
    using contig_bounds [OF assms] by (auto simp: find_None_iff)
  then show ?thesis using False by auto
qed

lemma mem_GetLogEntry_spec:
  assumes "contig (mem_entries m)"
  shows "mem_GetLogEntry m i = (case find (\<lambda>e. e_Index e = i) (mem_entries m) of
    None \<Rightarrow> Fail ErrNotFound | Some e \<Rightarrow> Ok e)"
  using nth_last_index [of "mem_entries m"] contig_lookup [OF assms, of i]
  by (auto simp: mem_GetLogEntry_def Let_def nth0_first_index find_contig [OF assms] index_at_def cloneEntry_def)

lemma mem_GetLogEntries_none: "hi \<le> lo \<Longrightarrow> mem_GetLogEntries m lo hi = Ok []"
  by (simp add: mem_GetLogEntries_def)

interpretation mem: complete_storage mem_storage mem_ok mem_entries mem_hs mem_snap
  by unfold_locales
    (auto simp: mem_storage_def mem_ok_def mem_snap_def mem_SaveHardState_def mem_LoadHardState_def
      mem_AppendLogEntries_def ok_append_def mem_TruncateSuffix_spec mem_TruncatePrefix_spec
      mem_SaveSnapshot_def mem_LoadSnapshot_def mem_SaveCommitIndex_def mem_GetLogEntries_spec mem_GetLogEntry_spec mem_GetLogEntries_none
      mem_FirstIndex_eq mem_LastIndex_eq contig_filter_less contig_filter_ge contig_take contig_drop
      split: if_splits)

end
