(* ===== verification/Storage_Writer.thy ===== *)
theory Storage_Writer
  imports Memstore
begin

text \<open>
  The goroutine that owns every mutating storage call (\<open>storage_writer.go\<close>).  A
  writer is the queue, the completions, the store itself and the flags of the
  struct; \<open>sw_running\<close> is the local variable \<open>batch\<close> of the goroutine between the
  moment \<open>take\<close> hands it out and the moment \<open>execute\<close> has recorded its completions,
  so that the event loop can act in between.  The channels \<open>wake\<close> and \<open>notify\<close> hold
  at most one token and \<open>exited\<close> is closed once; each is a flag.  Durations are not
  modelled.
\<close>

section \<open>Operations\<close>

datatype writeKind = writeAppend | writeTruncateSuffix | writeTruncatePrefix | writeHardState | writeCommitIndex

fun writeKind_String :: "writeKind \<Rightarrow> string" where
  "writeKind_String writeAppend = ''append''"
| "writeKind_String writeTruncateSuffix = ''truncate_suffix''"
| "writeKind_String writeTruncatePrefix = ''truncate_prefix''"
| "writeKind_String writeHardState = ''hardstate''"
| "writeKind_String writeCommitIndex = ''commit_index''"

record writeOp =
  wo_seq :: nat
  wo_kind :: writeKind
  wo_entries :: "LogEntry list"
  wo_index :: Index
  wo_hs :: HardState
  wo_durableAfter :: Index

record writeDone =
  wd_seq :: nat
  wd_kind :: writeKind
  wd_durableAfter :: Index
  wd_err :: "raft_error option"

record 'st storageWriter =
  sw_ops :: "'st Storage"
  sw_storage :: 'st
  sw_maxBatchEntries :: nat
  sw_started :: bool
  sw_queue :: "writeOp list"
  sw_done :: "writeDone list"
  sw_executing :: bool
  sw_failed :: "raft_error option"
  sw_closed :: bool
  sw_wake :: bool
  sw_notify :: bool
  sw_exited :: bool
  sw_running :: "writeOp list"

definition defaultWriteBatchEntries :: nat where "defaultWriteBatchEntries = 4096"

definition newStorageWriter :: "'st Storage \<Rightarrow> 'st \<Rightarrow> 'st storageWriter" where
  "newStorageWriter ops s = \<lparr>sw_ops = ops, sw_storage = s, sw_maxBatchEntries = defaultWriteBatchEntries,
    sw_started = False, sw_queue = [], sw_done = [], sw_executing = False, sw_failed = None,
    sw_closed = False, sw_wake = False, sw_notify = False, sw_exited = False, sw_running = []\<rparr>"

definition enqueue :: "'st storageWriter \<Rightarrow> writeOp \<Rightarrow> 'st storageWriter" where
  "enqueue w op =
    (if sw_closed w then w
     else w\<lparr>sw_queue := sw_queue w @ [op], sw_started := True, sw_wake := True\<rparr>)"

definition takeDone :: "'st storageWriter \<Rightarrow> writeDone list \<times> 'st storageWriter" where
  "takeDone w = (sw_done w, w\<lparr>sw_done := []\<rparr>)"

definition writer_busy :: "'st storageWriter \<Rightarrow> bool" where
  "writer_busy w \<longleftrightarrow> 0 < length (sw_queue w) \<or> sw_executing w"

text \<open>\<open>close\<close> up to the point where it waits for \<open>exited\<close>.\<close>

definition writer_close :: "'st storageWriter \<Rightarrow> 'st storageWriter" where
  "writer_close w =
    (let alreadyClosed = sw_closed w;
         running = sw_started w;
         w = w\<lparr>sw_closed := True, sw_started := True\<rparr>
     in if alreadyClosed then w
        else if \<not> running then w\<lparr>sw_exited := True\<rparr>
        else w\<lparr>sw_wake := True\<rparr>)"

section \<open>Taking a run of operations\<close>

function take_end :: "writeOp list \<Rightarrow> nat \<Rightarrow> nat \<Rightarrow> nat \<Rightarrow> nat \<Rightarrow> nat" where
  "take_end q maxBatch f e cnt =
    (if e < length q \<and> wo_kind (q ! e) = writeAppend
     then let nxt = cnt + length (wo_entries (q ! e))
          in if f < e \<and> maxBatch < nxt then e else take_end q maxBatch f (Suc e) nxt
     else e)"
  by pat_completeness auto
termination by (relation "measure (\<lambda>(q, _, _, e, _). length q - e)") auto

declare take_end.simps [simp del]

definition writer_take :: "'st storageWriter \<Rightarrow> writeOp list \<times> bool \<times> 'st storageWriter" where
  "writer_take w =
    (let q = sw_queue w
     in if length q = 0 then ([], sw_closed w, w)
        else let w = w\<lparr>sw_executing := True\<rparr>;
                 f = (if st_SaveState (sw_ops w) \<noteq> None \<and> wo_kind (q ! 0) = writeHardState
                        \<and> 1 < length q \<and> wo_kind (q ! 1) = writeAppend then 1 else 0)
             in if f = 0 \<and> wo_kind (q ! 0) \<noteq> writeAppend
                then ([q ! 0], False, w\<lparr>sw_queue := drop 1 q\<rparr>)
                else let e = take_end q (sw_maxBatchEntries w) f f 0
                     in (take e q, False, w\<lparr>sw_queue := drop e q\<rparr>))"

section \<open>Executing it\<close>

definition writer_run :: "'st storageWriter \<Rightarrow> writeOp list \<Rightarrow> 'st \<times> unit result" where
  "writer_run w batch =
    (case sw_failed w of
       Some failed \<Rightarrow> (sw_storage w, Fail failed)
     | None \<Rightarrow>
         let s = sw_storage w; ops = sw_ops w;
             paired = (wo_kind (batch ! 0) = writeHardState \<and> 1 < length batch);
             hs = (if paired then Some (wo_hs (batch ! 0)) else None);
             appends = (if paired then drop 1 batch else batch)
         in if wo_kind (appends ! 0) = writeAppend
            then let es = (if 1 < length appends then concat (map wo_entries appends)
                           else wo_entries (appends ! 0))
                 in case hs of
                      Some h \<Rightarrow>
                        (case st_SaveState ops of Some save \<Rightarrow> save s (Some h) es | None \<Rightarrow> (s, Panic))
                    | None \<Rightarrow>
                        if length es = 0 then (s, Ok ()) else st_AppendLogEntries ops s es
            else let op = batch ! 0
                 in case wo_kind op of
                      writeTruncateSuffix \<Rightarrow> st_TruncateSuffix ops s (wo_index op)
                    | writeTruncatePrefix \<Rightarrow> st_TruncatePrefix ops s (wo_index op)
                    | writeHardState \<Rightarrow> st_SaveHardState ops s (wo_hs op)
                    | writeCommitIndex \<Rightarrow>
                        (case st_SaveCommitIndex ops of None \<Rightarrow> (s, Ok ()) | Some save \<Rightarrow> save s (wo_index op))
                    | writeAppend \<Rightarrow> (s, Fail (ErrOther ''unknown storage write kind'')))"

fun result_err :: "unit result \<Rightarrow> raft_error option" where
  "result_err (Ok _) = None"
| "result_err (Fail e) = Some e"
| "result_err Panic = None"

definition completion :: "raft_error option \<Rightarrow> writeOp \<Rightarrow> writeDone" where
  "completion err op =
    \<lparr>wd_seq = wo_seq op, wd_kind = wo_kind op, wd_durableAfter = wo_durableAfter op, wd_err = err\<rparr>"

text \<open>A panic in a storage call stops the process.\<close>

definition writer_execute :: "'st storageWriter \<Rightarrow> writeOp list \<Rightarrow> (unit, 'st storageWriter) outcome" where
  "writer_execute w batch =
    (case writer_run w batch of (s, r) \<Rightarrow>
       if r = Panic then Panic
       else let err = result_err r
            in Ok (w\<lparr>sw_storage := s, sw_executing := False,
                     sw_failed := (if err \<noteq> None \<and> sw_failed w = None then err else sw_failed w),
                     sw_done := sw_done w @ map (completion err) batch, sw_notify := True\<rparr>))"

text \<open>The goroutine: from the top of its loop to the call of \<open>execute\<close>, and that
  call.  With nothing to do it waits for \<open>wake\<close> or, once closed, returns.\<close>

definition loop_take :: "'st storageWriter \<Rightarrow> 'st storageWriter" where
  "loop_take w =
    (if \<not> sw_started w \<or> sw_exited w \<or> sw_running w \<noteq> [] then w
     else case writer_take w of (batch, stop, w) \<Rightarrow>
       if 0 < length batch then w\<lparr>sw_running := batch\<rparr>
       else if stop then w\<lparr>sw_exited := True\<rparr>
       else w\<lparr>sw_wake := False\<rparr>)"

definition loop_execute :: "'st storageWriter \<Rightarrow> (unit, 'st storageWriter) outcome" where
  "loop_execute w =
    (if sw_running w = [] then Ok w
     else obind (writer_execute w (sw_running w)) (\<lambda>w. Ok (w\<lparr>sw_running := []\<rparr>)))"

section \<open>What an operation does to the log\<close>

fun effect :: "writeOp \<Rightarrow> LogEntry list \<Rightarrow> LogEntry list" where
  "effect op es =
    (case wo_kind op of
       writeAppend \<Rightarrow> es @ wo_entries op
     | writeTruncateSuffix \<Rightarrow> filter (\<lambda>e. e_Index e < wo_index op) es
     | writeTruncatePrefix \<Rightarrow> filter (\<lambda>e. wo_index op \<le> e_Index e) es
     | writeHardState \<Rightarrow> es
     | writeCommitIndex \<Rightarrow> es)"

fun hs_effect :: "writeOp \<Rightarrow> HardState \<Rightarrow> HardState" where
  "hs_effect op hs = (if wo_kind op = writeHardState then wo_hs op else hs)"

text \<open>An operation the storage contract covers, on the log it will find.\<close>

definition op_ok :: "LogEntry list \<Rightarrow> writeOp \<Rightarrow> bool" where
  "op_ok es op \<longleftrightarrow>
    (wo_kind op = writeAppend \<longrightarrow> ok_append es (wo_entries op)) \<and>
    (wo_kind op = writeTruncateSuffix \<longrightarrow> ok_suffix es (wo_index op))"

fun ops_ok :: "LogEntry list \<Rightarrow> writeOp list \<Rightarrow> bool" where
  "ops_ok es [] = True"
| "ops_ok es (op # ops) = (op_ok es op \<and> ops_ok (effect op es) ops)"

declare effect.simps [simp del] hs_effect.simps [simp del]

lemma ops_ok_append: "ops_ok es (xs @ ys) \<longleftrightarrow> ops_ok es xs \<and> ops_ok (fold effect xs es) ys"
  by (induction xs arbitrary: es) auto

lemma effect_contig: "contig es \<Longrightarrow> op_ok es op \<Longrightarrow> contig (effect op es)"
  by (auto simp: effect.simps op_ok_def ok_append_def contig_filter_less contig_filter_ge contig_take
      contig_drop split: writeKind.splits)

lemma effects_contig: "contig es \<Longrightarrow> ops_ok es ops \<Longrightarrow> contig (fold effect ops es)"
  by (induction ops arbitrary: es) (auto simp: effect_contig)

section \<open>The shape of a run\<close>

text \<open>Either one operation, or appends, or a hard state followed by appends when the
  store can write both at once.\<close>

definition batch_shape :: "'st Storage \<Rightarrow> writeOp list \<Rightarrow> bool" where
  "batch_shape ops batch \<longleftrightarrow>
    length batch = 1 \<or>
    (batch \<noteq> [] \<and> list_all (\<lambda>op. wo_kind op = writeAppend) batch) \<or>
    (st_SaveState ops \<noteq> None \<and> 1 < length batch \<and> wo_kind (hd batch) = writeHardState
      \<and> list_all (\<lambda>op. wo_kind op = writeAppend) (tl batch))"

lemma take_end_ge: "e \<le> take_end q m f e t"
  by (induction q m f e t rule: take_end.induct) (subst take_end.simps, auto simp: Let_def)

lemma take_end_le: "e \<le> length q \<Longrightarrow> take_end q m f e t \<le> length q"
  by (induction q m f e t rule: take_end.induct) (subst take_end.simps, auto simp: Let_def)

lemma take_end_appends:
  "e \<le> i \<Longrightarrow> i < take_end q m f e t \<Longrightarrow> wo_kind (q ! i) = writeAppend"
proof (induction q m f e t rule: take_end.induct)
  case (1 q m f e t)
  show ?case
  proof (cases "e < length q \<and> wo_kind (q ! e) = writeAppend
      \<and> \<not> (f < e \<and> m < t + length (wo_entries (q ! e)))")
    case True
    then have "i < take_end q m f (Suc e) (t + length (wo_entries (q ! e)))"
      using "1.prems"(2) by (subst (asm) take_end.simps) (auto simp: Let_def)
    then show ?thesis using "1.IH" True "1.prems"(1) by (cases "i = e") auto
  next
    case False
    then have "take_end q m f e t = e" by (subst take_end.simps) (auto simp: Let_def)
    then show ?thesis using "1.prems" by simp
  qed
qed

lemma take_end_progress:
  "f < length q \<Longrightarrow> wo_kind (q ! f) = writeAppend \<Longrightarrow> f < take_end q m f f t"
  using take_end_ge [of "Suc f" q m f "t + length (wo_entries (q ! f))"]
  by (subst take_end.simps) (simp add: Let_def)

lemma take_all_appends:
  assumes "f \<le> n" "\<And>i. f \<le> i \<Longrightarrow> i < n \<Longrightarrow> wo_kind (q ! i) = writeAppend" "n \<le> length q"
  shows "list_all (\<lambda>op. wo_kind op = writeAppend) (drop f (take n q))"
  using assms by (auto simp: list_all_length)

lemma writer_take_spec:
  assumes "writer_take w = (batch, stop, w')" "sw_queue w \<noteq> []"
  shows "sw_queue w = batch @ sw_queue w' \<and> batch \<noteq> [] \<and> \<not> stop \<and> batch_shape (sw_ops w) batch
    \<and> w' = w\<lparr>sw_queue := sw_queue w', sw_executing := True\<rparr>"
proof -
  let ?q = "sw_queue w"
  define f :: nat where "f = (if st_SaveState (sw_ops w) \<noteq> None \<and> wo_kind (?q ! 0) = writeHardState
      \<and> 1 < length ?q \<and> wo_kind (?q ! 1) = writeAppend then 1 else 0)"
  show ?thesis
  proof (cases "f = 0 \<and> wo_kind (?q ! 0) \<noteq> writeAppend")
    case True
    then have "batch = [?q ! 0]" "stop = False" "w' = w\<lparr>sw_executing := True, sw_queue := drop 1 ?q\<rparr>"
      using assms by (auto simp: writer_take_def Let_def f_def split: if_splits)
    then show ?thesis using assms(2) by (cases ?q) (simp_all add: batch_shape_def)
  next
    case False
    let ?e = "take_end ?q (sw_maxBatchEntries w) f f 0"
    have r: "batch = take ?e ?q" "stop = False" "w' = w\<lparr>sw_executing := True, sw_queue := drop ?e ?q\<rparr>"
      using assms False by (auto simp: writer_take_def Let_def f_def)
    have f: "f < length ?q" "wo_kind (?q ! f) = writeAppend"
      using False assms(2) by (auto simp: f_def split: if_splits)
    have e: "f < ?e" "?e \<le> length ?q"
      using take_end_progress [OF f] take_end_le [of f ?q] f(1) by simp_all
    have app: "list_all (\<lambda>op. wo_kind op = writeAppend) (drop f (take ?e ?q))"
      using take_end_appends e by (intro take_all_appends) auto
    have ne: "batch \<noteq> []" using e r(1) by auto
    have "batch_shape (sw_ops w) batch"
    proof (cases "f = 0")
      case True
      then show ?thesis using app ne r(1) by (simp add: batch_shape_def)
    next
      case f1: False
      then have *: "f = 1" "st_SaveState (sw_ops w) \<noteq> None" "wo_kind (?q ! 0) = writeHardState"
        by (auto simp: f_def split: if_splits)
      have "1 < length batch" using e r(1) * by simp
      moreover have "hd batch = ?q ! 0" using ne r(1) assms(2) by (simp add: hd_conv_nth)
      moreover have "tl batch = drop 1 batch" by (simp add: drop_Suc)
      ultimately show ?thesis using app * r(1) by (simp add: batch_shape_def)
    qed
    then show ?thesis using r ne by simp
  qed
qed

lemma writer_take_empty: "sw_queue w = [] \<Longrightarrow> writer_take w = ([], sw_closed w, w)"
  by (simp add: writer_take_def)

lemma fold_effect_appends:
  "list_all (\<lambda>op. wo_kind op = writeAppend) ops \<Longrightarrow> fold effect ops es = es @ concat (map wo_entries ops)"
  by (induction ops arbitrary: es) (simp_all add: effect.simps)

lemma fold_hs_appends:
  "list_all (\<lambda>op. wo_kind op = writeAppend) ops \<Longrightarrow> fold hs_effect ops h = h"
  by (induction ops) (simp_all add: hs_effect.simps)

lemma ops_ok_appends:
  "list_all (\<lambda>op. wo_kind op = writeAppend) ops \<Longrightarrow> contig es \<Longrightarrow> ops_ok es ops \<Longrightarrow>
    ok_append es (concat (map wo_entries ops))"
  using effects_contig [of es ops] by (simp add: ok_append_def fold_effect_appends)

section \<open>A run is its operations one after the other\<close>

text \<open>What the store holds after a run: the effect of each operation in turn, however
  the run was coalesced.\<close>

text \<open>Operations that have not reached the store, oldest first.\<close>

definition pending_ops :: "'a storageWriter \<Rightarrow> writeOp list" where
  "pending_ops w = sw_running w @ sw_queue w"

text \<open>The writer's own invariant: what is running has the shape \<open>take\<close> gives, and as
  long as nothing failed the store is in order and every operation that waits is one
  the contract covers when its turn comes.\<close>

definition writer_inv :: "'a Storage \<Rightarrow> ('a \<Rightarrow> bool) \<Rightarrow> ('a \<Rightarrow> LogEntry list) \<Rightarrow> 'a storageWriter \<Rightarrow> bool" where
  "writer_inv ops J ents w \<longleftrightarrow> sw_ops w = ops \<and>
    (sw_running w \<noteq> [] \<longrightarrow> batch_shape ops (sw_running w)) \<and>
    (sw_failed w = None \<longrightarrow> J (sw_storage w) \<and> ops_ok (ents (sw_storage w)) (pending_ops w))"

text \<open>What the log will be once every operation that waits has been executed.\<close>

definition final_ents :: "('a \<Rightarrow> LogEntry list) \<Rightarrow> 'a storageWriter \<Rightarrow> LogEntry list" where
  "final_ents ents w = fold effect (pending_ops w) (ents (sw_storage w))"

lemma loop_take_spec:
  assumes "loop_take w = w'"
  shows "pending_ops w' = pending_ops w \<and> sw_storage w' = sw_storage w \<and> sw_ops w' = sw_ops w
    \<and> sw_failed w' = sw_failed w \<and> sw_done w' = sw_done w \<and> sw_closed w' = sw_closed w
    \<and> sw_started w' = sw_started w
    \<and> (sw_running w = [] \<longrightarrow> sw_running w' \<noteq> [] \<longrightarrow> batch_shape (sw_ops w) (sw_running w'))
    \<and> (sw_running w \<noteq> [] \<longrightarrow> sw_running w' = sw_running w)"
proof (cases "\<not> sw_started w \<or> sw_exited w \<or> sw_running w \<noteq> []")
  case True
  then show ?thesis using assms by (auto simp: loop_take_def)
next
  case False
  obtain batch stop w1 where t: "writer_take w = (batch, stop, w1)" by (metis surj_pair)
  show ?thesis
  proof (cases "sw_queue w = []")
    case True
    then show ?thesis using assms False by (auto simp: loop_take_def writer_take_empty pending_ops_def split: if_splits)
  next
    case ne: False
    note sp = writer_take_spec [OF t ne]
    then have "w' = w1\<lparr>sw_running := batch\<rparr>" using assms False t by (auto simp: loop_take_def)
    moreover obtain q where "w1 = w\<lparr>sw_queue := q, sw_executing := True\<rparr>" using sp by blast
    ultimately show ?thesis using sp False by (simp add: pending_ops_def)
  qed
qed

context storage_contract
begin

lemma run_appends:
  assumes "sw_ops w = ops" "sw_failed w = None" "inv (sw_storage w)"
    and "batch \<noteq> []" "list_all (\<lambda>op. wo_kind op = writeAppend) batch"
    and "ops_ok (ents (sw_storage w)) batch" "writer_run w batch = (s, r)"
  shows "r \<noteq> Panic \<and> (r = Ok () \<longrightarrow> inv s \<and> ents s = fold effect batch (ents (sw_storage w))
    \<and> hard s = fold hs_effect batch (hard (sw_storage w)) \<and> snap s = snap (sw_storage w))"
proof -
  let ?es = "concat (map wo_entries batch)"
  have k: "wo_kind (batch ! 0) = writeAppend" using assms(4,5) by (cases batch) auto
  have run: "writer_run w batch =
      (if length ?es = 0 then (sw_storage w, Ok ()) else st_AppendLogEntries ops (sw_storage w) ?es)"
  proof (cases "tl batch = []")
    case True
    then obtain op where "batch = [op]" using assms(4) by (cases batch) auto
    then show ?thesis using k by (simp add: writer_run_def Let_def assms(1,2))
  next
    case False
    then have "1 < length batch" by (cases batch) auto
    then show ?thesis by (simp add: writer_run_def Let_def assms(1,2) k)
  qed
  have ok: "ok_append (ents (sw_storage w)) ?es"
    using ops_ok_appends [OF assms(5) inv_contig [OF assms(3)] assms(6)] .
  show ?thesis
    using append [OF assms(3) ok, of s r] assms(3,7)
    by (auto simp: run fold_effect_appends [OF assms(5)] fold_hs_appends [OF assms(5)] split: if_splits)
qed

lemma run_single:
  assumes "sw_ops w = ops" "sw_failed w = None" "inv (sw_storage w)"
    and "op_ok (ents (sw_storage w)) op" "wo_kind op \<noteq> writeAppend" "writer_run w [op] = (s, r)"
  shows "r \<noteq> Panic \<and> (r = Ok () \<longrightarrow> inv s \<and> ents s = effect op (ents (sw_storage w))
    \<and> hard s = hs_effect op (hard (sw_storage w)) \<and> snap s = snap (sw_storage w))"
proof (cases "wo_kind op")
  case writeTruncateSuffix
  then show ?thesis
    using assms trunc_suffix [OF assms(3), of "wo_index op" s r]
    by (simp add: writer_run_def Let_def op_ok_def effect.simps hs_effect.simps)
next
  case writeTruncatePrefix
  then show ?thesis
    using assms trunc_prefix [OF assms(3), of "wo_index op" s r]
    by (simp add: writer_run_def Let_def effect.simps hs_effect.simps)
next
  case writeHardState
  then show ?thesis
    using assms save_hs [OF assms(3), of "wo_hs op" s r]
    by (simp add: writer_run_def Let_def effect.simps hs_effect.simps)
next
  case writeCommitIndex
  then show ?thesis
    using assms save_commit [OF assms(3), of _ "wo_index op" s r]
    by (auto simp: writer_run_def Let_def effect.simps hs_effect.simps split: option.splits)
qed (use assms(5) in simp)

lemma run_paired:
  assumes "sw_ops w = ops" "sw_failed w = None" "inv (sw_storage w)"
    and "st_SaveState ops = Some save" "wo_kind op = writeHardState"
    and "batch \<noteq> []" "list_all (\<lambda>op. wo_kind op = writeAppend) batch"
    and "ops_ok (ents (sw_storage w)) (op # batch)" "writer_run w (op # batch) = (s, r)"
  shows "r \<noteq> Panic \<and> (r = Ok () \<longrightarrow> inv s \<and> ents s = fold effect (op # batch) (ents (sw_storage w))
    \<and> hard s = fold hs_effect (op # batch) (hard (sw_storage w)) \<and> snap s = snap (sw_storage w))"
proof -
  let ?es = "concat (map wo_entries batch)"
  have k: "wo_kind (batch ! 0) = writeAppend" using assms(6,7) by (cases batch) auto
  have e: "effect op (ents (sw_storage w)) = ents (sw_storage w)" using assms(5) by (simp add: effect.simps)
  have run: "writer_run w (op # batch) = save (sw_storage w) (Some (wo_hs op)) ?es"
  proof (cases "tl batch = []")
    case True
    then obtain op' where "batch = [op']" using assms(6) by (cases batch) auto
    then show ?thesis using k assms(4,5) by (simp add: writer_run_def Let_def assms(1,2))
  next
    case False
    then have "1 < length batch" by (cases batch) auto
    then show ?thesis using k assms(4-6) by (simp add: writer_run_def Let_def assms(1,2))
  qed
  have ok: "ok_append (ents (sw_storage w)) ?es"
    using ops_ok_appends [OF assms(7) inv_contig [OF assms(3)]] assms(8) e by simp
  show ?thesis
    using save_state [OF assms(3,4) ok, of "Some (wo_hs op)" s r] assms(9,5)
    by (simp add: run e hs_effect.simps fold_effect_appends [OF assms(7)] fold_hs_appends [OF assms(7)])
qed

lemma run_batch:
  assumes "sw_ops w = ops" "sw_failed w = None" "inv (sw_storage w)"
    and "batch_shape ops batch" "ops_ok (ents (sw_storage w)) batch" "writer_run w batch = (s, r)"
  shows "r \<noteq> Panic \<and> (r = Ok () \<longrightarrow> inv s \<and> ents s = fold effect batch (ents (sw_storage w))
    \<and> hard s = fold hs_effect batch (hard (sw_storage w)) \<and> snap s = snap (sw_storage w))"
proof -
  consider (appends) "batch \<noteq> []" "list_all (\<lambda>op. wo_kind op = writeAppend) batch"
    | (single) op where "batch = [op]" "wo_kind op \<noteq> writeAppend"
    | (paired) op rest save where "batch = op # rest" "wo_kind op = writeHardState" "rest \<noteq> []"
        "list_all (\<lambda>op. wo_kind op = writeAppend) rest" "st_SaveState ops = Some save"
    using assms(4) unfolding batch_shape_def
    by (cases batch; cases "tl batch"; cases "wo_kind (hd batch) = writeAppend") auto
  then show ?thesis
  proof cases
    case appends
    then show ?thesis by (rule run_appends [OF assms(1-3) _ _ assms(5,6)])
  next
    case single
    have "op_ok (ents (sw_storage w)) op" "writer_run w [op] = (s, r)"
      using assms(5,6) single(1) by simp_all
    from run_single [OF assms(1-3) this(1) single(2) this(2)] show ?thesis unfolding single(1) fold_simps by blast
  next
    case paired
    show ?thesis
      using run_paired [OF assms(1-3) paired(5,2,3,4)] assms(5,6) unfolding paired(1) by blast
  qed
qed

lemma loop_execute_spec:
  assumes "writer_inv ops inv ents w"
  obtains w' where "loop_execute w = Ok w'" "writer_inv ops inv ents w'" "sw_running w' = []"
    "sw_queue w' = sw_queue w" "sw_closed w' = sw_closed w" "sw_started w' = sw_started w"
    "sw_exited w' = sw_exited w"
    "sw_failed w' = None \<Longrightarrow> sw_failed w = None \<and> ents (sw_storage w') = fold effect (sw_running w) (ents (sw_storage w))
      \<and> hard (sw_storage w') = fold hs_effect (sw_running w) (hard (sw_storage w))
      \<and> snap (sw_storage w') = snap (sw_storage w)
      \<and> sw_done w' = sw_done w @ map (completion None) (sw_running w)"
    "map wd_seq (sw_done w') = map wd_seq (sw_done w) @ map wo_seq (sw_running w)"
proof (cases "sw_running w = []")
  case True
  then show ?thesis using that [of w] assms by (simp add: loop_execute_def)
next
  case False
  obtain s r where run: "writer_run w (sw_running w) = (s, r)" by (metis surj_pair)
  have w: "sw_ops w = ops" "batch_shape ops (sw_running w)" using assms False by (simp_all add: writer_inv_def)
  have ok: "inv (sw_storage w)" "ops_ok (ents (sw_storage w)) (sw_running w)"
      "ops_ok (fold effect (sw_running w) (ents (sw_storage w))) (sw_queue w)" if "sw_failed w = None"
    using assms that by (simp_all add: writer_inv_def pending_ops_def ops_ok_append)
  have failed: "r \<noteq> Panic \<and> r \<noteq> Ok ()" if "sw_failed w \<noteq> None"
    using run that by (auto simp: writer_run_def)
  have np: "r \<noteq> Panic"
    using failed run_batch [OF w(1) _ ok(1) w(2) ok(2) run] by (cases "sw_failed w = None") auto
  have good: "inv s \<and> ents s = fold effect (sw_running w) (ents (sw_storage w))
      \<and> hard s = fold hs_effect (sw_running w) (hard (sw_storage w)) \<and> snap s = snap (sw_storage w)"
    if "sw_failed w = None" "r = Ok ()"
    using run_batch [OF w(1) that(1) ok(1) [OF that(1)] w(2) ok(2) [OF that(1)] run] that(2) by blast
  define w' where "w' = w\<lparr>sw_storage := s, sw_executing := False,
    sw_failed := (if result_err r \<noteq> None \<and> sw_failed w = None then result_err r else sw_failed w),
    sw_done := sw_done w @ map (completion (result_err r)) (sw_running w), sw_notify := True, sw_running := []\<rparr>"
  have ex: "loop_execute w = Ok w'"
    using False np by (simp add: loop_execute_def writer_execute_def run Let_def w'_def)
  have none: "sw_failed w = None \<and> r = Ok ()" if "sw_failed w' = None"
    using that np by (cases r) (auto simp: w'_def split: if_splits)
  show ?thesis
  proof (rule that [OF ex])
    show "writer_inv ops inv ents w'"
    proof (cases "sw_failed w' = None")
      case True
      then have "sw_failed w = None" "r = Ok ()" using none by blast+
      with good ok(3) have "inv s" "ops_ok (ents s) (sw_queue w)" by auto
      then show ?thesis using w(1) by (simp add: writer_inv_def pending_ops_def w'_def)
    next
      case False
      moreover have "sw_ops w' = ops" "sw_running w' = []" using w(1) by (simp_all add: w'_def)
      ultimately show ?thesis by (auto simp: writer_inv_def)
    qed
    show "sw_failed w = None \<and> ents (sw_storage w') = fold effect (sw_running w) (ents (sw_storage w))
      \<and> hard (sw_storage w') = fold hs_effect (sw_running w) (hard (sw_storage w))
      \<and> snap (sw_storage w') = snap (sw_storage w)
      \<and> sw_done w' = sw_done w @ map (completion None) (sw_running w)" if "sw_failed w' = None"
    proof -
      have n: "sw_failed w = None" "r = Ok ()" using none [OF that] by blast+
      show ?thesis using good [OF n] n by (simp add: w'_def)
    qed
  qed (simp_all add: w'_def completion_def comp_def)
qed

lemma loop_execute_result:
  assumes "writer_inv ops inv ents w" "loop_execute w = Ok w'"
  shows "writer_inv ops inv ents w'" "sw_running w' = []" "sw_queue w' = sw_queue w" "sw_closed w' = sw_closed w"
    and "sw_failed w' = None \<Longrightarrow> sw_failed w = None \<and> ents (sw_storage w') = fold effect (sw_running w) (ents (sw_storage w))
      \<and> hard (sw_storage w') = fold hs_effect (sw_running w) (hard (sw_storage w))
      \<and> snap (sw_storage w') = snap (sw_storage w)
      \<and> sw_done w' = sw_done w @ map (completion None) (sw_running w)"
  using loop_execute_spec [OF assms(1)] assms(2) by (metis outcome.inject(1))+

lemma loop_take_inv: "writer_inv ops inv ents w \<Longrightarrow> writer_inv ops inv ents (loop_take w)"
  using loop_take_spec [OF refl, of w] by (auto simp: writer_inv_def)

lemma enqueue_inv:
  assumes "writer_inv ops inv ents w" "op_ok (final_ents ents w) op"
  shows "writer_inv ops inv ents (enqueue w op)"
  using assms by (auto simp: writer_inv_def enqueue_def pending_ops_def final_ents_def ops_ok_append)

end

section \<open>Draining\<close>

text \<open>One turn of the goroutine, and \<open>n\<close> of them.\<close>

definition writer_turn :: "'st storageWriter \<Rightarrow> (unit, 'st storageWriter) outcome" where
  "writer_turn w = loop_execute (loop_take w)"

fun writer_turns :: "nat \<Rightarrow> 'st storageWriter \<Rightarrow> (unit, 'st storageWriter) outcome" where
  "writer_turns 0 w = Ok w"
| "writer_turns (Suc n) w = obind (writer_turn w) (writer_turns n)"

lemma loop_take_progress:
  "sw_started w \<Longrightarrow> \<not> sw_exited w \<Longrightarrow> sw_running w = [] \<Longrightarrow> sw_queue w \<noteq> [] \<Longrightarrow>
    length (sw_queue (loop_take w)) < length (sw_queue w) \<and> sw_exited (loop_take w) = sw_exited w"
proof -
  assume a: "sw_started w" "\<not> sw_exited w" "sw_running w = []" "sw_queue w \<noteq> []"
  obtain batch stop w1 where t: "writer_take w = (batch, stop, w1)" by (metis surj_pair)
  note sp = writer_take_spec [OF t a(4)]
  then obtain q where w1: "w1 = w\<lparr>sw_queue := q, sw_executing := True\<rparr>" by blast
  have "loop_take w = w1\<lparr>sw_running := batch\<rparr>" using a t sp by (simp add: loop_take_def)
  then show ?thesis using sp w1 by (cases batch) auto
qed

lemma loop_take_exit:
  "sw_started w \<Longrightarrow> \<not> sw_exited w \<Longrightarrow> sw_running w = [] \<Longrightarrow> sw_queue w = [] \<Longrightarrow> sw_closed w \<Longrightarrow>
    loop_take w = w\<lparr>sw_exited := True\<rparr>"
  by (simp add: loop_take_def writer_take_empty)

lemma turns_exited: "sw_exited w \<Longrightarrow> sw_running w = [] \<Longrightarrow> writer_turns n w = Ok w"
  by (induction n) (simp_all add: writer_turn_def loop_execute_def loop_take_def)

context storage_contract
begin

text \<open>A closed writer returns, having reported every operation in the order it was
  queued; if none failed, the store holds the effect of all of them.\<close>

lemma drain:
  assumes "writer_inv ops inv ents w" "sw_closed w" "sw_started w" "\<not> sw_exited w" "sw_running w = []"
    and "length (sw_queue w) \<le> n"
  shows "\<exists>w'. writer_turns (Suc n) w = Ok w' \<and> sw_exited w' \<and> pending_ops w' = []
    \<and> map wd_seq (sw_done w') = map wd_seq (sw_done w) @ map wo_seq (sw_queue w)
    \<and> (sw_failed w' = None \<longrightarrow> sw_failed w = None
        \<and> ents (sw_storage w') = fold effect (sw_queue w) (ents (sw_storage w))
        \<and> hard (sw_storage w') = fold hs_effect (sw_queue w) (hard (sw_storage w)))"
  using assms
proof (induction n arbitrary: w)
  case 0
  then have "loop_take w = w\<lparr>sw_exited := True\<rparr>" by (simp add: loop_take_exit)
  then show ?case using 0 by (simp add: writer_turn_def loop_execute_def pending_ops_def)
next
  case (Suc n)
  show ?case
  proof (cases "sw_queue w = []")
    case True
    then have "loop_take w = w\<lparr>sw_exited := True\<rparr>" using Suc.prems by (simp add: loop_take_exit)
    then have "writer_turns (Suc (Suc n)) w = Ok (w\<lparr>sw_exited := True\<rparr>)"
      using turns_exited [of "w\<lparr>sw_exited := True\<rparr>" "Suc n"] Suc.prems(5)
      by (simp add: writer_turn_def loop_execute_def del: writer_turns.simps(2))
        (simp add: writer_turns.simps(2) [of "Suc n" w] writer_turn_def loop_execute_def)
    then show ?thesis using Suc.prems True by (simp add: pending_ops_def del: writer_turns.simps)
  next
    case False
    let ?u = "loop_take w"
    note p = loop_take_progress [OF Suc.prems(3-5) False] and t = loop_take_spec [OF refl, of w]
    obtain v where v: "loop_execute ?u = Ok v" "writer_inv ops inv ents v" "sw_running v = []"
      "sw_queue v = sw_queue ?u" "sw_closed v = sw_closed ?u" "sw_started v = sw_started ?u"
      "sw_exited v = sw_exited ?u"
      "sw_failed v = None \<Longrightarrow> sw_failed ?u = None \<and> ents (sw_storage v) = fold effect (sw_running ?u) (ents (sw_storage ?u))
        \<and> hard (sw_storage v) = fold hs_effect (sw_running ?u) (hard (sw_storage ?u))
        \<and> snap (sw_storage v) = snap (sw_storage ?u)
        \<and> sw_done v = sw_done ?u @ map (completion None) (sw_running ?u)"
      "map wd_seq (sw_done v) = map wd_seq (sw_done ?u) @ map wo_seq (sw_running ?u)"
      using loop_execute_spec [OF loop_take_inv [OF Suc.prems(1)]] by metis
    have q: "sw_queue w = sw_running ?u @ sw_queue v"
      using t Suc.prems(5) v(4) by (simp add: pending_ops_def)
    obtain w' where w': "writer_turns (Suc n) v = Ok w'" "sw_exited w'" "pending_ops w' = []"
      "map wd_seq (sw_done w') = map wd_seq (sw_done v) @ map wo_seq (sw_queue v)"
      "sw_failed w' = None \<longrightarrow> sw_failed v = None
        \<and> ents (sw_storage w') = fold effect (sw_queue v) (ents (sw_storage v))
        \<and> hard (sw_storage w') = fold hs_effect (sw_queue v) (hard (sw_storage v))"
    proof -
      have "sw_closed v" "sw_started v" "\<not> sw_exited v" "length (sw_queue v) \<le> n"
        using v(4-7) p t Suc.prems by simp_all
      from Suc.IH [OF v(2) this(1-3) v(3) this(4)] show thesis by (elim exE conjE) (rule that)
    qed
    have turns: "writer_turns (Suc (Suc n)) w = Ok w'"
      using w'(1) v(1) by (simp add: writer_turns.simps(2) [of "Suc n" w] writer_turn_def del: writer_turns.simps)
    have st: "sw_storage ?u = sw_storage w" "sw_failed ?u = sw_failed w" "sw_done ?u = sw_done w" using t by blast+
    have "sw_failed w = None \<and> ents (sw_storage w') = fold effect (sw_queue w) (ents (sw_storage w))
        \<and> hard (sw_storage w') = fold hs_effect (sw_queue w) (hard (sw_storage w))" if "sw_failed w' = None"
    proof -
      have n: "sw_failed v = None" using w'(5) that by blast
      show ?thesis using w'(5) that v(8) [OF n] by (simp add: q st)
    qed
    then show ?thesis
      using turns w'(2-4) v(9) by (intro exI [of _ w']) (simp add: q st del: writer_turns.simps)
  qed
qed

end

end
