(* ===== verification/Config_Change.thy ===== *)
theory Config_Change
  imports Types
begin

text \<open>
  The log entries and the snapshot section that carry group configuration
  (\<open>config_change.go\<close>): membership changes, joint consensus, the commit quorum
  and the client table cap.  A decoder of the source returns \<open>ok = false\<close> on
  malformed input, which is \<open>Fail ()\<close> here; \<open>Panic\<close> is an out-of-range slice, and
  no decoder reaches it on any input.
\<close>

unbundle bit_operations_syntax

section \<open>Single membership changes\<close>

definition configOpAdd :: byte where "configOpAdd = 1"
definition configOpRemove :: byte where "configOpRemove = 2"
definition configOpJoint :: byte where "configOpJoint = 3"
definition configOpFinalise :: byte where "configOpFinalise = 4"
definition configOpClientTableCap :: byte where "configOpClientTableCap = 5"
definition configOpCommitQuorum :: byte where "configOpCommitQuorum = 6"

lemmas config_ops = configOpAdd_def configOpRemove_def configOpJoint_def
  configOpFinalise_def configOpClientTableCap_def configOpCommitQuorum_def

definition configMagic :: bytes where "configMagic = [0x00, 0x52, 0x61, 0x43]"

definition isConfigEntry :: "bytes \<Rightarrow> bool" where
  "isConfigEntry cmd \<longleftrightarrow> 5 \<le> length cmd \<and>
    cmd ! 0 = configMagic ! 0 \<and> cmd ! 1 = configMagic ! 1 \<and>
    cmd ! 2 = configMagic ! 2 \<and> cmd ! 3 = configMagic ! 3"

definition peerFlagVoter :: byte where "peerFlagVoter = push_bit 0 1"
definition peerFlagWitness :: byte where "peerFlagWitness = push_bit 1 1"

definition peerFlags :: "PeerConfig \<Rightarrow> byte" where
  "peerFlags p =
    (let b = 0;
         b = (if pc_Voter p then b OR peerFlagVoter else b);
         b = (if pc_Witness p then b OR peerFlagWitness else b)
     in b)"

definition peerRoles :: "byte \<Rightarrow> bool \<times> bool" where
  "peerRoles b = (b AND peerFlagVoter \<noteq> 0, b AND peerFlagWitness \<noteq> 0)"

definition encodeConfigEntry :: "byte \<Rightarrow> PeerConfig \<Rightarrow> bytes" where
  "encodeConfigEntry op peer = configMagic @ [op, peerFlags peer] @ pc_ID peer"

definition decodeConfigEntry :: "bytes \<Rightarrow> (unit, byte \<times> PeerConfig) outcome" where
  "decodeConfigEntry cmd =
    (if \<not> isConfigEntry cmd \<or> length cmd < 6 then Fail ()
     else obind (slice_from cmd 6) (\<lambda>ident.
          obind (index_at cmd 5) (\<lambda>flags.
          obind (index_at cmd 4) (\<lambda>op.
            case peerRoles flags of (voter, witness) \<Rightarrow>
              Ok (op, \<lparr>pc_ID = ident, pc_Voter = voter, pc_Witness = witness\<rparr>)))))"

section \<open>Peer lists\<close>

definition encodePeer :: "PeerConfig \<Rightarrow> bytes" where
  "encodePeer p = be_bytes 2 (length (pc_ID p)) @ [peerFlags p] @ pc_ID p"

definition appendPeerList :: "bytes \<Rightarrow> PeerConfig list \<Rightarrow> bytes" where
  "appendPeerList b ps = b @ be_bytes 4 (length ps) @ concat (map encodePeer ps)"

text \<open>One iteration of the loop of \<open>decodePeerList\<close>.\<close>

definition decodePeer :: "bytes \<Rightarrow> (unit, PeerConfig \<times> bytes) outcome" where
  "decodePeer buf =
    (if length buf < 3 then Fail ()
     else obind (get_be 2 buf) (\<lambda>idLen.
          obind (slice_from buf 2) (\<lambda>buf.
          obind (index_at buf 0) (\<lambda>flags.
          obind (slice_from buf 1) (\<lambda>buf.
            if length buf < idLen then Fail ()
            else obind (slice_to buf idLen) (\<lambda>ident.
                 obind (slice_from buf idLen) (\<lambda>rest.
                   case peerRoles flags of (voter, witness) \<Rightarrow>
                     Ok (\<lparr>pc_ID = ident, pc_Voter = voter, pc_Witness = witness\<rparr>, rest))))))))"

fun decodePeers :: "nat \<Rightarrow> bytes \<Rightarrow> PeerConfig list \<Rightarrow> (unit, PeerConfig list \<times> bytes) outcome" where
  "decodePeers 0 buf peers = Ok (peers, buf)"
| "decodePeers (Suc n) buf peers =
    obind (decodePeer buf) (\<lambda>(p, rest). decodePeers n rest (peers @ [p]))"

text \<open>The capacity that the code reserves for the announced number of peers is not modelled: the
  count is a field of the input and is not checked against its length before the allocation, so
  that a malformed list can exhaust the memory where the model answers \<open>Fail\<close>.\<close>

definition decodePeerList :: "bytes \<Rightarrow> (unit, PeerConfig list \<times> bytes) outcome" where
  "decodePeerList buf =
    (if length buf < 4 then Fail ()
     else obind (get_be 4 buf) (\<lambda>n. obind (slice_from buf 4) (\<lambda>buf. decodePeers n buf [])))"

definition encodePeerLists :: "byte \<Rightarrow> PeerConfig list list \<Rightarrow> bytes" where
  "encodePeerLists op pls = foldl appendPeerList (configMagic @ [op]) pls"

definition encodeJointConfigEntry :: "PeerConfig list \<Rightarrow> PeerConfig list \<Rightarrow> bytes" where
  "encodeJointConfigEntry oldPeers newPeers = encodePeerLists configOpJoint [oldPeers, newPeers]"

definition decodeJointConfigEntry :: "bytes \<Rightarrow> (unit, PeerConfig list \<times> PeerConfig list) outcome" where
  "decodeJointConfigEntry cmd =
    (if \<not> isConfigEntry cmd then Fail ()
     else obind (index_at cmd 4) (\<lambda>op. if op \<noteq> configOpJoint then Fail ()
       else obind (slice_from cmd 5) (\<lambda>buf.
            obind (decodePeerList buf) (\<lambda>(old, rest).
            obind (decodePeerList rest) (\<lambda>(new, _). Ok (old, new))))))"

definition encodeFinaliseConfigEntry :: "PeerConfig list \<Rightarrow> bytes" where
  "encodeFinaliseConfigEntry newPeers = encodePeerLists configOpFinalise [newPeers]"

definition decodeFinaliseConfigEntry :: "bytes \<Rightarrow> (unit, PeerConfig list) outcome" where
  "decodeFinaliseConfigEntry cmd =
    (if \<not> isConfigEntry cmd then Fail ()
     else obind (index_at cmd 4) (\<lambda>op. if op \<noteq> configOpFinalise then Fail ()
       else obind (slice_from cmd 5) (\<lambda>buf.
            obind (decodePeerList buf) (\<lambda>(members, _). Ok members))))"

section \<open>Group-wide numbers\<close>

definition encodeCommitQuorumEntry :: "int \<Rightarrow> bytes" where
  "encodeCommitQuorumEntry quorum = configMagic @ [configOpCommitQuorum] @ be_bytes 8 (u64_of_int quorum)"

definition decodeCommitQuorumEntry :: "bytes \<Rightarrow> (unit, int) outcome" where
  "decodeCommitQuorumEntry cmd =
    (if \<not> isConfigEntry cmd then Fail ()
     else obind (index_at cmd 4) (\<lambda>op. if op \<noteq> configOpCommitQuorum \<or> length cmd < 13 then Fail ()
       else obind (slice_range cmd 5 13) (\<lambda>buf. obind (get_be 8 buf) (\<lambda>v.
            if maxInt < int v then Fail () else Ok (int v)))))"

definition encodeClientTableCapEntry :: "int \<Rightarrow> bytes" where
  "encodeClientTableCapEntry capacity = configMagic @ [configOpClientTableCap] @ be_bytes 8 (u64_of_int capacity)"

definition decodeClientTableCapEntry :: "bytes \<Rightarrow> (unit, int) outcome" where
  "decodeClientTableCapEntry cmd =
    (if \<not> isConfigEntry cmd then Fail ()
     else obind (index_at cmd 4) (\<lambda>op. if op \<noteq> configOpClientTableCap \<or> length cmd < 13 then Fail ()
       else obind (slice_range cmd 5 13) (\<lambda>buf. obind (get_be 8 buf) (\<lambda>v.
            if maxInt < int v then Fail () else Ok (int v)))))"

section \<open>The membership section of a snapshot\<close>

definition membershipKindSimple :: byte where "membershipKindSimple = 0"
definition membershipKindJoint :: byte where "membershipKindJoint = 1"

record membershipState =
  ms_joint :: bool
  ms_members :: "PeerConfig list"
  ms_old :: "PeerConfig list"
  ms_new :: "PeerConfig list"
  ms_commitQuorum :: int

definition no_membership :: membershipState where
  "no_membership = \<lparr>ms_joint = False, ms_members = [], ms_old = [], ms_new = [], ms_commitQuorum = 0\<rparr>"

definition encodeMembership :: "membershipState \<Rightarrow> bytes" where
  "encodeMembership ms =
    (if ms_joint ms
     then appendPeerList (appendPeerList [membershipKindJoint] (ms_old ms)) (ms_new ms)
     else appendPeerList [membershipKindSimple] (ms_members ms))
    @ be_bytes 8 (u64_of_int (ms_commitQuorum ms))"

text \<open>The tail of \<open>decodeMembership\<close>, after the peer lists.\<close>

definition decodeMembershipQuorum :: "membershipState \<Rightarrow> bytes \<Rightarrow> (unit, membershipState) outcome" where
  "decodeMembershipQuorum ms rest =
    (if 8 \<le> length rest
     then obind (get_be 8 rest) (\<lambda>v.
       if maxInt < int v then Fail () else Ok (ms\<lparr>ms_commitQuorum := int v\<rparr>))
     else Ok ms)"

definition decodeMembership :: "bytes \<Rightarrow> (unit, membershipState) outcome" where
  "decodeMembership buf =
    (if length buf < 1 then Fail ()
     else obind (index_at buf 0) (\<lambda>kind. obind (slice_from buf 1) (\<lambda>body.
       if kind = membershipKindSimple
       then obind (decodePeerList body) (\<lambda>(members, r).
            decodeMembershipQuorum (no_membership\<lparr>ms_members := members\<rparr>) r)
       else if kind = membershipKindJoint
       then obind (decodePeerList body) (\<lambda>(old, r).
            obind (decodePeerList r) (\<lambda>(new, r).
            decodeMembershipQuorum (no_membership\<lparr>ms_joint := True, ms_old := old, ms_new := new\<rparr>) r))
       else Fail ())))"

section \<open>Roles of a peer\<close>

lemma peerRoles_peerFlags [codec_simps]: "peerRoles (peerFlags p) = (pc_Voter p, pc_Witness p)"
  by (simp add: peerRoles_def peerFlags_def Let_def peerFlagVoter_def peerFlagWitness_def)

section \<open>Recognising a configuration entry\<close>

lemma isConfigEntry_iff: "isConfigEntry cmd \<longleftrightarrow> (\<exists>op body. cmd = configMagic @ op # body)"
proof
  assume "isConfigEntry cmd"
  then obtain a b c d op body where "cmd = a # b # c # d # op # body"
    by (auto simp: isConfigEntry_def Suc_le_length_iff numeral_eq_Suc)
  then show "\<exists>op body. cmd = configMagic @ op # body"
    using \<open>isConfigEntry cmd\<close> by (auto simp: isConfigEntry_def configMagic_def)
qed (auto simp: isConfigEntry_def configMagic_def)

lemma isConfigEntry_magic [simp]: "isConfigEntry (configMagic @ op # body)"
  by (auto simp: isConfigEntry_iff)

lemma length_configMagic [simp]: "length configMagic = 4"
  by (simp add: configMagic_def)

lemma magic_nth4 [simp]: "(configMagic @ op # body) ! 4 = op"
  by (simp add: nth_append)

lemma magic_drop5 [simp]: "drop 5 (configMagic @ op # body) = body"
  by simp

section \<open>Round trips\<close>

definition peer_ok :: "PeerConfig \<Rightarrow> bool" where
  "peer_ok p \<longleftrightarrow> length (pc_ID p) < 2 ^ 16"

definition peers_ok :: "PeerConfig list \<Rightarrow> bool" where
  "peers_ok ps \<longleftrightarrow> list_all peer_ok ps \<and> length ps < 2 ^ 32"

lemma peer_roundtrip: "peer_ok p \<Longrightarrow> decodePeer (encodePeer p @ r) = Ok (p, r)"
  by (simp add: decodePeer_def encodePeer_def get_be_append slice_from_append slice_from_def
      slice_to_def index_at_def peerRoles_peerFlags peer_ok_def)

lemma decodePeer_no_panic: "decodePeer buf \<noteq> Panic"
  by (auto simp: decodePeer_def obind_eq_Panic split: prod.splits if_splits)

text \<open>\<open>decodePeers\<close> does not number its elements, so the element number of the
  contract is ignored.\<close>

interpretation peers: counted_codec encodePeer "\<lambda>_. decodePeer" "\<lambda>_. decodePeers" peer_ok
  by unfold_locales (simp_all add: peer_roundtrip decodePeer_no_panic)

lemma peer_list_roundtrip [codec_simps]:
  "peers_ok ps \<Longrightarrow> decodePeerList (be_bytes 4 (length ps) @ concat (map encodePeer ps) @ r) = Ok (ps, r)"
  using peers.loop_roundtrip [where xs = ps and r = r and acc = "[]"]
  by (simp add: decodePeerList_def peers_ok_def get_be_append slice_from_append)

lemma decodePeerList_no_panic: "decodePeerList buf \<noteq> Panic"
  by (auto simp: decodePeerList_def obind_eq_Panic peers.loop_no_panic)

lemma config_entry_roundtrip:
  "decodeConfigEntry (encodeConfigEntry op p) = Ok (op, p)"
  by (simp add: decodeConfigEntry_def encodeConfigEntry_def slice_from_def index_at_def
      nth_append peerRoles_peerFlags)

lemma joint_entry_roundtrip:
  "peers_ok old \<Longrightarrow> peers_ok new \<Longrightarrow>
    decodeJointConfigEntry (encodeJointConfigEntry old new) = Ok (old, new)"
  using peer_list_roundtrip [of new "[]"]
  by (simp add: decodeJointConfigEntry_def encodeJointConfigEntry_def encodePeerLists_def
      appendPeerList_def index_at_def slice_from_def peer_list_roundtrip)

lemma finalise_entry_roundtrip:
  "peers_ok ps \<Longrightarrow> decodeFinaliseConfigEntry (encodeFinaliseConfigEntry ps) = Ok ps"
  using peer_list_roundtrip [of ps "[]"]
  by (simp add: decodeFinaliseConfigEntry_def encodeFinaliseConfigEntry_def encodePeerLists_def
      appendPeerList_def index_at_def slice_from_def)

lemma int_u64_mod: "int (u64_of_int i mod 256 ^ 8) = int (u64_of_int i)"
  using u64_of_int_less [of i] by simp

lemma commit_quorum_entry_roundtrip:
  "0 \<le> q \<Longrightarrow> q \<le> maxInt \<Longrightarrow> decodeCommitQuorumEntry (encodeCommitQuorumEntry q) = Ok q"
  using u64_of_int_less [of q]
  by (simp add: decodeCommitQuorumEntry_def encodeCommitQuorumEntry_def index_at_def
      slice_range_def get_be_def be_nat_be_bytes u64_of_int_id)

lemma client_table_cap_entry_roundtrip:
  "0 \<le> c \<Longrightarrow> c \<le> maxInt \<Longrightarrow> decodeClientTableCapEntry (encodeClientTableCapEntry c) = Ok c"
  using u64_of_int_less [of c]
  by (simp add: decodeClientTableCapEntry_def encodeClientTableCapEntry_def index_at_def
      slice_range_def get_be_def be_nat_be_bytes u64_of_int_id)

definition membership_ok :: "membershipState \<Rightarrow> bool" where
  "membership_ok ms \<longleftrightarrow> 0 \<le> ms_commitQuorum ms \<and> ms_commitQuorum ms \<le> maxInt \<and>
    (if ms_joint ms then ms_members ms = [] \<and> peers_ok (ms_old ms) \<and> peers_ok (ms_new ms)
     else ms_old ms = [] \<and> ms_new ms = [] \<and> peers_ok (ms_members ms))"

lemma decodeMembership_lists:
  assumes "membership_ok ms"
  shows "decodeMembership ((if ms_joint ms
     then appendPeerList (appendPeerList [membershipKindJoint] (ms_old ms)) (ms_new ms)
     else appendPeerList [membershipKindSimple] (ms_members ms)) @ tail)
    = decodeMembershipQuorum (ms\<lparr>ms_commitQuorum := 0\<rparr>) tail"
  using assms
  by (cases ms; cases "ms_joint ms") (simp_all add: decodeMembership_def appendPeerList_def index_at_def slice_from_def
      peer_list_roundtrip membership_ok_def no_membership_def membershipKindSimple_def
      membershipKindJoint_def)

lemma membership_roundtrip:
  assumes "membership_ok ms"
  shows "decodeMembership (encodeMembership ms) = Ok ms"
proof -
  have "decodeMembershipQuorum (ms\<lparr>ms_commitQuorum := 0\<rparr>)
      (be_bytes 8 (u64_of_int (ms_commitQuorum ms))) = Ok ms"
    using assms u64_of_int_less [of "ms_commitQuorum ms"]
    by (simp add: decodeMembershipQuorum_def get_be_def be_nat_be_bytes u64_of_int_id membership_ok_def)
  then show ?thesis
    unfolding encodeMembership_def decodeMembership_lists [OF assms] .
qed

text \<open>A snapshot of a build that did not write the quorum reads as a majority.\<close>

lemma membership_without_quorum:
  assumes "membership_ok ms"
  shows "decodeMembership (take (length (encodeMembership ms) - 8) (encodeMembership ms))
    = Ok (ms\<lparr>ms_commitQuorum := 0\<rparr>)"
  using decodeMembership_lists [OF assms, of "[]"]
  by (simp add: encodeMembership_def decodeMembershipQuorum_def)

section \<open>No input makes a decoder panic\<close>

lemma decodeConfigEntry_no_panic: "decodeConfigEntry cmd \<noteq> Panic"
  by (auto simp: decodeConfigEntry_def obind_eq_Panic split: prod.splits)

lemma isConfigEntry_length: "isConfigEntry cmd \<Longrightarrow> 5 \<le> length cmd"
  by (simp add: isConfigEntry_def)

lemma decodeJointConfigEntry_no_panic: "decodeJointConfigEntry cmd \<noteq> Panic"
  by (auto simp: decodeJointConfigEntry_def obind_eq_Panic decodePeerList_no_panic
      dest: isConfigEntry_length split: prod.splits if_splits)

lemma decodeFinaliseConfigEntry_no_panic: "decodeFinaliseConfigEntry cmd \<noteq> Panic"
  by (auto simp: decodeFinaliseConfigEntry_def obind_eq_Panic decodePeerList_no_panic
      dest: isConfigEntry_length split: prod.splits if_splits)

lemma decodeCommitQuorumEntry_no_panic: "decodeCommitQuorumEntry cmd \<noteq> Panic"
  by (auto simp: decodeCommitQuorumEntry_def obind_eq_Panic slice_range_def
      dest: isConfigEntry_length split: if_splits)

lemma decodeClientTableCapEntry_no_panic: "decodeClientTableCapEntry cmd \<noteq> Panic"
  by (auto simp: decodeClientTableCapEntry_def obind_eq_Panic slice_range_def
      dest: isConfigEntry_length split: if_splits)

lemma decodeMembership_no_panic: "decodeMembership buf \<noteq> Panic"
  by (auto simp: decodeMembership_def decodeMembershipQuorum_def obind_eq_Panic
      decodePeerList_no_panic split: prod.splits if_splits)

lemmas config_no_panic = decodeConfigEntry_no_panic decodeJointConfigEntry_no_panic
  decodeFinaliseConfigEntry_no_panic decodeCommitQuorumEntry_no_panic
  decodeClientTableCapEntry_no_panic decodeMembership_no_panic

section \<open>Entry kinds exclude each other\<close>

lemma decodeCommitQuorumEntry_Ok: "decodeCommitQuorumEntry cmd = Ok q \<Longrightarrow>
    \<exists>body. cmd = configMagic @ configOpCommitQuorum # body \<and> 0 \<le> q \<and> q \<le> maxInt"
  by (auto simp: decodeCommitQuorumEntry_def isConfigEntry_iff obind_eq_Ok split: if_splits)

lemma decodeClientTableCapEntry_Ok: "decodeClientTableCapEntry cmd = Ok q \<Longrightarrow>
    \<exists>body. cmd = configMagic @ configOpClientTableCap # body \<and> 0 \<le> q \<and> q \<le> maxInt"
  by (auto simp: decodeClientTableCapEntry_def isConfigEntry_iff obind_eq_Ok split: if_splits)

lemma decodeJointConfigEntry_Ok: "decodeJointConfigEntry cmd = Ok r \<Longrightarrow>
    \<exists>body. cmd = configMagic @ configOpJoint # body"
  by (auto simp: decodeJointConfigEntry_def isConfigEntry_iff obind_eq_Ok split: if_splits)

lemma decodeFinaliseConfigEntry_Ok: "decodeFinaliseConfigEntry cmd = Ok r \<Longrightarrow>
    \<exists>body. cmd = configMagic @ configOpFinalise # body"
  by (auto simp: decodeFinaliseConfigEntry_def isConfigEntry_iff obind_eq_Ok split: if_splits)

end
