(* ===== verification/Client_Dedup.thy ===== *)
theory Client_Dedup
  imports Types
begin

text \<open>
  The exactly-once client table of \<open>client_dedup.go\<close> and the encoding of a
  \<open>ProposeOnce\<close> command.  The table is a \<open>container/list\<close> of items with a map
  from client to list element; an element is an address here, so that the map and
  the list can disagree unless the invariant \<open>lru_ok\<close> rules it out.

  The contract of the table is the locale \<open>recency_table\<close>: a list of records
  ordered most recently written first, with the operations of \<open>spec_put\<close>,
  \<open>spec_cap\<close> and \<open>spec_load\<close>.  It is what makes replicas agree on evictions.
\<close>

section \<open>The table\<close>

record clientEntry =
  ce_seqNum :: nat
  ce_result :: bytes

record lruItem =
  li_id :: NodeID
  li_ce :: clientEntry

text \<open>\<open>lru_next\<close> is the address the next list element gets.\<close>

record clientLRU =
  lru_l :: "(nat \<times> lruItem) list"
  lru_m :: "NodeID \<rightharpoonup> nat"
  lru_cap :: int
  lru_next :: nat

type_synonym clientRecord = "NodeID \<times> clientEntry"

definition newClientLRU :: "int \<Rightarrow> clientLRU" where
  "newClientLRU maxSize = \<lparr>lru_l = [], lru_m = Map.empty, lru_cap = maxSize, lru_next = 0\<rparr>"

definition lru_get :: "clientLRU \<Rightarrow> NodeID \<Rightarrow> clientEntry option" where
  "lru_get c ident =
    (case lru_m c ident of None \<Rightarrow> None | Some e \<Rightarrow> map_option li_ce (map_of (lru_l c) e))"

definition lru_len :: "clientLRU \<Rightarrow> int" where
  "lru_len c = int (length (lru_l c))"

text \<open>Assignment through an element pointer, and \<open>MoveToFront\<close>.\<close>

definition set_elem_ce :: "nat \<Rightarrow> clientEntry \<Rightarrow> (nat \<times> lruItem) list \<Rightarrow> (nat \<times> lruItem) list" where
  "set_elem_ce e ce l = map (\<lambda>(a, it). (a, if a = e then it\<lparr>li_ce := ce\<rparr> else it)) l"

definition move_to_front :: "nat \<Rightarrow> (nat \<times> lruItem) list \<Rightarrow> (nat \<times> lruItem) list" where
  "move_to_front e l = filter (\<lambda>x. fst x = e) l @ filter (\<lambda>x. fst x \<noteq> e) l"

definition lru_remove_back :: "clientLRU \<Rightarrow> clientLRU \<times> NodeID" where
  "lru_remove_back c =
    (let item = snd (last (lru_l c))
     in (c\<lparr>lru_l := butlast (lru_l c), lru_m := (lru_m c)(li_id item := None)\<rparr>, li_id item))"

definition lru_put :: "clientLRU \<Rightarrow> NodeID \<Rightarrow> clientEntry \<Rightarrow> clientLRU \<times> NodeID option" where
  "lru_put c ident ce =
    (case lru_m c ident of
       Some e \<Rightarrow> (c\<lparr>lru_l := move_to_front e (set_elem_ce e ce (lru_l c))\<rparr>, None)
     | None \<Rightarrow>
         let elem = lru_next c;
             c = c\<lparr>lru_l := (elem, \<lparr>li_id = ident, li_ce = ce\<rparr>) # lru_l c,
                   lru_m := (lru_m c)(ident \<mapsto> elem), lru_next := Suc elem\<rparr>
         in if 0 < lru_cap c \<and> lru_cap c < lru_len c
            then if lru_l c \<noteq> []
                 then case lru_remove_back c of (c, gone) \<Rightarrow> (c, Some gone)
                 else (c, None)
            else (c, None))"

function lru_evict :: "clientLRU \<Rightarrow> NodeID list \<Rightarrow> clientLRU \<times> NodeID list" where
  "lru_evict c evicted =
    (if 0 < lru_cap c \<and> lru_cap c < lru_len c
     then case lru_remove_back c of (c, gone) \<Rightarrow> lru_evict c (evicted @ [gone])
     else (c, evicted))"
  by pat_completeness auto
termination
  by (relation "measure (\<lambda>(c, _). length (lru_l c))")
    (auto simp: lru_len_def lru_remove_back_def Let_def)

declare lru_evict.simps [simp del]

definition lru_setCap :: "clientLRU \<Rightarrow> int \<Rightarrow> clientLRU \<times> NodeID list" where
  "lru_setCap c capacity = lru_evict (c\<lparr>lru_cap := capacity\<rparr>) []"

definition lru_records :: "clientLRU \<Rightarrow> clientRecord list" where
  "lru_records c = map (\<lambda>(_, item). (li_id item, li_ce item)) (lru_l c)"

fun lru_load :: "clientLRU \<Rightarrow> clientRecord list \<Rightarrow> clientLRU" where
  "lru_load c [] = c"
| "lru_load c (r # rs) =
    (if 0 < lru_cap c \<and> lru_cap c \<le> lru_len c then c
     else if fst r \<in> dom (lru_m c) then lru_load c rs
     else lru_load (c\<lparr>lru_l := lru_l c @ [(lru_next c, \<lparr>li_id = fst r, li_ce = snd r\<rparr>)],
                      lru_m := (lru_m c)(fst r \<mapsto> lru_next c),
                      lru_next := Suc (lru_next c)\<rparr>) rs)"

definition lru_loadFrom :: "clientLRU \<Rightarrow> clientRecord list \<Rightarrow> clientLRU" where
  "lru_loadFrom c rs = lru_load (c\<lparr>lru_l := [], lru_m := Map.empty\<rparr>) rs"

section \<open>Commands that carry a client and a sequence number\<close>

definition dedupMagic :: bytes where "dedupMagic = [0x00, 0x52, 0x61, 0x44]"

definition isDedupCmd :: "bytes \<Rightarrow> bool" where
  "isDedupCmd cmd \<longleftrightarrow> 4 \<le> length cmd \<and>
    cmd ! 0 = dedupMagic ! 0 \<and> cmd ! 1 = dedupMagic ! 1 \<and>
    cmd ! 2 = dedupMagic ! 2 \<and> cmd ! 3 = dedupMagic ! 3"

definition encodeDedupCmd :: "NodeID \<Rightarrow> nat \<Rightarrow> bytes \<Rightarrow> bytes" where
  "encodeDedupCmd clientID seqNum payload =
    dedupMagic @ le_bytes 2 (length clientID) @ clientID @ le_bytes 8 seqNum @ payload"

datatype dedup_error = DedupTooShort nat | DedupTruncated

definition decodeDedupCmd :: "bytes \<Rightarrow> (dedup_error, NodeID \<times> nat \<times> bytes) outcome" where
  "decodeDedupCmd cmd =
    (if length cmd < 14 then Fail (DedupTooShort (length cmd))
     else obind (slice_from cmd 4) (\<lambda>b. obind (get_le 2 b) (\<lambda>idLen.
       if length cmd < 6 + idLen + 8 then Fail DedupTruncated
       else obind (slice_range cmd 6 (6 + idLen)) (\<lambda>clientID.
            obind (slice_from cmd (6 + idLen)) (\<lambda>b. obind (get_le 8 b) (\<lambda>seqNum.
            obind (slice_from cmd (6 + idLen + 8)) (\<lambda>payload.
              Ok (clientID, seqNum, payload))))))))"

section \<open>The contract of the table\<close>

definition spec_put :: "int \<Rightarrow> clientRecord list \<Rightarrow> NodeID \<Rightarrow> clientEntry
    \<Rightarrow> clientRecord list \<times> NodeID option" where
  "spec_put cap rs ident ce =
    (if ident \<in> fst ` set rs then ((ident, ce) # filter (\<lambda>r. fst r \<noteq> ident) rs, None)
     else let rs' = (ident, ce) # rs
          in if 0 < cap \<and> cap < int (length rs') then (butlast rs', Some (fst (last rs')))
             else (rs', None))"

definition spec_cap :: "int \<Rightarrow> clientRecord list \<Rightarrow> clientRecord list \<times> NodeID list" where
  "spec_cap cap rs =
    (if 0 < cap then (take (nat cap) rs, rev (map fst (drop (nat cap) rs))) else (rs, []))"

fun spec_load :: "int \<Rightarrow> clientRecord list \<Rightarrow> clientRecord list \<Rightarrow> clientRecord list" where
  "spec_load cap acc [] = acc"
| "spec_load cap acc (r # rs) =
    (if 0 < cap \<and> cap \<le> int (length acc) then acc
     else if fst r \<in> fst ` set acc then spec_load cap acc rs
     else spec_load cap (acc @ [r]) rs)"

text \<open>What reaches a table in apply order.\<close>

datatype table_op = TPut NodeID clientEntry | TCap int

text \<open>A table fed a sequence of operations, with the clients it evicts in order.\<close>

fun table_step :: "('t \<Rightarrow> NodeID \<Rightarrow> clientEntry \<Rightarrow> 't \<times> NodeID option) \<Rightarrow> ('t \<Rightarrow> int \<Rightarrow> 't \<times> NodeID list)
    \<Rightarrow> 't \<Rightarrow> table_op \<Rightarrow> 't \<times> NodeID list" where
  "table_step put set_cap t (TPut i ce) =
    (case put t i ce of (t', ev) \<Rightarrow> (t', case ev of None \<Rightarrow> [] | Some e \<Rightarrow> [e]))"
| "table_step put set_cap t (TCap n) = set_cap t n"

fun table_steps :: "('t \<Rightarrow> NodeID \<Rightarrow> clientEntry \<Rightarrow> 't \<times> NodeID option) \<Rightarrow> ('t \<Rightarrow> int \<Rightarrow> 't \<times> NodeID list)
    \<Rightarrow> 't \<Rightarrow> table_op list \<Rightarrow> 't \<times> NodeID list" where
  "table_steps put set_cap t [] = (t, [])"
| "table_steps put set_cap t (op # ops) =
    (case table_step put set_cap t op of (t1, ev1) \<Rightarrow>
     case table_steps put set_cap t1 ops of (t2, ev2) \<Rightarrow> (t2, ev1 @ ev2))"

locale recency_table =
  fixes inv :: "'t \<Rightarrow> bool"
    and recs :: "'t \<Rightarrow> clientRecord list"
    and capac :: "'t \<Rightarrow> int"
    and get :: "'t \<Rightarrow> NodeID \<Rightarrow> clientEntry option"
    and put :: "'t \<Rightarrow> NodeID \<Rightarrow> clientEntry \<Rightarrow> 't \<times> NodeID option"
    and set_cap :: "'t \<Rightarrow> int \<Rightarrow> 't \<times> NodeID list"
    and load :: "'t \<Rightarrow> clientRecord list \<Rightarrow> 't"
  assumes get_spec: "inv t \<Longrightarrow> get t i = map_of (recs t) i"
    and put_spec: "inv t \<Longrightarrow> put t i ce = (t', ev) \<Longrightarrow>
      inv t' \<and> capac t' = capac t \<and> spec_put (capac t) (recs t) i ce = (recs t', ev)"
    and cap_spec: "inv t \<Longrightarrow> set_cap t n = (t', evs) \<Longrightarrow>
      inv t' \<and> capac t' = n \<and> spec_cap n (recs t) = (recs t', evs)"
    and load_spec: "inv t \<Longrightarrow>
      inv (load t rs) \<and> capac (load t rs) = capac t \<and> recs (load t rs) = spec_load (capac t) [] rs"
    and recs_distinct: "inv t \<Longrightarrow> distinct (map fst (recs t))"
    and recs_bounded: "inv t \<Longrightarrow> 0 < capac t \<Longrightarrow> int (length (recs t)) \<le> capac t"
begin

lemma step_agree:
  assumes "inv t" "inv u" "recs t = recs u" "capac t = capac u"
    and "table_step put set_cap t op = (t', ev)" "table_step put set_cap u op = (u', ev')"
  shows "inv t' \<and> inv u' \<and> recs t' = recs u' \<and> capac t' = capac u' \<and> ev = ev'"
proof (cases op)
  case (TPut i ce)
  obtain t1 e1 u1 e2 where *: "put t i ce = (t1, e1)" "put u i ce = (u1, e2)"
    by (metis surj_pair)
  show ?thesis
    using put_spec [OF assms(1) *(1)] put_spec [OF assms(2) *(2)] assms * TPut by auto
next
  case (TCap n)
  with assms have "set_cap t n = (t', ev)" "set_cap u n = (u', ev')" by simp_all
  then show ?thesis
    using cap_spec [OF assms(1)] cap_spec [OF assms(2)] assms(3) by fastforce
qed

lemma steps_agree:
  assumes "inv t" "inv u" "recs t = recs u" "capac t = capac u"
    and "table_steps put set_cap t ops = (t', ev)" "table_steps put set_cap u ops = (u', ev')"
  shows "recs t' = recs u' \<and> capac t' = capac u' \<and> ev = ev' \<and> (\<forall>i. get t' i = get u' i)"
  using assms
proof (induction ops arbitrary: t u t' u' ev ev')
  case Nil
  then show ?case by (simp add: get_spec)
next
  case (Cons op ops)
  obtain t1 a u1 b where *: "table_step put set_cap t op = (t1, a)" "table_step put set_cap u op = (u1, b)"
    by (metis surj_pair)
  from step_agree [OF Cons.prems(1-4) *] have s: "inv t1" "inv u1" "recs t1 = recs u1"
    "capac t1 = capac u1" "a = b" by simp_all
  obtain t2 c u2 d where **: "table_steps put set_cap t1 ops = (t2, c)" "table_steps put set_cap u1 ops = (u2, d)"
    by (metis surj_pair)
  have "recs t2 = recs u2 \<and> capac t2 = capac u2 \<and> c = d \<and> (\<forall>i. get t2 i = get u2 i)"
    using Cons.IH [OF s(1-4) **] .
  then show ?case using Cons.prems(5,6) * ** s(5) by auto
qed

lemma spec_load_all:
  "distinct (map fst (acc @ rs)) \<Longrightarrow> (0 < n \<Longrightarrow> int (length (acc @ rs)) \<le> n) \<Longrightarrow> spec_load n acc rs = acc @ rs"
  by (induction rs arbitrary: acc) auto

lemma load_recs:
  assumes "inv t" "inv u" "capac t = capac u"
  shows "recs (load t (recs u)) = recs u"
proof -
  have "recs (load t (recs u)) = spec_load (capac t) [] (recs u)"
    using load_spec [OF assms(1)] by simp
  also have "\<dots> = recs u"
    using spec_load_all [of "[]" "recs u" "capac t"] recs_distinct [OF assms(2)]
      recs_bounded [OF assms(2)] assms(3) by simp
  finally show ?thesis .
qed

end

section \<open>The table meets its contract\<close>

text \<open>The map and the list agree, every client has one element, and the bound
  holds.\<close>

definition lru_wf :: "clientLRU \<Rightarrow> bool" where
  "lru_wf c \<longleftrightarrow> distinct (map fst (lru_l c)) \<and> distinct (map (li_id \<circ> snd) (lru_l c)) \<and>
    (\<forall>(a, it) \<in> set (lru_l c). lru_m c (li_id it) = Some a \<and> a < lru_next c) \<and>
    dom (lru_m c) = (li_id \<circ> snd) ` set (lru_l c)"

definition lru_ok :: "clientLRU \<Rightarrow> bool" where
  "lru_ok c \<longleftrightarrow> lru_wf c \<and> (0 < lru_cap c \<longrightarrow> lru_len c \<le> lru_cap c)"

lemma lru_wf_elem: "lru_wf c \<Longrightarrow> (a, it) \<in> set (lru_l c) \<Longrightarrow> lru_m c (li_id it) = Some a \<and> a < lru_next c"
  by (auto simp: lru_wf_def)

lemma fst_records: "map fst (lru_records c) = map (li_id \<circ> snd) (lru_l c)"
  by (simp add: lru_records_def case_prod_beta)

lemma lru_wf_dom: "lru_wf c \<Longrightarrow> dom (lru_m c) = fst ` set (lru_records c)"
  using fst_records [of c] by (simp add: lru_wf_def comp_def flip: set_map)

lemma lru_wf_none: "lru_wf c \<Longrightarrow> lru_m c i = None \<longleftrightarrow> i \<notin> fst ` set (lru_records c)"
  using lru_wf_dom [of c] by auto

lemma lru_wf_lookup:
  assumes "lru_wf c" "lru_m c i = Some a"
  obtains it where "(a, it) \<in> set (lru_l c)" "li_id it = i"
proof -
  have "i \<in> (li_id \<circ> snd) ` set (lru_l c)"
    using assms by (auto simp: lru_wf_def)
  then obtain b it where "(b, it) \<in> set (lru_l c)" "li_id it = i" by auto
  with lru_wf_elem [OF assms(1) this(1)] assms(2) that show thesis by simp
qed

lemma lru_records_distinct: "lru_wf c \<Longrightarrow> distinct (map fst (lru_records c))"
  by (simp add: fst_records lru_wf_def)

lemma length_lru_records: "int (length (lru_records c)) = lru_len c"
  by (simp add: lru_records_def lru_len_def)

lemma lru_get_spec:
  assumes "lru_wf c"
  shows "lru_get c i = map_of (lru_records c) i"
proof (cases "lru_m c i")
  case None
  then show ?thesis
    using lru_wf_none [OF assms, of i] by (simp add: lru_get_def) (metis map_of_eq_None_iff)
next
  case (Some a)
  with assms obtain it where it: "(a, it) \<in> set (lru_l c)" "li_id it = i"
    by (rule lru_wf_lookup)
  then have "map_of (lru_l c) a = Some it"
    using assms by (intro map_of_is_SomeI) (simp_all add: lru_wf_def)
  moreover have "map_of (lru_records c) i = Some (li_ce it)"
    using it lru_records_distinct [OF assms]
    by (intro map_of_is_SomeI) (force simp: lru_records_def)+
  ultimately show ?thesis by (simp add: lru_get_def Some)
qed

lemma filter_fst_eq_single:
  "distinct (map fst l) \<Longrightarrow> (a, x) \<in> set l \<Longrightarrow> filter (\<lambda>y. fst y = a) l = [(a, x)]"
proof (induction l)
  case (Cons z l)
  then show ?case by (cases z) (force simp: filter_empty_conv)
qed simp

lemma lru_wf_same:
  assumes wf: "lru_wf c" and it: "(a, it) \<in> set (lru_l c)" and it': "(b, it') \<in> set (lru_l c)"
  shows "b = a \<longleftrightarrow> li_id it' = li_id it"
proof
  assume "b = a"
  moreover have "distinct (map fst (lru_l c))" using wf by (simp add: lru_wf_def)
  ultimately show "li_id it' = li_id it" using eq_key_imp_eq_value it it' by metis
next
  assume "li_id it' = li_id it"
  then show "b = a" using lru_wf_elem [OF wf it] lru_wf_elem [OF wf it'] by simp
qed

lemma put_existing_list:
  assumes wf: "lru_wf c" and it: "(e, it) \<in> set (lru_l c)" and i: "li_id it = i"
  shows "move_to_front e (set_elem_ce e ce (lru_l c))
    = (e, it\<lparr>li_ce := ce\<rparr>) # filter (\<lambda>x. li_id (snd x) \<noteq> i) (lru_l c)"
proof -
  have same: "fst x = e \<longleftrightarrow> li_id (snd x) = i" if "x \<in> set (lru_l c)" for x
    using lru_wf_same [OF wf it, of "fst x" "snd x"] that i by simp
  have f1: "filter (\<lambda>x. fst x = e) (set_elem_ce e ce (lru_l c)) = [(e, it\<lparr>li_ce := ce\<rparr>)]"
    using filter_fst_eq_single [OF _ it] wf
    by (simp add: set_elem_ce_def filter_map comp_def case_prod_beta lru_wf_def)
  have "filter (\<lambda>x. fst x \<noteq> e) (set_elem_ce e ce (lru_l c)) = filter (\<lambda>x. fst x \<noteq> e) (lru_l c)"
    by (simp add: set_elem_ce_def filter_map comp_def case_prod_beta) (rule map_idI, auto)
  also have "\<dots> = filter (\<lambda>x. li_id (snd x) \<noteq> i) (lru_l c)"
    by (rule filter_cong) (simp_all add: same)
  finally show ?thesis by (simp add: move_to_front_def f1)
qed

lemma records_filter:
  "map (\<lambda>(_, item). (li_id item, li_ce item)) (filter (\<lambda>x. li_id (snd x) \<noteq> i) l)
    = filter (\<lambda>r. fst r \<noteq> i) (map (\<lambda>(_, item). (li_id item, li_ce item)) l)"
  by (simp add: filter_map comp_def case_prod_beta)

lemma lru_wf_relist:
  assumes "lru_wf c" "distinct (map fst l)" "distinct (map (li_id \<circ> snd) l)"
    and same: "(\<lambda>x. (fst x, li_id (snd x))) ` set l = (\<lambda>x. (fst x, li_id (snd x))) ` set (lru_l c)"
  shows "lru_wf (c\<lparr>lru_l := l\<rparr>)"
proof -
  have "(\<forall>x\<in>set l. lru_m c (li_id (snd x)) = Some (fst x) \<and> fst x < lru_next c)
    \<longleftrightarrow> (\<forall>x\<in>set (lru_l c). lru_m c (li_id (snd x)) = Some (fst x) \<and> fst x < lru_next c)"
    using arg_cong [OF same, of "\<lambda>S. \<forall>p\<in>S. lru_m c (snd p) = Some (fst p) \<and> fst p < lru_next c"] by simp
  moreover have "(li_id \<circ> snd) ` set l = (li_id \<circ> snd) ` set (lru_l c)"
    using arg_cong [OF same, of "image snd"] by (simp add: image_image)
  ultimately show ?thesis using assms(1-3) by (simp add: lru_wf_def case_prod_beta)
qed

lemma lru_put_existing:
  fixes ce :: clientEntry
  assumes wf: "lru_wf c" and m: "lru_m c i = Some e"
  defines "c' \<equiv> c\<lparr>lru_l := move_to_front e (set_elem_ce e ce (lru_l c))\<rparr>"
  shows "lru_wf c'" "lru_records c' = (i, ce) # filter (\<lambda>r. fst r \<noteq> i) (lru_records c)"
    "length (lru_l c') = length (lru_l c)"
proof -
  obtain it where it: "(e, it) \<in> set (lru_l c)" "li_id it = i"
    using wf m by (rule lru_wf_lookup)
  note l = put_existing_list [OF wf it, of ce]
  show "lru_records c' = (i, ce) # filter (\<lambda>r. fst r \<noteq> i) (lru_records c)"
    by (simp add: c'_def l lru_records_def it records_filter)
  have same: "li_id (snd x) = i \<longleftrightarrow> fst x = e" if "x \<in> set (lru_l c)" for x
    using lru_wf_same [OF wf it(1), of "fst x" "snd x"] that it(2) by simp
  have dl: "distinct (map fst (lru_l c))" using wf by (simp add: lru_wf_def)
  have uniq: "x = (e, it)" if "x \<in> set (lru_l c)" "fst x = e" for x
    using eq_key_imp_eq_value [OF dl it(1), of "snd x"] that by (cases x) simp
  have split: "set (lru_l c) = insert (e, it) (set (filter (\<lambda>x. li_id (snd x) \<noteq> i) (lru_l c)))"
  proof (rule set_eqI)
    fix x
    show "x \<in> set (lru_l c) \<longleftrightarrow> x \<in> insert (e, it) (set (filter (\<lambda>x. li_id (snd x) \<noteq> i) (lru_l c)))"
      using it(1) same [of x] uniq [of x] by (cases "x \<in> set (lru_l c)") auto
  qed
  have d: "distinct (map fst (filter (\<lambda>x. li_id (snd x) \<noteq> i) (lru_l c)))"
    "distinct (map (li_id \<circ> snd) (filter (\<lambda>x. li_id (snd x) \<noteq> i) (lru_l c)))"
    using wf by (simp_all add: lru_wf_def distinct_map_filter)
  have notin: "e \<notin> fst ` set (filter (\<lambda>x. li_id (snd x) \<noteq> i) (lru_l c))"
    using same by auto
  show "lru_wf c'"
    unfolding c'_def l
  proof (rule lru_wf_relist [OF wf])
    show "distinct (map fst ((e, it\<lparr>li_ce := ce\<rparr>) # filter (\<lambda>x. li_id (snd x) \<noteq> i) (lru_l c)))"
      using d(1) notin by simp
    show "distinct (map (li_id \<circ> snd) ((e, it\<lparr>li_ce := ce\<rparr>) # filter (\<lambda>x. li_id (snd x) \<noteq> i) (lru_l c)))"
      using d(2) it(2) by auto
    show "(\<lambda>x. (fst x, li_id (snd x))) ` set ((e, it\<lparr>li_ce := ce\<rparr>) # filter (\<lambda>x. li_id (snd x) \<noteq> i) (lru_l c))
        = (\<lambda>x. (fst x, li_id (snd x))) ` set (lru_l c)"
      by (subst split) simp
  qed
  show "length (lru_l c') = length (lru_l c)"
    using filter_fst_eq_single [OF _ it(1)] wf sum_length_filter_compl [of "\<lambda>x. fst x = e" "lru_l c"]
    by (simp add: c'_def move_to_front_def set_elem_ce_def filter_map comp_def case_prod_beta lru_wf_def)
qed

lemma lru_push_front_wf:
  assumes "lru_wf c" "lru_m c i = None"
  shows "lru_wf (c\<lparr>lru_l := (lru_next c, \<lparr>li_id = i, li_ce = ce\<rparr>) # lru_l c,
    lru_m := (lru_m c)(i \<mapsto> lru_next c), lru_next := Suc (lru_next c)\<rparr>)"
proof -
  have "i \<notin> (li_id \<circ> snd) ` set (lru_l c)"
    using assms by (auto simp: lru_wf_def)
  moreover have "lru_next c \<notin> fst ` set (lru_l c)"
    using assms(1) by (force simp: lru_wf_def)
  ultimately show ?thesis using assms(1) unfolding lru_wf_def by (force simp: less_Suc_eq)
qed

lemma lru_push_back_wf:
  assumes "lru_wf c" "lru_m c i = None"
  shows "lru_wf (c\<lparr>lru_l := lru_l c @ [(lru_next c, \<lparr>li_id = i, li_ce = ce\<rparr>)],
    lru_m := (lru_m c)(i \<mapsto> lru_next c), lru_next := Suc (lru_next c)\<rparr>)"
proof -
  have "i \<notin> (li_id \<circ> snd) ` set (lru_l c)"
    using assms by (auto simp: lru_wf_def)
  moreover have "lru_next c \<notin> fst ` set (lru_l c)"
    using assms(1) by (force simp: lru_wf_def)
  ultimately show ?thesis using assms(1) unfolding lru_wf_def by (force simp: less_Suc_eq)
qed

lemma lru_remove_back_wf:
  assumes "lru_wf c" "lru_l c \<noteq> []" "lru_remove_back c = (c', gone)"
  shows "lru_wf c' \<and> lru_records c' = butlast (lru_records c) \<and> gone = fst (last (lru_records c))
    \<and> lru_cap c' = lru_cap c \<and> lru_len c' = lru_len c - 1"
proof -
  obtain l a it where l: "lru_l c = l @ [(a, it)]"
    using assms(2) by (metis append_butlast_last_id surj_pair)
  have c': "c' = c\<lparr>lru_l := l, lru_m := (lru_m c)(li_id it := None)\<rparr>"
    using assms(3) by (auto simp: lru_remove_back_def Let_def l)
  have fresh: "li_id it \<notin> (li_id \<circ> snd) ` set l"
    and wf: "distinct (map fst l)" "distinct (map (li_id \<circ> snd) l)"
      "\<forall>x \<in> set l. lru_m c (li_id (snd x)) = Some (fst x) \<and> fst x < lru_next c"
      "dom (lru_m c) = insert (li_id it) ((li_id \<circ> snd) ` set l)"
    using assms(1) by (simp_all add: lru_wf_def l case_prod_beta)
  have "dom ((lru_m c)(li_id it := None)) = (li_id \<circ> snd) ` set l"
    using wf(4) fresh by simp
  moreover have "\<forall>x \<in> set l. ((lru_m c)(li_id it := None)) (li_id (snd x)) = Some (fst x) \<and> fst x < lru_next c"
    using wf(3) fresh by (force simp: image_iff)
  ultimately have "lru_wf c'"
    using wf(1,2) by (simp add: lru_wf_def c' case_prod_beta)
  then show ?thesis
    using assms(3) by (auto simp: lru_remove_back_def Let_def l lru_records_def lru_len_def)
qed

lemma lru_put_spec:
  assumes "lru_ok c" "lru_put c i ce = (c', ev)"
  shows "lru_ok c' \<and> lru_cap c' = lru_cap c \<and> spec_put (lru_cap c) (lru_records c) i ce = (lru_records c', ev)"
proof (cases "lru_m c i")
  case (Some e)
  have wf: "lru_wf c" and b: "0 < lru_cap c \<longrightarrow> lru_len c \<le> lru_cap c" using assms(1) by (simp_all add: lru_ok_def)
  have "i \<in> fst ` set (lru_records c)" using lru_wf_dom [OF wf] Some by auto
  then show ?thesis
    using assms(2) lru_put_existing [OF wf Some, of ce] b
    by (auto simp: lru_put_def Some lru_ok_def spec_put_def lru_len_def)
next
  case None
  have wf: "lru_wf c" and b: "0 < lru_cap c \<longrightarrow> lru_len c \<le> lru_cap c" using assms(1) by (simp_all add: lru_ok_def)
  have new: "i \<notin> fst ` set (lru_records c)" using lru_wf_dom [OF wf] None by auto
  let ?c = "c\<lparr>lru_l := (lru_next c, \<lparr>li_id = i, li_ce = ce\<rparr>) # lru_l c,
    lru_m := (lru_m c)(i \<mapsto> lru_next c), lru_next := Suc (lru_next c)\<rparr>"
  note pf = lru_push_front_wf [OF wf None, of ce]
  have recs: "lru_records ?c = (i, ce) # lru_records c" by (simp add: lru_records_def)
  have len: "lru_len ?c = lru_len c + 1" by (simp add: lru_len_def)
  show ?thesis
  proof (cases "0 < lru_cap c \<and> lru_cap c < lru_len c + 1")
    case True
    then have r: "lru_remove_back ?c = (c', the ev)" "ev \<noteq> None"
      using assms(2) by (auto simp: lru_put_def None Let_def len split: prod.splits)
    then show ?thesis
      using lru_remove_back_wf [OF pf _ r(1)] True b new
      by (auto simp: lru_ok_def recs len spec_put_def Let_def length_lru_records)
  next
    case False
    then have "c' = ?c" "ev = None"
      using assms(2) by (auto simp: lru_put_def None Let_def len split: prod.splits)
    then show ?thesis
      using pf False b new by (auto simp: lru_ok_def recs len spec_put_def Let_def length_lru_records)
  qed
qed

lemma lru_evict_spec:
  "lru_wf c \<Longrightarrow> lru_evict c evs = (c', evs') \<Longrightarrow>
    lru_ok c' \<and> lru_cap c' = lru_cap c \<and> lru_records c' = fst (spec_cap (lru_cap c) (lru_records c))
    \<and> evs' = evs @ snd (spec_cap (lru_cap c) (lru_records c))"
proof (induction c evs arbitrary: c' evs' rule: lru_evict.induct)
  case (1 c evs)
  show ?case
  proof (cases "0 < lru_cap c \<and> lru_cap c < lru_len c")
    case True
    obtain c1 gone where r: "lru_remove_back c = (c1, gone)" by (metis surj_pair)
    have ne: "lru_l c \<noteq> []" using True by (auto simp: lru_len_def)
    note b = lru_remove_back_wf [OF "1.prems"(1) ne r]
    have ev: "lru_evict c1 (evs @ [gone]) = (c', evs')"
      using "1.prems"(2) True r by (simp add: lru_evict.simps [of c])
    obtain rs x where rs: "lru_records c = rs @ [x]"
      using ne by (cases "lru_records c" rule: rev_exhaust) (auto simp: lru_records_def)
    have "nat (lru_cap c) \<le> length rs" using True rs length_lru_records [of c] by (simp add: nat_le_iff)
    then show ?thesis
      using "1.IH" [OF True r [symmetric] _ ev] b True by (simp add: spec_cap_def rs)
  next
    case False
    then show ?thesis
      using "1.prems" length_lru_records [of c]
      by (auto simp: lru_evict.simps [of c] lru_ok_def spec_cap_def)
  qed
qed

lemma lru_load_spec:
  "lru_ok c \<Longrightarrow> lru_ok (lru_load c rs) \<and> lru_cap (lru_load c rs) = lru_cap c
    \<and> lru_records (lru_load c rs) = spec_load (lru_cap c) (lru_records c) rs"
proof (induction c rs rule: lru_load.induct)
  case (2 c r rs)
  have wf: "lru_wf c" using "2.prems" by (simp add: lru_ok_def)
  show ?case
  proof (cases "(0 < lru_cap c \<and> lru_cap c \<le> lru_len c) \<or> fst r \<in> dom (lru_m c)")
    case True
    then show ?thesis using "2.IH"(1) "2.prems" lru_wf_dom [OF wf] by (auto simp: length_lru_records)
  next
    case False
    let ?c = "c\<lparr>lru_l := lru_l c @ [(lru_next c, \<lparr>li_id = fst r, li_ce = snd r\<rparr>)],
      lru_m := (lru_m c)(fst r \<mapsto> lru_next c), lru_next := Suc (lru_next c)\<rparr>"
    have "lru_m c (fst r) = None" using False by auto
    then have "lru_ok ?c" using lru_push_back_wf [OF wf] False "2.prems" by (auto simp: lru_ok_def lru_len_def)
    moreover have "lru_records ?c = lru_records c @ [r]" by (simp add: lru_records_def)
    ultimately show ?thesis
      using "2.IH"(2) False lru_wf_dom [OF wf] by (auto simp: length_lru_records)
  qed
qed simp

lemma lru_ok_empty: "lru_ok (c\<lparr>lru_l := [], lru_m := Map.empty\<rparr>)"
  by (simp add: lru_ok_def lru_wf_def lru_len_def)

lemma lru_records_empty: "lru_records (c\<lparr>lru_l := [], lru_m := Map.empty\<rparr>) = []"
  by (simp add: lru_records_def)

lemma lru_cap_update [simp]:
  "lru_wf (c\<lparr>lru_cap := n\<rparr>) = lru_wf c" "lru_records (c\<lparr>lru_cap := n\<rparr>) = lru_records c"
  by (simp_all add: lru_wf_def lru_records_def)

lemma newClientLRU_ok: "lru_ok (newClientLRU n)"
  by (simp add: lru_ok_def lru_wf_def newClientLRU_def lru_len_def)

interpretation lru: recency_table lru_ok lru_records lru_cap lru_get lru_put lru_setCap lru_loadFrom
proof unfold_locales
  fix c :: clientLRU and i :: NodeID and ce c' ev n evs and rs :: "clientRecord list"
  assume ok: "lru_ok c"
  show "lru_get c i = map_of (lru_records c) i" "distinct (map fst (lru_records c))"
    using ok by (simp_all add: lru_ok_def lru_get_spec lru_records_distinct)
  show "lru_put c i ce = (c', ev) \<Longrightarrow> lru_ok c' \<and> lru_cap c' = lru_cap c
      \<and> spec_put (lru_cap c) (lru_records c) i ce = (lru_records c', ev)"
    using lru_put_spec [OF ok] .
  show "lru_setCap c n = (c', evs) \<Longrightarrow> lru_ok c' \<and> lru_cap c' = n
      \<and> spec_cap n (lru_records c) = (lru_records c', evs)"
    using lru_evict_spec [of "c\<lparr>lru_cap := n\<rparr>" "[]" c' evs] ok
    by (auto simp: lru_setCap_def lru_ok_def [of c])
  show "lru_ok (lru_loadFrom c rs) \<and> lru_cap (lru_loadFrom c rs) = lru_cap c
      \<and> lru_records (lru_loadFrom c rs) = spec_load (lru_cap c) [] rs"
    using lru_load_spec [of "c\<lparr>lru_l := [], lru_m := Map.empty\<rparr>" rs] lru_ok_empty [of c]
    by (simp add: lru_loadFrom_def lru_records_empty)
  show "0 < lru_cap c \<Longrightarrow> int (length (lru_records c)) \<le> lru_cap c"
    using ok by (simp add: length_lru_records lru_ok_def)
qed

section \<open>The command encoding\<close>

lemma length_dedupMagic [simp]: "length dedupMagic = 4"
  by (simp add: dedupMagic_def)

lemma dedup_roundtrip:
  assumes "length clientID < 2 ^ 16" "seqNum < 2 ^ 64"
  shows "decodeDedupCmd (encodeDedupCmd clientID seqNum payload) = Ok (clientID, seqNum, payload)"
  using assms
  by (simp add: decodeDedupCmd_def encodeDedupCmd_def slice_from_def slice_range_def get_le_append)

lemma encodeDedupCmd_recognised: "isDedupCmd (encodeDedupCmd clientID seqNum payload)"
  by (simp add: isDedupCmd_def encodeDedupCmd_def dedupMagic_def)

lemma decodeDedupCmd_no_panic: "decodeDedupCmd cmd \<noteq> Panic"
  by (auto simp: decodeDedupCmd_def obind_eq_Panic slice_range_def split: if_splits)

end
