(* ===== verification/Snapshot_Frame.thy ===== *)
theory Snapshot_Frame
  imports Config_Change Client_Dedup
begin

text \<open>
  The frame around a snapshot (\<open>client_dedup.go\<close>): client table, membership and
  limits before the state machine's own data, in the three layouts the reader
  accepts.  An \<open>io.Reader\<close> is the list of the bytes it still has to give; an
  \<open>io.Writer\<close> is an arbitrary state with a write function that may fail.
\<close>

section \<open>The client table\<close>

definition encodeClientRecord :: "clientRecord \<Rightarrow> bytes" where
  "encodeClientRecord r =
    le_bytes 2 (length (fst r)) @ fst r @ le_bytes 8 (ce_seqNum (snd r))
    @ le_bytes 4 (length (ce_result (snd r))) @ ce_result (snd r)"

definition encodeClientTable :: "clientRecord list \<Rightarrow> bytes" where
  "encodeClientTable table = le_bytes 4 (length table) @ concat (map encodeClientRecord table)"

datatype snap_error =
    TableTooShort
  | TruncatedIdLen nat
  | TruncatedIdSeqResLen nat
  | TruncatedResult nat
  | HeaderEmptyFile
  | HeaderShort
  | TableShort
  | MembershipShort
  | MembershipMalformed
  | LimitsShort
  | LimitsMalformed
  | LimitsOutOfRange

text \<open>One iteration of the loop of \<open>decodeClientTable\<close>, on entry \<open>i\<close>.\<close>

definition decodeClientRecord :: "nat \<Rightarrow> bytes \<Rightarrow> (snap_error, clientRecord \<times> bytes) outcome" where
  "decodeClientRecord i buf =
    (if length buf < 2 then Fail (TruncatedIdLen i)
     else obind (get_le 2 buf) (\<lambda>idLen. obind (slice_from buf 2) (\<lambda>buf.
       if length buf < idLen + 12 then Fail (TruncatedIdSeqResLen i)
       else obind (slice_to buf idLen) (\<lambda>ident. obind (slice_from buf idLen) (\<lambda>buf.
            obind (get_le 8 buf) (\<lambda>seqNum. obind (slice_from buf 8) (\<lambda>buf.
            obind (get_le 4 buf) (\<lambda>resLen. obind (slice_from buf 4) (\<lambda>buf.
              if length buf < resLen then Fail (TruncatedResult i)
              else obind (if 0 < resLen then slice_to buf resLen else Ok []) (\<lambda>result.
                   obind (slice_from buf resLen) (\<lambda>buf.
                     Ok ((ident, \<lparr>ce_seqNum = seqNum, ce_result = result\<rparr>), buf))))))))))))"

fun decodeClientRecords :: "nat \<Rightarrow> nat \<Rightarrow> bytes \<Rightarrow> clientRecord list
    \<Rightarrow> (snap_error, clientRecord list \<times> bytes) outcome" where
  "decodeClientRecords i 0 buf table = Ok (table, buf)"
| "decodeClientRecords i (Suc n) buf table =
    obind (decodeClientRecord i buf) (\<lambda>(r, buf). decodeClientRecords (Suc i) n buf (table @ [r]))"

definition decodeClientTable :: "bytes \<Rightarrow> (snap_error, clientRecord list) outcome" where
  "decodeClientTable buf =
    (if length buf < 4 then Fail TableTooShort
     else obind (get_le 4 buf) (\<lambda>n. obind (slice_from buf 4) (\<lambda>buf.
          obind (decodeClientRecords 0 n buf []) (\<lambda>(table, _). Ok table))))"

section \<open>Frames\<close>

definition snapFrameMagicV1 :: nat where "snapFrameMagicV1 = 0xCAFEDEADBEEFD00D"
definition snapFrameMagicV2 :: nat where "snapFrameMagicV2 = 0xCAFEDEADBEEFD00E"
definition snapFrameMagicV3 :: nat where "snapFrameMagicV3 = 0xCAFEDEADBEEFD00F"

record snapshotFrame =
  sf_table :: "clientRecord list"
  sf_membership :: membershipState
  sf_hasMembership :: bool
  sf_clientTableCap :: int
  sf_hasClientTableCap :: bool

definition empty_frame :: snapshotFrame where
  "empty_frame = \<lparr>sf_table = [], sf_membership = no_membership, sf_hasMembership = False,
    sf_clientTableCap = 0, sf_hasClientTableCap = False\<rparr>"

datatype 'e write_error = WriteHeader 'e | WriteTable 'e | WriteMembership 'e | WriteLimits 'e | WriteSM 'e

fun wrap_error :: "('e \<Rightarrow> 'f) \<Rightarrow> ('e, 'a) outcome \<Rightarrow> ('f, 'a) outcome" where
  "wrap_error w (Ok x) = Ok x"
| "wrap_error w (Fail e) = Fail (w e)"
| "wrap_error w Panic = Panic"

definition writeSnapshotFrame :: "('w \<Rightarrow> bytes \<Rightarrow> ('e, 'w) outcome) \<Rightarrow> 'w \<Rightarrow> snapshotFrame
    \<Rightarrow> ('w \<Rightarrow> ('e, 'w) outcome) \<Rightarrow> ('e write_error, 'w) outcome" where
  "writeSnapshotFrame wr w frame smSnapshot =
    (let tableBytes = encodeClientTable (sf_table frame);
         membershipBytes = encodeMembership (sf_membership frame);
         limitsBytes = (if sf_hasClientTableCap frame
                        then le_bytes 8 (u64_of_int (sf_clientTableCap frame)) else []);
         hdr = le_bytes 8 snapFrameMagicV3 @ le_bytes 4 (length tableBytes)
               @ le_bytes 4 (length membershipBytes) @ le_bytes 4 (length limitsBytes)
     in obind (wrap_error WriteHeader (wr w hdr)) (\<lambda>w.
        obind (wrap_error WriteTable (wr w tableBytes)) (\<lambda>w.
        obind (wrap_error WriteMembership (wr w membershipBytes)) (\<lambda>w.
        obind (wrap_error WriteLimits (wr w limitsBytes)) (\<lambda>w.
        wrap_error WriteSM (smSnapshot w))))))"

definition writeWrappedSnapshot :: "('w \<Rightarrow> bytes \<Rightarrow> ('e, 'w) outcome) \<Rightarrow> 'w \<Rightarrow> clientRecord list
    \<Rightarrow> membershipState \<Rightarrow> ('w \<Rightarrow> ('e, 'w) outcome) \<Rightarrow> ('e write_error, 'w) outcome" where
  "writeWrappedSnapshot wr w table ms smSnapshot =
    writeSnapshotFrame wr w (empty_frame\<lparr>sf_table := table, sf_membership := ms\<rparr>) smSnapshot"

text \<open>\<open>io.ReadFull\<close> into a buffer of \<open>n\<close> bytes, with the error to report when the
  reader is empty and when it ends early.\<close>

definition read_full :: "'e \<Rightarrow> 'e \<Rightarrow> nat \<Rightarrow> bytes \<Rightarrow> ('e, bytes \<times> bytes) outcome" where
  "read_full eof short n r =
    (if n \<le> length r then Ok (take n r, drop n r) else Fail (if r = [] then eof else short))"

definition read_len :: "bool \<Rightarrow> bytes \<Rightarrow> (snap_error, nat \<times> bytes) outcome" where
  "read_len present r =
    (if present
     then obind (read_full HeaderShort HeaderShort 4 r) (\<lambda>(h, r). obind (get_le 4 h) (\<lambda>n. Ok (n, r)))
     else Ok (0, r))"

definition read_membership :: "nat \<Rightarrow> snapshotFrame \<Rightarrow> bytes \<Rightarrow> (snap_error, snapshotFrame \<times> bytes) outcome" where
  "read_membership membershipLen frame r =
    (if 0 < membershipLen
     then obind (read_full MembershipShort MembershipShort membershipLen r) (\<lambda>(membershipBytes, r).
       case decodeMembership membershipBytes of
         Ok decoded \<Rightarrow> Ok (frame\<lparr>sf_membership := decoded, sf_hasMembership := True\<rparr>, r)
       | Fail _ \<Rightarrow> Fail MembershipMalformed
       | Panic \<Rightarrow> Panic)
     else Ok (frame, r))"

definition read_limits :: "nat \<Rightarrow> snapshotFrame \<Rightarrow> bytes \<Rightarrow> (snap_error, snapshotFrame \<times> bytes) outcome" where
  "read_limits limitsLen frame r =
    (if 0 < limitsLen
     then obind (read_full LimitsShort LimitsShort limitsLen r) (\<lambda>(limitsBytes, r).
       if length limitsBytes < 8 then Fail LimitsMalformed
       else obind (get_le 8 limitsBytes) (\<lambda>v.
         if maxInt < int v then Fail LimitsOutOfRange
         else Ok (frame\<lparr>sf_clientTableCap := int v, sf_hasClientTableCap := True\<rparr>, r)))
     else Ok (frame, r))"

definition readSnapshotFrame :: "bytes \<Rightarrow> (snap_error, snapshotFrame \<times> bytes) outcome" where
  "readSnapshotFrame r =
    obind (read_full HeaderEmptyFile HeaderShort 12 r) (\<lambda>(hdr, r).
    obind (slice_to hdr 8) (\<lambda>b. obind (get_le 8 b) (\<lambda>magic.
      if magic \<noteq> snapFrameMagicV1 \<and> magic \<noteq> snapFrameMagicV2 \<and> magic \<noteq> snapFrameMagicV3
      then Ok (empty_frame, hdr @ r)
      else obind (read_len (magic = snapFrameMagicV2 \<or> magic = snapFrameMagicV3) r) (\<lambda>(membershipLen, r).
           obind (read_len (magic = snapFrameMagicV3) r) (\<lambda>(limitsLen, r).
           obind (slice_range hdr 8 12) (\<lambda>b. obind (get_le 4 b) (\<lambda>tableLen.
           obind (read_full TableShort TableShort tableLen r) (\<lambda>(tableBytes, r).
           obind (decodeClientTable tableBytes) (\<lambda>table.
           obind (read_membership membershipLen (empty_frame\<lparr>sf_table := table\<rparr>) r) (\<lambda>(frame, r).
           read_limits limitsLen frame r))))))))))"

definition readWrappedSnapshot :: "bytes
    \<Rightarrow> (snap_error, clientRecord list \<times> membershipState \<times> bool \<times> bytes) outcome" where
  "readWrappedSnapshot r =
    obind (readSnapshotFrame r) (\<lambda>(frame, smData).
      Ok (sf_table frame, sf_membership frame, sf_hasMembership frame, smData))"

section \<open>The table round trip\<close>

definition record_ok :: "clientRecord \<Rightarrow> bool" where
  "record_ok r \<longleftrightarrow> length (fst r) < 2 ^ 16 \<and> ce_seqNum (snd r) < 2 ^ 64 \<and> length (ce_result (snd r)) < 2 ^ 32"

definition table_ok :: "clientRecord list \<Rightarrow> bool" where
  "table_ok rs \<longleftrightarrow> list_all record_ok rs \<and> length rs < 2 ^ 32"

lemma client_record_roundtrip:
  "record_ok r \<Longrightarrow> decodeClientRecord i (encodeClientRecord r @ rest) = Ok (r, rest)"
  by (cases r) (simp add: decodeClientRecord_def encodeClientRecord_def record_ok_def get_le_append
      slice_from_append slice_from_def slice_to_def)

lemma decodeClientRecord_no_panic: "decodeClientRecord i buf \<noteq> Panic"
  by (auto simp: decodeClientRecord_def obind_eq_Panic split: if_splits)

interpretation table: counted_codec encodeClientRecord decodeClientRecord decodeClientRecords record_ok
  by unfold_locales (simp_all add: client_record_roundtrip decodeClientRecord_no_panic)

lemma client_table_roundtrip:
  "table_ok rs \<Longrightarrow> decodeClientTable (encodeClientTable rs) = Ok rs"
  using table.loop_roundtrip [of rs 0 "[]" "[]"]
  by (simp add: decodeClientTable_def encodeClientTable_def table_ok_def get_le_append slice_from_append)

lemma decodeClientTable_no_panic: "decodeClientTable buf \<noteq> Panic"
  by (auto simp: decodeClientTable_def obind_eq_Panic table.loop_no_panic)

section \<open>The frame round trip\<close>

text \<open>The writer of a \<open>bytes.Buffer\<close> never fails.\<close>

definition buffer_write :: "bytes \<Rightarrow> bytes \<Rightarrow> ('e, bytes) outcome" where
  "buffer_write w b = Ok (w @ b)"

definition frame_ok :: "snapshotFrame \<Rightarrow> bool" where
  "frame_ok f \<longleftrightarrow> table_ok (sf_table f) \<and> membership_ok (sf_membership f)
    \<and> length (encodeClientTable (sf_table f)) < 2 ^ 32
    \<and> length (encodeMembership (sf_membership f)) < 2 ^ 32
    \<and> (sf_hasClientTableCap f \<longrightarrow> 0 \<le> sf_clientTableCap f \<and> sf_clientTableCap f \<le> maxInt)"

text \<open>What a reader gets of a frame: a cap that was not recorded reads as 0, and
  the membership is always present.\<close>

definition frame_read :: "snapshotFrame \<Rightarrow> snapshotFrame" where
  "frame_read f = f\<lparr>sf_hasMembership := True,
    sf_clientTableCap := (if sf_hasClientTableCap f then sf_clientTableCap f else 0)\<rparr>"

lemma read_full_append [codec_simps]: "length b = n \<Longrightarrow> read_full e s n (b @ r) = Ok (b, r)"
  by (simp add: read_full_def)

lemma read_full_no_panic [simp]: "read_full e s n r \<noteq> Panic"
  by (simp add: read_full_def)

lemma read_full_Ok: "read_full e s n r = Ok x \<longleftrightarrow> n \<le> length r \<and> x = (take n r, drop n r)"
  by (auto simp: read_full_def)

lemma read_len_append: "n < 2 ^ 32 \<Longrightarrow> read_len True (le_bytes 4 n @ r) = Ok (n, r)"
  by (simp add: read_len_def read_full_append get_le_def le_nat_le_bytes)

lemma encodeMembership_nonempty: "0 < length (encodeMembership ms)"
  by (simp add: encodeMembership_def)

lemma read_membership_append:
  assumes "membership_ok ms" "length (encodeMembership ms) = n"
  shows "read_membership n f (encodeMembership ms @ r)
    = Ok (f\<lparr>sf_membership := ms, sf_hasMembership := True\<rparr>, r)"
  using encodeMembership_nonempty [of ms] assms membership_roundtrip [OF assms(1)]
  by (simp add: read_membership_def read_full_append)

lemma read_limits_append:
  assumes "0 \<le> c" "c \<le> maxInt"
  shows "read_limits 8 f (le_bytes 8 (u64_of_int c) @ r)
    = Ok (f\<lparr>sf_clientTableCap := c, sf_hasClientTableCap := True\<rparr>, r)"
  using assms u64_of_int_less [of c]
  by (simp add: read_limits_def read_full_append get_le_def le_nat_le_bytes u64_of_int_id)

lemma magic_bounds: "snapFrameMagicV1 < 2 ^ 64" "snapFrameMagicV2 < 2 ^ 64" "snapFrameMagicV3 < 2 ^ 64"
  by (simp_all add: snapFrameMagicV1_def snapFrameMagicV2_def snapFrameMagicV3_def)

lemma magic_distinct: "snapFrameMagicV1 \<noteq> snapFrameMagicV2" "snapFrameMagicV1 \<noteq> snapFrameMagicV3"
  "snapFrameMagicV2 \<noteq> snapFrameMagicV3"
  by (simp_all add: snapFrameMagicV1_def snapFrameMagicV2_def snapFrameMagicV3_def)

text \<open>The common prefix of the three layouts.\<close>

lemma readSnapshotFrame_prefix:
  assumes "magic \<in> {snapFrameMagicV1, snapFrameMagicV2, snapFrameMagicV3}" "n < 2 ^ 32"
  shows "readSnapshotFrame (le_bytes 8 magic @ le_bytes 4 n @ r) =
    obind (read_len (magic = snapFrameMagicV2 \<or> magic = snapFrameMagicV3) r) (\<lambda>(membershipLen, r).
    obind (read_len (magic = snapFrameMagicV3) r) (\<lambda>(limitsLen, r).
    obind (read_full TableShort TableShort n r) (\<lambda>(tableBytes, r).
    obind (decodeClientTable tableBytes) (\<lambda>table.
    obind (read_membership membershipLen (empty_frame\<lparr>sf_table := table\<rparr>) r) (\<lambda>(frame, r).
    read_limits limitsLen frame r)))))"
proof -
  have "le_nat (le_bytes 8 magic) = magic" using assms(1) magic_bounds by (auto simp: le_nat_le_bytes)
  moreover have "le_nat (le_bytes 4 n) = n" using assms(2) by (simp add: le_nat_le_bytes)
  moreover have "read_full HeaderEmptyFile HeaderShort 12 (le_bytes 8 magic @ le_bytes 4 n @ r)
      = Ok (le_bytes 8 magic @ le_bytes 4 n, r)"
    using read_full_append [of "le_bytes 8 magic @ le_bytes 4 n" 12] by simp
  ultimately show ?thesis
    using assms(1) by (auto simp: readSnapshotFrame_def slice_to_def slice_range_def get_le_def)
qed

lemma frame_roundtrip:
  assumes ok: "frame_ok f" and sm: "\<And>w. smSnapshot w = Ok (w @ smData)"
  shows "\<exists>b. writeSnapshotFrame buffer_write [] f smSnapshot = Ok b
    \<and> readSnapshotFrame b = Ok (frame_read f, smData)"
proof -
  let ?t = "encodeClientTable (sf_table f)" and ?m = "encodeMembership (sf_membership f)"
  let ?l = "if sf_hasClientTableCap f then le_bytes 8 (u64_of_int (sf_clientTableCap f)) else []"
  let ?body = "le_bytes 4 (length ?m) @ le_bytes 4 (length ?l) @ ?t @ ?m @ ?l @ smData"
  have w: "writeSnapshotFrame buffer_write [] f smSnapshot
    = Ok (le_bytes 8 snapFrameMagicV3 @ le_bytes 4 (length ?t) @ ?body)"
    by (simp add: writeSnapshotFrame_def buffer_write_def sm Let_def)
  have lim: "read_limits (length ?l)
      (empty_frame\<lparr>sf_table := sf_table f, sf_membership := sf_membership f, sf_hasMembership := True\<rparr>)
      (?l @ smData) = Ok (frame_read f, smData)"
  proof (cases "sf_hasClientTableCap f")
    case True
    then show ?thesis using ok read_limits_append [of "sf_clientTableCap f"]
      by (cases f) (simp add: frame_ok_def frame_read_def empty_frame_def)
  next
    case False
    then show ?thesis by (cases f) (simp add: read_limits_def frame_read_def empty_frame_def)
  qed
  have "readSnapshotFrame (le_bytes 8 snapFrameMagicV3 @ le_bytes 4 (length ?t) @ ?body) = Ok (frame_read f, smData)"
    using ok lim
    by (simp add: readSnapshotFrame_prefix frame_ok_def read_len_append read_full_append
        client_table_roundtrip read_membership_append del: append_assoc if_split)
  then show ?thesis by (simp add: w)
qed

section \<open>Older layouts and foreign snapshots\<close>

lemma read_v1:
  assumes "table_ok t" "length (encodeClientTable t) < 2 ^ 32"
  shows "readSnapshotFrame (le_bytes 8 snapFrameMagicV1 @ le_bytes 4 (length (encodeClientTable t))
      @ encodeClientTable t @ smData) = Ok (empty_frame\<lparr>sf_table := t\<rparr>, smData)"
  using assms magic_distinct
  by (simp add: readSnapshotFrame_prefix read_len_def read_full_append client_table_roundtrip
      read_membership_def read_limits_def)

lemma read_v2:
  assumes "table_ok t" "length (encodeClientTable t) < 2 ^ 32"
    and "membership_ok ms" "length (encodeMembership ms) < 2 ^ 32"
  shows "readSnapshotFrame (le_bytes 8 snapFrameMagicV2 @ le_bytes 4 (length (encodeClientTable t))
      @ le_bytes 4 (length (encodeMembership ms)) @ encodeClientTable t @ encodeMembership ms @ smData)
    = Ok (empty_frame\<lparr>sf_table := t, sf_membership := ms, sf_hasMembership := True\<rparr>, smData)"
  using assms magic_distinct read_len_append
  by (simp add: readSnapshotFrame_prefix read_full_append client_table_roundtrip
      read_membership_append read_limits_def read_len_append read_len_def [of False])

lemma read_foreign:
  assumes "12 \<le> length r"
    and "le_nat (take 8 r) \<notin> {snapFrameMagicV1, snapFrameMagicV2, snapFrameMagicV3}"
  shows "readSnapshotFrame r = Ok (empty_frame, r)"
  using assms by (simp add: readSnapshotFrame_def read_full_def slice_to_def get_le_def)

lemma read_short: "length q < 12 \<Longrightarrow> readSnapshotFrame q = Fail (if q = [] then HeaderEmptyFile else HeaderShort)"
  by (simp add: readSnapshotFrame_def read_full_def)

section \<open>No input makes the reader panic\<close>

lemma read_len_no_panic [simp]: "read_len p r \<noteq> Panic"
  by (auto simp: read_len_def obind_eq_Panic read_full_Ok)

lemma read_membership_no_panic [simp]: "read_membership n f r \<noteq> Panic"
  by (auto simp: read_membership_def obind_eq_Panic decodeMembership_no_panic split: outcome.splits)

lemma read_limits_no_panic [simp]: "read_limits n f r \<noteq> Panic"
  by (auto simp: read_limits_def obind_eq_Panic split: if_splits)

lemma readSnapshotFrame_no_panic: "readSnapshotFrame r \<noteq> Panic"
proof (cases "12 \<le> length r")
  case False
  then show ?thesis by (simp add: readSnapshotFrame_def read_full_def)
next
  case True
  then show ?thesis
    by (auto simp: readSnapshotFrame_def read_full_Ok obind_eq_Panic slice_range_def
        decodeClientTable_no_panic split: prod.splits if_splits)
qed

end
