(* ===== verification/Raft_Log.thy ===== *)
theory Raft_Log
  imports Storage_Writer Snapshot_Frame
begin

text \<open>
  The in-memory overlay on the store (\<open>raft_log.go\<close>), one definition per method.
  The log holds the writer, and the writer holds the store: \<open>rl.storage\<close> and
  \<open>rl.w.storage\<close> are one object, as are \<open>n.writer\<close> and \<open>n.log.w\<close>.  Where a method
  walks a slice the walk is a recursive function on the list, in the direction of
  the source.
\<close>

section \<open>State\<close>

record termRun =
  tr_start :: Index
  tr_term :: Term

record unstableSeg =
  us_seq :: nat
  us_entries :: "LogEntry list"

record 'st raftLog =
  rl_w :: "'st storageWriter"
  rl_snapMeta :: SnapshotMeta
  rl_snapClientTable :: "clientRecord list"
  rl_snapMembership :: membershipState
  rl_hasSnapMembership :: bool
  rl_snapClientTableCap :: int
  rl_hasSnapClientTableCap :: bool
  rl_first :: Index
  rl_last :: Index
  rl_lastTerm :: Term
  rl_segs :: "unstableSeg list"
  rl_unstableBytes :: int
  rl_runs :: "termRun list"
  rl_durable :: Index
  rl_queuedDurable :: Index
  rl_nextSeq :: nat

definition rl_storage :: "'st raftLog \<Rightarrow> 'st" where
  "rl_storage rl = sw_storage (rl_w rl)"

definition snap_index :: "'st raftLog \<Rightarrow> Index" where
  "snap_index rl = sm_LastIncludedIndex (rl_snapMeta rl)"

definition snap_term :: "'st raftLog \<Rightarrow> Term" where
  "snap_term rl = sm_LastIncludedTerm (rl_snapMeta rl)"

section \<open>Term runs\<close>

fun extend_runs :: "termRun list \<Rightarrow> LogEntry list \<Rightarrow> termRun list" where
  "extend_runs runs [] = runs"
| "extend_runs runs (e # es) =
    extend_runs
      (if 0 < length runs \<and> tr_term (runs ! (length runs - 1)) = e_Term e then runs
       else runs @ [\<lparr>tr_start = e_Index e, tr_term = e_Term e\<rparr>]) es"

definition extendRuns :: "'st raftLog \<Rightarrow> LogEntry list \<Rightarrow> 'st raftLog" where
  "extendRuns rl es = rl\<lparr>rl_runs := extend_runs (rl_runs rl) es\<rparr>"

text \<open>The scan from position \<open>n - 1\<close> down.\<close>

fun run_scan :: "termRun list \<Rightarrow> Index \<Rightarrow> nat \<Rightarrow> nat option" where
  "run_scan runs i 0 = None"
| "run_scan runs i (Suc n) = (if tr_start (runs ! n) \<le> i then Some n else run_scan runs i n)"

definition runIndexFor :: "'st raftLog \<Rightarrow> Index \<Rightarrow> nat option" where
  "runIndexFor rl i = run_scan (rl_runs rl) i (length (rl_runs rl))"

definition termRunStart :: "'st raftLog \<Rightarrow> Index \<Rightarrow> Index" where
  "termRunStart rl i =
    (case runIndexFor rl i of
       None \<Rightarrow> 0
     | Some k \<Rightarrow> if rl_last rl < i then 0 else tr_start (rl_runs rl ! k))"

fun term_scan :: "termRun list \<Rightarrow> Index \<Rightarrow> Term \<Rightarrow> nat \<Rightarrow> Index option" where
  "term_scan runs l t 0 = None"
| "term_scan runs l t (Suc n) =
    (if tr_term (runs ! n) \<noteq> t then term_scan runs l t n
     else if n + 1 < length runs then Some (tr_start (runs ! (n + 1)) - 1)
     else Some l)"

definition lastIndexOfTerm :: "'st raftLog \<Rightarrow> Term \<Rightarrow> Index option" where
  "lastIndexOfTerm rl t =
    (case term_scan (rl_runs rl) (rl_last rl) t (length (rl_runs rl)) of
       Some i \<Rightarrow> Some i
     | None \<Rightarrow>
         if rl_first rl = 0 \<and> snap_index rl \<noteq> 0 \<and> snap_term rl = t then Some (snap_index rl) else None)"

text \<open>The runs left by dropping from the end, on the reversed list.\<close>

definition truncateRunsFrom :: "'st raftLog \<Rightarrow> Index \<Rightarrow> 'st raftLog" where
  "truncateRunsFrom rl i =
    rl\<lparr>rl_runs := rev (dropWhile (\<lambda>r. i \<le> tr_start r) (rev (rl_runs rl)))\<rparr>"

definition truncateRunsBelow :: "'st raftLog \<Rightarrow> Index \<Rightarrow> 'st raftLog" where
  "truncateRunsBelow rl i =
    (case runIndexFor rl i of
       None \<Rightarrow> rl\<lparr>rl_runs := []\<rparr>
     | Some k \<Rightarrow> rl\<lparr>rl_runs := (drop k (rl_runs rl))[0 := (rl_runs rl ! k)\<lparr>tr_start := i\<rparr>]\<rparr>)"

section \<open>Construction\<close>

definition loadRuns_batch :: nat where "loadRuns_batch = 1024"

function loadRuns_loop :: "'st raftLog \<Rightarrow> Index \<Rightarrow> 'st raftLog result" where
  "loadRuns_loop rl lo =
    (if lo \<le> rl_last rl
     then obind (st_GetLogEntries (sw_ops (rl_w rl)) (rl_storage rl) lo (min (lo + loadRuns_batch) (rl_last rl + 1)))
       (\<lambda>es. if length es = 0 then Fail (ErrOther ''no entries returned'')
             else loadRuns_loop (extendRuns rl es) (lo + loadRuns_batch))
     else Ok rl)"
  by pat_completeness auto
termination
  by (relation "measure (\<lambda>(rl, lo). Suc (rl_last rl) - lo)") (auto simp: extendRuns_def loadRuns_batch_def)

declare loadRuns_loop.simps [simp del]

definition loadRuns :: "'st raftLog \<Rightarrow> 'st raftLog result" where
  "loadRuns rl =
    obind (loadRuns_loop rl (rl_first rl)) (\<lambda>rl.
      if length (rl_runs rl) = 0 then Fail (ErrOther ''no terms were read'') else Ok rl)"

definition empty_log :: "'st storageWriter \<Rightarrow> 'st raftLog" where
  "empty_log w = \<lparr>rl_w = w, rl_snapMeta = \<lparr>sm_LastIncludedIndex = 0, sm_LastIncludedTerm = 0\<rparr>,
    rl_snapClientTable = [], rl_snapMembership = no_membership, rl_hasSnapMembership = False,
    rl_snapClientTableCap = 0, rl_hasSnapClientTableCap = False, rl_first = 0, rl_last = 0, rl_lastTerm = 0,
    rl_segs = [], rl_unstableBytes = 0, rl_runs = [], rl_durable = 0, rl_queuedDurable = 0, rl_nextSeq = 0\<rparr>"

definition load_snapshot_part :: "'st raftLog \<Rightarrow> 'st raftLog result" where
  "load_snapshot_part rl =
    (case st_LoadSnapshot (sw_ops (rl_w rl)) (rl_storage rl) of
       Ok (meta, r) \<Rightarrow>
         (case readSnapshotFrame r of
            Ok (frame, _) \<Rightarrow>
              Ok (rl\<lparr>rl_snapMeta := meta, rl_snapClientTable := sf_table frame,
                     rl_snapMembership := sf_membership frame, rl_hasSnapMembership := sf_hasMembership frame,
                     rl_snapClientTableCap := sf_clientTableCap frame,
                     rl_hasSnapClientTableCap := sf_hasClientTableCap frame\<rparr>)
          | Fail _ \<Rightarrow> Fail (ErrOther ''read snapshot framing'')
          | Panic \<Rightarrow> Panic)
     | Fail e \<Rightarrow> if e = ErrNoSnapshot then Ok rl else Fail e
     | Panic \<Rightarrow> Panic)"

definition newRaftLog :: "'st storageWriter \<Rightarrow> 'st raftLog result" where
  "newRaftLog w =
    obind (load_snapshot_part (empty_log w)) (\<lambda>rl.
    obind (st_FirstIndex (sw_ops w) (sw_storage w)) (\<lambda>f.
    obind (st_LastIndex (sw_ops w) (sw_storage w)) (\<lambda>l.
      let rl = rl\<lparr>rl_first := f, rl_last := l, rl_durable := l, rl_queuedDurable := l\<rparr>
      in if 0 < l
         then obind (loadRuns rl) (\<lambda>rl. Ok (rl\<lparr>rl_lastTerm := tr_term (rl_runs rl ! (length (rl_runs rl) - 1))\<rparr>))
         else Ok (rl\<lparr>rl_lastTerm := snap_term rl\<rparr>))))"

section \<open>Positions\<close>

definition lastLogIndex :: "'st raftLog \<Rightarrow> Index" where
  "lastLogIndex rl = (if 0 < rl_last rl then rl_last rl else snap_index rl)"

definition lastLogTerm :: "'st raftLog \<Rightarrow> Term" where
  "lastLogTerm rl = rl_lastTerm rl"

fun unstable_first :: "unstableSeg list \<Rightarrow> Index" where
  "unstable_first [] = 0"
| "unstable_first (s # ss) =
    (if 0 < length (us_entries s) then e_Index (us_entries s ! 0) else unstable_first ss)"

definition unstableFirst :: "'st raftLog \<Rightarrow> Index" where
  "unstableFirst rl = unstable_first (rl_segs rl)"

definition stableIndex :: "'st raftLog \<Rightarrow> Index" where
  "stableIndex rl =
    (let d = rl_durable rl;
         d = (if d < snap_index rl then snap_index rl else d);
         us = unstableFirst rl;
         d = (if us \<noteq> 0 \<and> us \<le> d then us - 1 else d);
         l = lastLogIndex rl
     in if l < d then l else d)"

definition unstableSize :: "'st raftLog \<Rightarrow> int" where
  "unstableSize rl = rl_unstableBytes rl"

fun unstable_slice :: "Index \<Rightarrow> Index \<Rightarrow> unstableSeg list \<Rightarrow> LogEntry list" where
  "unstable_slice lo hi [] = []"
| "unstable_slice lo hi (s # ss) =
    (let es = us_entries s
     in if length es = 0 \<or> e_Index (es ! (length es - 1)) < lo then unstable_slice lo hi ss
        else if hi \<le> e_Index (es ! 0) then []
        else let f = (if lo < e_Index (es ! 0) then e_Index (es ! 0) else lo);
                 en = e_Index (es ! (length es - 1)) + 1;
                 t = (if en < hi then en else hi)
             in take (t - f) (drop (f - e_Index (es ! 0)) es) @ unstable_slice lo hi ss)"

definition unstableSlice :: "'st raftLog \<Rightarrow> Index \<Rightarrow> Index \<Rightarrow> LogEntry list" where
  "unstableSlice rl lo hi = unstable_slice lo hi (rl_segs rl)"

definition commandBytes :: "LogEntry list \<Rightarrow> int" where
  "commandBytes es = sum_list (map (\<lambda>e. int (length (e_Command e))) es)"

text \<open>From the last segment down, on the reversed list.\<close>

fun drop_from :: "Index \<Rightarrow> unstableSeg list \<Rightarrow> int \<Rightarrow> unstableSeg list \<times> int" where
  "drop_from i [] b = ([], b)"
| "drop_from i (s # ss) b =
    (let es = us_entries s
     in if length es = 0 \<or> i \<le> e_Index (es ! 0) then drop_from i ss (b - commandBytes es)
        else if i \<le> e_Index (es ! (length es - 1))
        then let keep = i - e_Index (es ! 0)
             in (s\<lparr>us_entries := take keep es\<rparr> # ss, b - commandBytes (drop keep es))
        else (s # ss, b))"

definition dropUnstableFrom :: "'st raftLog \<Rightarrow> Index \<Rightarrow> 'st raftLog" where
  "dropUnstableFrom rl i =
    (case drop_from i (rev (rl_segs rl)) (rl_unstableBytes rl) of (ss, b) \<Rightarrow>
      rl\<lparr>rl_segs := rev ss, rl_unstableBytes := b\<rparr>)"

fun drop_below :: "Index \<Rightarrow> unstableSeg list \<Rightarrow> int \<Rightarrow> unstableSeg list \<times> int" where
  "drop_below i [] b = ([], b)"
| "drop_below i (s # ss) b =
    (let es = us_entries s
     in if length es = 0 then drop_below i ss b
        else if e_Index (es ! (length es - 1)) < i then drop_below i ss (b - commandBytes es)
        else if e_Index (es ! 0) < i
        then let d = i - e_Index (es ! 0)
             in (s\<lparr>us_entries := drop d es\<rparr> # ss, b - commandBytes (take d es))
        else (s # ss, b))"

definition dropUnstableBelow :: "'st raftLog \<Rightarrow> Index \<Rightarrow> 'st raftLog" where
  "dropUnstableBelow rl i =
    (case drop_below i (rl_segs rl) (rl_unstableBytes rl) of (ss, b) \<Rightarrow>
      rl\<lparr>rl_segs := ss, rl_unstableBytes := b\<rparr>)"

fun covering :: "Index \<Rightarrow> unstableSeg list \<Rightarrow> nat option" where
  "covering i [] = None"
| "covering i (s # ss) =
    (let es = us_entries s
     in if length es = 0 then covering i ss
        else if e_Index (es ! 0) \<le> i \<and> i \<le> e_Index (es ! (length es - 1)) then Some (us_seq s)
        else covering i ss)"

definition writeSeqCovering :: "'st raftLog \<Rightarrow> Index \<Rightarrow> nat" where
  "writeSeqCovering rl i =
    (if i = 0 \<or> i \<le> stableIndex rl then 0
     else case covering i (rl_segs rl) of Some s \<Rightarrow> s | None \<Rightarrow> rl_nextSeq rl)"

section \<open>Completed writes\<close>

fun release_segs :: "nat \<Rightarrow> unstableSeg list \<Rightarrow> int \<Rightarrow> unstableSeg list \<times> int" where
  "release_segs n [] b = ([], b)"
| "release_segs n (s # ss) b =
    (if us_seq s \<le> n then release_segs n ss (b - commandBytes (us_entries s)) else (s # ss, b))"

definition stabilize :: "'st raftLog \<Rightarrow> writeDone \<Rightarrow> 'st raftLog" where
  "stabilize rl d =
    (if wd_err d \<noteq> None then rl
     else case release_segs (wd_seq d) (rl_segs rl) (rl_unstableBytes rl) of (ss, b) \<Rightarrow>
       rl\<lparr>rl_durable := wd_durableAfter d, rl_segs := ss, rl_unstableBytes := b\<rparr>)"

section \<open>Changing the log\<close>

definition nextWriteSeq :: "'st raftLog \<Rightarrow> 'st raftLog \<times> nat" where
  "nextWriteSeq rl = (let s = rl_nextSeq rl + 1 in (rl\<lparr>rl_nextSeq := s\<rparr>, s))"

definition no_hs :: HardState where
  "no_hs = \<lparr>hs_CurrentTerm = 0, hs_VotedFor = []\<rparr>"

text \<open>A write operation with the fields its kind uses; the rest are zero.\<close>

definition append_op :: "nat \<Rightarrow> LogEntry list \<Rightarrow> Index \<Rightarrow> writeOp" where
  "append_op s es d = \<lparr>wo_seq = s, wo_kind = writeAppend, wo_entries = es, wo_index = 0, wo_hs = no_hs,
    wo_durableAfter = d\<rparr>"

definition index_op :: "nat \<Rightarrow> writeKind \<Rightarrow> Index \<Rightarrow> Index \<Rightarrow> writeOp" where
  "index_op s k i d = \<lparr>wo_seq = s, wo_kind = k, wo_entries = [], wo_index = i, wo_hs = no_hs,
    wo_durableAfter = d\<rparr>"

definition log_append :: "'st raftLog \<Rightarrow> LogEntry list \<Rightarrow> 'st raftLog \<times> nat" where
  "log_append rl es =
    (if length es = 0 then (rl, 0)
     else case nextWriteSeq rl of (rl, s) \<Rightarrow>
       let rl = rl\<lparr>rl_segs := rl_segs rl @ [\<lparr>us_seq = s, us_entries = es\<rparr>],
                   rl_unstableBytes := rl_unstableBytes rl + commandBytes es\<rparr>;
           l = es ! (length es - 1);
           rl = (if rl_first rl = 0 then rl\<lparr>rl_first := e_Index (es ! 0)\<rparr> else rl);
           rl = extendRuns rl es;
           rl = rl\<lparr>rl_last := e_Index l, rl_lastTerm := e_Term l, rl_queuedDurable := e_Index l\<rparr>
       in (rl\<lparr>rl_w := enqueue (rl_w rl) (append_op s es (rl_queuedDurable rl))\<rparr>, s))"

definition appendOne :: "'st raftLog \<Rightarrow> LogEntry \<Rightarrow> 'st raftLog \<times> nat" where
  "appendOne rl e = log_append rl [e]"

definition termAt :: "'st raftLog \<Rightarrow> Index \<Rightarrow> Term option" where
  "termAt rl i =
    (if i = 0 then Some 0
     else if i = snap_index rl then Some (snap_term rl)
     else if rl_first rl = 0 \<or> i < rl_first rl \<or> rl_last rl < i then None
     else case runIndexFor rl i of None \<Rightarrow> None | Some k \<Rightarrow> Some (tr_term (rl_runs rl ! k)))"

definition log_entries :: "'st raftLog \<Rightarrow> Index \<Rightarrow> Index \<Rightarrow> LogEntry list result" where
  "log_entries rl lo hi =
    (let hi = (if rl_last rl + 1 < hi then rl_last rl + 1 else hi)
     in if hi \<le> lo then Ok []
        else if rl_first rl = 0 \<or> lo < rl_first rl then Fail (ErrOther ''not in the log'')
        else let us = unstableFirst rl
             in if us \<noteq> 0 \<and> us \<le> lo then Ok (unstableSlice rl lo hi)
                else let storageHi = (if us \<noteq> 0 \<and> us < hi then us else hi)
                     in obind (st_GetLogEntries (sw_ops (rl_w rl)) (rl_storage rl) lo storageHi) (\<lambda>out.
                          Ok (if storageHi < hi then out @ unstableSlice rl storageHi hi else out)))"

definition truncateSuffix :: "'st raftLog \<Rightarrow> Index \<Rightarrow> 'st raftLog result" where
  "truncateSuffix rl i =
    (let newLast = i - 1
     in case (if rl_first rl < i \<and> 0 < newLast then termAt rl newLast else Some (snap_term rl)) of
          None \<Rightarrow> Fail (ErrOther ''not in the log'')
        | Some newLastTerm \<Rightarrow>
            let rl = truncateRunsFrom rl i;
                rl = dropUnstableFrom rl i;
                rl = (if 0 < i \<and> i - 1 < rl_queuedDurable rl then rl\<lparr>rl_queuedDurable := i - 1\<rparr> else rl)
            in case nextWriteSeq rl of (rl, s) \<Rightarrow>
                 let rl = rl\<lparr>rl_w := enqueue (rl_w rl) (index_op s writeTruncateSuffix i (rl_queuedDurable rl))\<rparr>
                 in if i \<le> rl_first rl
                    then Ok (rl\<lparr>rl_first := 0, rl_last := 0, rl_lastTerm := snap_term rl, rl_runs := []\<rparr>)
                    else Ok (rl\<lparr>rl_last := newLast, rl_lastTerm := newLastTerm\<rparr>))"

definition canDescribe :: "'st raftLog \<Rightarrow> Index \<Rightarrow> bool" where
  "canDescribe rl i =
    (if i = snap_index rl then True
     else if i = 0 then rl_first rl = 1 \<or> (rl_first rl = 0 \<and> snap_index rl = 0)
     else rl_first rl \<noteq> 0 \<and> rl_first rl \<le> i \<and> i \<le> rl_last rl)"

definition truncatePrefix :: "'st raftLog \<Rightarrow> Index \<Rightarrow> 'st raftLog" where
  "truncatePrefix rl i =
    (if rl_first rl \<noteq> 0 \<and> i \<le> rl_first rl then rl
     else let rl = dropUnstableBelow rl i;
              rl = (if rl_last rl < i \<and> 0 < i \<and> i - 1 < rl_queuedDurable rl
                    then rl\<lparr>rl_queuedDurable := i - 1\<rparr> else rl)
          in case nextWriteSeq rl of (rl, s) \<Rightarrow>
               let rl = rl\<lparr>rl_w := enqueue (rl_w rl) (index_op s writeTruncatePrefix i (rl_queuedDurable rl))\<rparr>
               in if rl_last rl < i
                  then rl\<lparr>rl_first := 0, rl_last := 0, rl_lastTerm := snap_term rl, rl_runs := []\<rparr>
                  else (truncateRunsBelow rl i)\<lparr>rl_first := i\<rparr>)"

definition log_installSnapshot :: "'st raftLog \<Rightarrow> SnapshotMeta \<Rightarrow> 'st raftLog result" where
  "log_installSnapshot rl meta =
    (let agrees = (termAt rl (sm_LastIncludedIndex meta) = Some (sm_LastIncludedTerm meta));
         r = (if agrees then Ok (truncatePrefix rl (sm_LastIncludedIndex meta + 1))
              else if rl_first rl \<noteq> 0 then truncateSuffix rl (rl_first rl)
              else Ok rl)
     in obind r (\<lambda>rl.
          let rl = rl\<lparr>rl_snapMeta := meta\<rparr>
          in Ok (if rl_last rl = 0
                 then rl\<lparr>rl_first := 0, rl_lastTerm := sm_LastIncludedTerm meta, rl_runs := []\<rparr>
                 else rl)))"

text \<open>Writes that do not touch the log take their sequence number from it: the hard state
  (\<open>Node.saveTerm\<close>) and the recorded commit index (\<open>Node.maybeRecordCommit\<close>).\<close>

definition hs_op :: "nat \<Rightarrow> HardState \<Rightarrow> Index \<Rightarrow> writeOp" where
  "hs_op s hs d = \<lparr>wo_seq = s, wo_kind = writeHardState, wo_entries = [], wo_index = 0, wo_hs = hs,
    wo_durableAfter = d\<rparr>"

definition log_saveHardState :: "'st raftLog \<Rightarrow> HardState \<Rightarrow> 'st raftLog \<times> nat" where
  "log_saveHardState rl hs =
    (case nextWriteSeq rl of (rl, s) \<Rightarrow>
      (rl\<lparr>rl_w := enqueue (rl_w rl) (hs_op s hs (rl_queuedDurable rl))\<rparr>, s))"

definition log_saveCommitIndex :: "'st raftLog \<Rightarrow> Index \<Rightarrow> 'st raftLog" where
  "log_saveCommitIndex rl i =
    (case nextWriteSeq rl of (rl, s) \<Rightarrow>
      rl\<lparr>rl_w := enqueue (rl_w rl) (index_op s writeCommitIndex i (rl_queuedDurable rl))\<rparr>)"

text \<open>What \<open>Node.handleSnapshotResult\<close> does to the log once a snapshot of this node's own
  has been saved: the prefix goes first, the new boundary is recorded after.\<close>

definition log_compact :: "'st raftLog \<Rightarrow> SnapshotMeta \<Rightarrow> Index \<Rightarrow> 'st raftLog" where
  "log_compact rl meta keepFrom = (truncatePrefix rl keepFrom)\<lparr>rl_snapMeta := meta\<rparr>"

text \<open>The log's part in collecting the writer's completions (\<open>Node.handleWriteCompletions\<close>).\<close>

definition log_collect :: "'st raftLog \<Rightarrow> 'st raftLog" where
  "log_collect rl = (case takeDone (rl_w rl) of (ds, w) \<Rightarrow> fold (\<lambda>d rl. stabilize rl d) ds (rl\<lparr>rl_w := w\<rparr>))"

definition isUpToDate :: "'st raftLog \<Rightarrow> Index \<Rightarrow> Term \<Rightarrow> bool" where
  "isUpToDate rl candidateLastIndex candidateLastTerm =
    (let ourTerm = lastLogTerm rl; ourIndex = lastLogIndex rl
     in if candidateLastTerm \<noteq> ourTerm then ourTerm < candidateLastTerm
        else ourIndex \<le> candidateLastIndex)"

end
