(* ===== verification/Quorum.thy ===== *)
theory Quorum
  imports Types
begin

text \<open>
  Flexible quorums (\<open>quorum.go\<close>): the two sizes a group counts by, the rule by
  which a node that holds a policy it has not applied yet counts by the stricter
  of the two, and the contract the rest of the protocol relies on.  The contract
  is the locale \<open>quorum_pair\<close>: a commit quorum meets every election quorum, and
  two election quorums meet.  It is interpreted on the sizes the code computes,
  for one policy and for a node in the middle of a policy change.
\<close>

datatype quorumKind = commitQuorum | electionQuorum

definition commitQuorumFor :: "int \<Rightarrow> int \<Rightarrow> int" where
  "commitQuorumFor q tot =
    (if tot = 0 then 0 else if q \<le> 0 then tot div 2 + 1 else min q tot)"

definition electionQuorumFor :: "int \<Rightarrow> int \<Rightarrow> int" where
  "electionQuorumFor q tot =
    (if tot = 0 then 0 else max (tot - commitQuorumFor q tot + 1) (tot div 2 + 1))"

fun quorumNeeded :: "quorumKind \<Rightarrow> int \<Rightarrow> int \<Rightarrow> int \<Rightarrow> int" where
  "quorumNeeded electionQuorum applied latest tot =
    max (electionQuorumFor applied tot) (electionQuorumFor latest tot)"
| "quorumNeeded commitQuorum applied latest tot =
    max (commitQuorumFor applied tot) (commitQuorumFor latest tot)"

section \<open>The contract\<close>

locale quorum_pair =
  fixes cq :: "'v set \<Rightarrow> bool" and eq :: "'v set \<Rightarrow> bool"
  assumes commit_election: "cq A \<Longrightarrow> eq B \<Longrightarrow> A \<inter> B \<noteq> {}"
    and election_election: "eq A \<Longrightarrow> eq B \<Longrightarrow> A \<inter> B \<noteq> {}"
begin

lemma one_winner:
  assumes "eq A" "eq B" "\<forall>v\<in>A. vote v = Some a" "\<forall>v\<in>B. vote v = Some b"
  shows "a = b"
  using election_election [OF assms(1,2)] assms(3,4) by fastforce

lemma committed_seen:
  assumes "cq A" "eq B" "\<forall>v\<in>A. has v"
  shows "\<exists>v\<in>B. has v"
  using commit_election [OF assms(1,2)] assms(3) by blast

end

section \<open>Arithmetic of the two sizes\<close>

lemma commitQuorumFor_bounds: "0 < tot \<Longrightarrow> 1 \<le> commitQuorumFor q tot \<and> commitQuorumFor q tot \<le> tot"
  by (auto simp: commitQuorumFor_def)

lemma electionQuorumFor_bounds: "0 < tot \<Longrightarrow> 1 \<le> electionQuorumFor q tot \<and> electionQuorumFor q tot \<le> tot"
  using commitQuorumFor_bounds [of tot q] by (auto simp: electionQuorumFor_def)

lemma commit_plus_election: "0 < tot \<Longrightarrow> tot < commitQuorumFor q tot + electionQuorumFor q tot"
  by (auto simp: electionQuorumFor_def)

lemma election_plus_election: "0 < tot \<Longrightarrow> tot < electionQuorumFor q tot + electionQuorumFor q' tot"
  by (auto simp: electionQuorumFor_def max_def)

lemma quorumNeeded_ge:
  "electionQuorumFor applied tot \<le> quorumNeeded electionQuorum applied latest tot"
  "electionQuorumFor latest tot \<le> quorumNeeded electionQuorum applied latest tot"
  "commitQuorumFor applied tot \<le> quorumNeeded commitQuorum applied latest tot"
  "commitQuorumFor latest tot \<le> quorumNeeded commitQuorum applied latest tot"
  by simp_all

lemma quorumNeeded_bounds:
  "0 < tot \<Longrightarrow> 1 \<le> quorumNeeded k applied latest tot \<and> quorumNeeded k applied latest tot \<le> tot"
  using commitQuorumFor_bounds electionQuorumFor_bounds by (cases k) (simp_all add: le_max_iff_disj)

lemma quorumNeeded_0 [simp]: "quorumNeeded k applied latest 0 = 0"
  by (cases k) (simp_all add: commitQuorumFor_def electionQuorumFor_def)

section \<open>Sets of voters\<close>

lemma sets_meet:
  assumes "finite V" "A \<subseteq> V" "B \<subseteq> V" "int (card V) < int (card A) + int (card B)"
  shows "A \<inter> B \<noteq> {}"
proof
  assume "A \<inter> B = {}"
  then have "card (A \<union> B) = card A + card B"
    using assms by (intro card_Un_disjoint) (auto intro: finite_subset)
  moreover have "card (A \<union> B) \<le> card V" using assms by (intro card_mono) auto
  ultimately show False using assms(4) by linarith
qed

text \<open>A set of voters that satisfies a node which counts with policy \<open>applied\<close> in
  effect and policy \<open>latest\<close> in its log.\<close>

definition quorum_set :: "quorumKind \<Rightarrow> int \<Rightarrow> int \<Rightarrow> 'v set \<Rightarrow> 'v set \<Rightarrow> bool" where
  "quorum_set k applied latest V A \<longleftrightarrow>
    finite V \<and> V \<noteq> {} \<and> A \<subseteq> V \<and> quorumNeeded k applied latest (int (card V)) \<le> int (card A)"

lemma quorum_set_card_pos: "quorum_set k a l V A \<Longrightarrow> 0 < int (card V)"
  by (auto simp: quorum_set_def card_gt_0_iff)

lemma quorum_set_election_meet:
  assumes "quorum_set electionQuorum a l V A" "quorum_set electionQuorum a' l' V B"
  shows "A \<inter> B \<noteq> {}"
proof (rule sets_meet)
  show "int (card V) < int (card A) + int (card B)"
    using election_plus_election [OF quorum_set_card_pos [OF assms(1)], of a a'] assms
      quorumNeeded_ge(1) [of a "int (card V)" l] quorumNeeded_ge(1) [of a' "int (card V)" l']
    by (simp add: quorum_set_def)
qed (use assms in \<open>auto simp: quorum_set_def\<close>)

lemma quorum_set_commit_meet:
  assumes "quorum_set commitQuorum a l V A" "quorum_set electionQuorum a' l' V B"
    and "q \<in> {a, l}" "q \<in> {a', l'}"
  shows "A \<inter> B \<noteq> {}"
proof (rule sets_meet)
  have "commitQuorumFor q (int (card V)) \<le> quorumNeeded commitQuorum a l (int (card V))"
    and "electionQuorumFor q (int (card V)) \<le> quorumNeeded electionQuorum a' l' (int (card V))"
    using assms(3,4) by auto
  then show "int (card V) < int (card A) + int (card B)"
    using commit_plus_election [OF quorum_set_card_pos [OF assms(1)], of q] assms(1,2)
    by (simp add: quorum_set_def del: quorumNeeded.simps)
qed (use assms in \<open>auto simp: quorum_set_def\<close>)

interpretation flex: quorum_pair "quorum_set commitQuorum q q V" "quorum_set electionQuorum q q V"
  for q :: int and V :: "'v set"
  using quorum_set_commit_meet quorum_set_election_meet by unfold_locales blast+

text \<open>During a policy change from \<open>old\<close> to \<open>new\<close> a node that has the entry in its
  log counts by \<open>(old, new)\<close>.  The leader that commits the change is such a node,
  and it meets every voter that already applied it, every voter that has not seen
  it and every voter in between.\<close>

interpretation changing: quorum_pair "quorum_set commitQuorum old new V"
  "\<lambda>B. quorum_set electionQuorum old old V B \<or> quorum_set electionQuorum old new V B
    \<or> quorum_set electionQuorum new new V B"
  for old new :: int and V :: "'v set"
proof unfold_locales
  fix A B :: "'v set"
  assume "quorum_set commitQuorum old new V A"
    and "quorum_set electionQuorum old old V B \<or> quorum_set electionQuorum old new V B
      \<or> quorum_set electionQuorum new new V B"
  then show "A \<inter> B \<noteq> {}"
    using quorum_set_commit_meet [of old new V A _ _ B] by blast
next
  fix A B :: "'v set"
  assume "quorum_set electionQuorum old old V A \<or> quorum_set electionQuorum old new V A
      \<or> quorum_set electionQuorum new new V A"
    and "quorum_set electionQuorum old old V B \<or> quorum_set electionQuorum old new V B
      \<or> quorum_set electionQuorum new new V B"
  then show "A \<inter> B \<noteq> {}"
    using quorum_set_election_meet by blast
qed

end
