(* ===== verification/Node_State.thy ===== *)
theory Node_State
  imports Raft_Log Quorum
begin

text \<open>
  The state of a node (\<open>node.go\<close>) and the operations every handler is built from.  The
  event loop owns this state alone, so a handler is a function from a node to a node.
  What it does to the outside is recorded in order in \<open>nd_out\<close>: requests sent to peers,
  answers to calls, resolved and rejected promises.  A channel of size one between the
  event loop and another goroutine is a field holding what is in it.  The atomic mirrors
  hold the same values as the fields they mirror and are left out, apart from
  \<open>atomicDurableTerm\<close>; so are metrics, log lines, events for observers and the
  announcement of leadership, which nothing in the node reads.

  A Go map that can be \<open>nil\<close> is an optional association list, in insertion order where
  the source iterates over it.  Writing to a \<open>nil\<close> map panics; here it sets \<open>nd_panic\<close>.
  Instants are pairs of a wall and a monotonic reading in nanoseconds, the zero time is
  \<open>None\<close>, and \<open>rng.IntN k\<close> is the next value of an arbitrary sequence modulo \<open>k\<close>.
\<close>

section \<open>Maps\<close>

type_synonym ('k, 'v) gomap = "('k \<times> 'v) list option"

text \<open>Reading a missing key gives the zero value; a \<open>nil\<close> map has no keys.\<close>

definition gm_has :: "('k, 'v) gomap \<Rightarrow> 'k \<Rightarrow> bool" where
  "gm_has m k = (case m of None \<Rightarrow> False | Some l \<Rightarrow> map_of l k \<noteq> None)"

definition gm_get :: "'v \<Rightarrow> ('k, 'v) gomap \<Rightarrow> 'k \<Rightarrow> 'v" where
  "gm_get z m k = (case m of None \<Rightarrow> z | Some l \<Rightarrow> (case map_of l k of None \<Rightarrow> z | Some v \<Rightarrow> v))"

definition gm_keys :: "('k, 'v) gomap \<Rightarrow> 'k list" where
  "gm_keys m = (case m of None \<Rightarrow> [] | Some l \<Rightarrow> map fst l)"

fun al_put :: "'k \<Rightarrow> 'v \<Rightarrow> ('k \<times> 'v) list \<Rightarrow> ('k \<times> 'v) list" where
  "al_put k v [] = [(k, v)]"
| "al_put k v ((k', v') # l) = (if k = k' then (k, v) # l else (k', v') # al_put k v l)"

definition gm_put :: "('k, 'v) gomap \<Rightarrow> 'k \<Rightarrow> 'v \<Rightarrow> ('k, 'v) gomap" where
  "gm_put m k v = map_option (al_put k v) m"

definition gm_del :: "('k, 'v) gomap \<Rightarrow> 'k \<Rightarrow> ('k, 'v) gomap" where
  "gm_del m k = map_option (filter (\<lambda>(k', _). k' \<noteq> k)) m"

lemma map_of_al_put [simp]: "map_of (al_put k v l) = (map_of l)(k \<mapsto> v)"
  by (induction l) auto

lemma gm_get_put [simp]: "gm_get z (gm_put (Some l) k v) k' = (if k = k' then v else gm_get z (Some l) k')"
  by (simp add: gm_get_def gm_put_def)

lemma gm_get_None [simp]: "gm_get z None k = z"
  by (simp add: gm_get_def)

section \<open>Configuration\<close>

type_synonym ZoneID = bytes

record Config =
  cfg_ID :: NodeID
  cfg_Voter :: bool
  cfg_Witness :: bool
  cfg_Peers :: "PeerConfig list"
  cfg_ElectionTimeoutMin :: int
  cfg_ElectionTimeoutMax :: int
  cfg_HeartbeatInterval :: int
  cfg_LeaseSafetyMargin :: int
  cfg_TickInterval :: int
  cfg_RPCTimeout :: int
  cfg_MaxLogEntriesPerRPC :: int
  cfg_MaxBytesPerRPC :: nat
  cfg_MaxProposalBytes :: int
  cfg_MaxUnstableLogBytes :: int
  cfg_ProposalQueueSize :: int
  cfg_ProposalOverflow :: nat
  cfg_Zones :: "(NodeID \<times> ZoneID) list"
  cfg_MinCommitZones :: int
  cfg_CommitQuorum :: int
  cfg_SnapshotThreshold :: nat
  cfg_TrailingLogs :: nat
  cfg_SnapshotSemaphore :: bool
  cfg_MaxInflightRPCs :: int
  cfg_CheckQuorum :: bool
  cfg_MaxClientTableSize :: int
  cfg_SnapshotChunkSize :: int
  cfg_PreferredLeader :: NodeID

section \<open>Calls and what the node does to the outside\<close>

text \<open>A request as the transport delivers it.  The channel a call is answered on is
  identified by who called and with what.\<close>

datatype rpcRequest =
    QVote RequestVoteRequest
  | QAppend AppendEntriesRequest
  | QInstall InstallSnapshotRequest
  | QTimeoutNow TimeoutNowRequest
  | QReadIndex ReadIndexRequest

record respCh =
  rc_from :: NodeID
  rc_req :: rpcRequest

datatype rpcResponse =
    PVote RequestVoteResponse
  | PAppend AppendEntriesResponse
  | PInstall Term
  | PTimeoutNow Term
  | PReadIndex Term Index
  | PNone

text \<open>A promise is the identity of the call that waits on it.  A read waits on a promise
  or on a call from a follower.\<close>

type_synonym promise = nat

datatype readIndexResolver = promiseIndexResolver promise | rpcReadIndexResolver Term respCh

datatype outEffect =
    OVote NodeID RequestVoteRequest
  | OAppend NodeID AppendEntriesRequest
  | OBarrier NodeID AppendEntriesRequest
  | OHeartbeat NodeID AppendEntriesRequest
  | OSnapshot NodeID SnapshotMeta bytes Term
  | OTimeoutNow NodeID TimeoutNowRequest
  | OReply respCh rpcResponse "raft_error option"
  | OResolve promise bytes
  | OReject promise raft_error
  | OReadResolve readIndexResolver Index
  | OReadReject readIndexResolver raft_error
  | OTransfer promise "raft_error option"
  | ORemoved
  | OFatal raft_error

section \<open>Parts of the state\<close>

type_synonym instant = "int \<times> int"

text \<open>Work that waits for a write: an answer, the start of a candidacy, and what has to be
  undone when the write of a proposal or of a finalise entry fails.\<close>

datatype deferred =
    DReply respCh rpcResponse "raft_error option"
  | DCandidate Term
  | DPropose "Index list"
  | DFinalise Index

record deferredWrite =
  dw_seq :: nat
  dw_work :: deferred

record departure =
  dep_index :: Index
  dep_elapsed :: int

record peerHealth =
  ph_failures :: nat
  ph_down :: bool

record snapshotAck =
  sa_index :: Index
  sa_respCh :: respCh
  sa_resp :: Term

text \<open>An install that is still receiving chunks: what is in its channel of eight, and what
  its goroutine has read of it.\<close>

record partialSnapshot =
  ps_meta :: SnapshotMeta
  ps_installCh :: "bytes list"
  ps_read :: bytes
  ps_expectedOff :: int

record snapshotTrigger =
  st_meta :: SnapshotMeta
  st_clientTable :: "clientRecord list"
  st_membership :: membershipState
  st_clientTableCap :: int
  st_hasClientTableCap :: bool

record snapshotInstall =
  si_meta :: SnapshotMeta
  si_r :: bytes
  si_clientTable :: "clientRecord list"
  si_clientTableCap :: int
  si_hasClientTableCap :: bool

section \<open>The node\<close>

record 'st node =
  nd_cfg :: Config
  nd_currentTerm :: Term
  nd_votedFor :: NodeID
  nd_state :: State
  nd_leaderID :: NodeID
  nd_commitIndex :: Index
  nd_lastApplied :: Index
  nd_durableTerm :: Term
  nd_nextIndex :: "(NodeID, Index) gomap"
  nd_matchIndex :: "(NodeID, Index) gomap"
  nd_inflight :: "(NodeID, nat) gomap"
  nd_snapshotInflight :: "(NodeID, bool) gomap"
  nd_departing :: "(NodeID, departure) gomap"
  nd_log :: "'st raftLog"
  nd_deferredWrites :: "deferredWrite list"
  nd_unsafeTermSeq :: nat
  nd_completedWriteSeq :: nat
  nd_recordedCommit :: Index
  nd_electionElapsed :: int
  nd_heartbeatElapsed :: int
  nd_electionTimeout :: int
  nd_heartbeatTimeout :: int
  nd_electionMinTicks :: int
  nd_electionMaxTicks :: int
  nd_pendingConfigIndex :: Index
  nd_jointOld :: "PeerConfig list option"
  nd_jointNew :: "PeerConfig list"
  nd_jointIncludeSelf :: bool
  nd_jointSelfVoter :: bool
  nd_jointSelfVoterOld :: bool
  nd_membershipWitness :: bool
  nd_baseMembership :: membershipState
  nd_configIndex :: Index
  nd_leaderQuorumElapsed :: int
  nd_quorumAcks :: "(NodeID, bool) gomap"
  nd_termStartIndex :: Index
  nd_transferTarget :: NodeID
  nd_transferElapsed :: int
  nd_applyBaseIndex :: Index
  nd_commitNotifyCh :: "Index option"
  nd_pending :: "(Index \<times> promise) list"
  nd_receivedVoteSet :: "(NodeID, bool) gomap"
  nd_snapshotTriggerCh :: "snapshotTrigger option"
  nd_snapshotting :: bool
  nd_snapInstallAck :: "snapshotAck option"
  nd_installingSnap :: Index
  nd_pendingSnap :: "partialSnapshot option"
  nd_installs :: "(SnapshotMeta \<times> bytes) list"
  nd_initialSnap :: "snapshotInstall option"
  nd_restoreSnapshotCh :: "snapshotInstall option"
  nd_leaderNopCommitted :: bool
  nd_readBatchGen :: nat
  nd_readBatchAcks :: "(NodeID, bool) gomap"
  nd_readBatchIndex :: Index
  nd_pendingReads :: "readIndexResolver list"
  nd_waitingReads :: "readIndexResolver list"
  nd_leaseExpiry :: "instant option"
  nd_leaseSendTime :: "instant option"
  nd_leaseBase :: "instant option"
  nd_clientTable :: clientLRU
  nd_clientTableCap :: int
  nd_clientTableCapAgreed :: bool
  nd_clientTableCapReplicated :: bool
  nd_baseClientTableCap :: int
  nd_hasBaseClientTableCap :: bool
  nd_applyStartCap :: int
  nd_commitQuorumApplied :: int
  nd_commitQuorumLatest :: int
  nd_commitQuorumAgreed :: bool
  nd_quorumEntryPending :: Index
  nd_capEntryPending :: Index
  nd_clientsForgotten :: nat
  nd_hbPumps :: "(NodeID, AppendEntriesRequest option) gomap"
  nd_rng :: "nat \<Rightarrow> nat"
  nd_draws :: nat
  nd_peerHealth :: "(NodeID, peerHealth) gomap"
  nd_removedNotified :: bool
  nd_fatalErr :: "raft_error option"
  nd_now :: instant
  nd_permit :: bool
  nd_out :: "outEffect list"
  nd_panic :: bool

end
