(* ===== verification/Node_Base.thy ===== *)
theory Node_Base
  imports Node_State
begin

text \<open>
  What the handlers of a node share: the setters, the gate every answer passes
  through, the work that waits for a write, peer health, heartbeat pumps and the step
  down to follower (\<open>node.go\<close>, \<open>node_transitions.go\<close>, \<open>observer.go\<close> and the end of
  \<open>node_loop.go\<close>).
\<close>

section \<open>Effects and maps\<close>

definition emit :: "outEffect \<Rightarrow> 'st node \<Rightarrow> 'st node" where
  "emit e n = n\<lparr>nd_out := nd_out n @ [e]\<rparr>"

definition set_nextIndex :: "NodeID \<Rightarrow> Index \<Rightarrow> 'st node \<Rightarrow> 'st node" where
  "set_nextIndex p i n = n\<lparr>nd_nextIndex := gm_put (nd_nextIndex n) p i,
    nd_panic := (nd_panic n \<or> nd_nextIndex n = None)\<rparr>"

definition set_matchIndex :: "NodeID \<Rightarrow> Index \<Rightarrow> 'st node \<Rightarrow> 'st node" where
  "set_matchIndex p i n = n\<lparr>nd_matchIndex := gm_put (nd_matchIndex n) p i,
    nd_panic := (nd_panic n \<or> nd_matchIndex n = None)\<rparr>"

definition set_inflight :: "NodeID \<Rightarrow> nat \<Rightarrow> 'st node \<Rightarrow> 'st node" where
  "set_inflight p k n = n\<lparr>nd_inflight := gm_put (nd_inflight n) p k,
    nd_panic := (nd_panic n \<or> nd_inflight n = None)\<rparr>"

definition set_snapshotInflight :: "NodeID \<Rightarrow> bool \<Rightarrow> 'st node \<Rightarrow> 'st node" where
  "set_snapshotInflight p b n = n\<lparr>nd_snapshotInflight := gm_put (nd_snapshotInflight n) p b,
    nd_panic := (nd_panic n \<or> nd_snapshotInflight n = None)\<rparr>"

definition set_receivedVote :: "NodeID \<Rightarrow> 'st node \<Rightarrow> 'st node" where
  "set_receivedVote p n = n\<lparr>nd_receivedVoteSet := gm_put (nd_receivedVoteSet n) p True,
    nd_panic := (nd_panic n \<or> nd_receivedVoteSet n = None)\<rparr>"

abbreviation nextIndex :: "'st node \<Rightarrow> NodeID \<Rightarrow> Index" where
  "nextIndex n p \<equiv> gm_get 0 (nd_nextIndex n) p"

abbreviation matchIndex :: "'st node \<Rightarrow> NodeID \<Rightarrow> Index" where
  "matchIndex n p \<equiv> gm_get 0 (nd_matchIndex n) p"

abbreviation inflight :: "'st node \<Rightarrow> NodeID \<Rightarrow> nat" where
  "inflight n p \<equiv> gm_get 0 (nd_inflight n) p"

abbreviation snapshotInflight :: "'st node \<Rightarrow> NodeID \<Rightarrow> bool" where
  "snapshotInflight n p \<equiv> gm_get False (nd_snapshotInflight n) p"

section \<open>Setters\<close>

definition node_fail :: "raft_error \<Rightarrow> 'st node \<Rightarrow> 'st node" where
  "node_fail err n = (if nd_fatalErr n \<noteq> None then n else emit (OFatal err) (n\<lparr>nd_fatalErr := Some err\<rparr>))"

definition setState :: "State \<Rightarrow> 'st node \<Rightarrow> 'st node" where
  "setState s n = n\<lparr>nd_state := s\<rparr>"

definition setLeaderID :: "NodeID \<Rightarrow> 'st node \<Rightarrow> 'st node" where
  "setLeaderID i n = n\<lparr>nd_leaderID := i\<rparr>"

definition commitRecordInterval :: nat where "commitRecordInterval = 256"

definition maybeRecordCommit :: "'st node \<Rightarrow> 'st node" where
  "maybeRecordCommit n =
    (if st_SaveCommitIndex (sw_ops (rl_w (nd_log n))) = None then n
     else let idx = min (nd_commitIndex n) (stableIndex (nd_log n))
          in if idx < nd_recordedCommit n + commitRecordInterval then n
             else n\<lparr>nd_recordedCommit := idx, nd_log := log_saveCommitIndex (nd_log n) idx\<rparr>)"

definition setCommitIndex :: "Index \<Rightarrow> 'st node \<Rightarrow> 'st node" where
  "setCommitIndex idx n =
    (if idx \<le> nd_commitIndex n then n else maybeRecordCommit (n\<lparr>nd_commitIndex := idx\<rparr>))"

text \<open>Whatever was in the channel, the apply loop next reads the latest index.\<close>

definition notifyApply :: "'st node \<Rightarrow> 'st node" where
  "notifyApply n =
    (let applicable = (if stableIndex (nd_log n) < nd_commitIndex n then stableIndex (nd_log n) else nd_commitIndex n)
     in if applicable = 0 then n else n\<lparr>nd_commitNotifyCh := Some applicable\<rparr>)"

definition saveTerm :: "Term \<Rightarrow> NodeID \<Rightarrow> 'st node \<Rightarrow> 'st node \<times> nat" where
  "saveTerm t votedFor n =
    (case log_saveHardState (nd_log n) \<lparr>hs_CurrentTerm = t, hs_VotedFor = votedFor\<rparr> of (rl, s) \<Rightarrow>
      (n\<lparr>nd_log := rl, nd_unsafeTermSeq := s, nd_currentTerm := t, nd_votedFor := votedFor\<rparr>, s))"

definition sendGate :: "nat \<Rightarrow> 'st node \<Rightarrow> nat" where
  "sendGate writeSeq n = (if writeSeq < nd_unsafeTermSeq n then nd_unsafeTermSeq n else writeSeq)"

definition resetElectionTimeout :: "'st node \<Rightarrow> 'st node" where
  "resetElectionTimeout n =
    (let span = nd_electionMaxTicks n - nd_electionMinTicks n;
         span = (if span \<le> 0 then 1 else span)
     in n\<lparr>nd_electionTimeout := nd_electionMinTicks n + int (nd_rng n (nd_draws n)) mod span,
          nd_draws := nd_draws n + 1, nd_electionElapsed := 0\<rparr>)"

section \<open>Limits\<close>

definition defaultMaxUnstableLogBytes :: int where "defaultMaxUnstableLogBytes = 64 * 2 ^ 20"

definition unstableLimit :: "'st node \<Rightarrow> int" where
  "unstableLimit n =
    (let m = cfg_MaxUnstableLogBytes (nd_cfg n)
     in if m \<noteq> 0 then (if m < 0 then 0 else m) else defaultMaxUnstableLogBytes)"

definition proposalFramingReserve :: int where "proposalFramingReserve = 4096"

text \<open>The transport's limit is a parameter: \<open>None\<close> when it declares none.\<close>

definition proposalLimit :: "int option \<Rightarrow> Config \<Rightarrow> int" where
  "proposalLimit limiter cfg =
    (if 0 < cfg_MaxProposalBytes cfg then cfg_MaxProposalBytes cfg
     else case limiter of
            None \<Rightarrow> 0
          | Some limit \<Rightarrow>
              if limit \<le> 0 then 0
              else let reserved = limit div 16;
                       reserved = (if reserved < proposalFramingReserve then proposalFramingReserve else reserved)
                   in if limit \<le> reserved then 0 else limit - reserved)"

definition checkProposalSize :: "int option \<Rightarrow> Config \<Rightarrow> nat \<Rightarrow> raft_error option" where
  "checkProposalSize limiter cfg sz =
    (let limit = proposalLimit limiter cfg
     in if 0 < limit \<and> limit < int sz then Some ErrProposalTooLarge else None)"

definition trailingLogs :: "Config \<Rightarrow> nat" where
  "trailingLogs cfg =
    (if 0 < cfg_SnapshotThreshold cfg \<and> cfg_SnapshotThreshold cfg \<le> cfg_TrailingLogs cfg
     then cfg_SnapshotThreshold cfg - 1 else cfg_TrailingLogs cfg)"

section \<open>Work that waits for a write\<close>

text \<open>What is released when the write has completed.  The start of a candidacy needs the
  election and is run by \<open>run_deferred\<close> of the theory of elections, which agrees with
  this on everything else.\<close>

fun run_simple :: "deferred \<Rightarrow> 'st node \<Rightarrow> 'st node" where
  "run_simple (DReply ch resp err) n = emit (OReply ch resp err) n"
| "run_simple (DCandidate t) n = n"
| "run_simple (DPropose is) n = n"
| "run_simple (DFinalise i) n = n"

definition fail_index :: "raft_error \<Rightarrow> Index \<Rightarrow> 'st node \<Rightarrow> 'st node" where
  "fail_index err i n =
    (let n = (case map_of (nd_pending n) i of
                Some p \<Rightarrow> emit (OReject p err) (n\<lparr>nd_pending := filter (\<lambda>(j, _). j \<noteq> i) (nd_pending n)\<rparr>)
              | None \<Rightarrow> n);
         n = (if nd_pendingConfigIndex n = i then n\<lparr>nd_pendingConfigIndex := 0\<rparr> else n);
         n = (if nd_capEntryPending n = i then n\<lparr>nd_capEntryPending := 0\<rparr> else n)
     in if nd_quorumEntryPending n = i then n\<lparr>nd_quorumEntryPending := 0\<rparr> else n)"

fun fail_deferred :: "raft_error \<Rightarrow> deferred \<Rightarrow> 'st node \<Rightarrow> 'st node" where
  "fail_deferred err (DReply ch resp _) n = emit (OReply ch resp (Some err)) n"
| "fail_deferred err (DCandidate t) n = n"
| "fail_deferred err (DPropose is) n = fold (fail_index err) is n"
| "fail_deferred err (DFinalise i) n = (if nd_pendingConfigIndex n = i then n\<lparr>nd_pendingConfigIndex := 0\<rparr> else n)"

definition afterWrite_with :: "(deferred \<Rightarrow> 'st node \<Rightarrow> 'st node) \<Rightarrow> nat \<Rightarrow> deferred \<Rightarrow> 'st node \<Rightarrow> 'st node" where
  "afterWrite_with run s d n =
    (if s = 0 \<or> s \<le> nd_completedWriteSeq n then run d n
     else n\<lparr>nd_deferredWrites := nd_deferredWrites n @ [\<lparr>dw_seq = s, dw_work = d\<rparr>]\<rparr>)"

abbreviation afterWrite :: "nat \<Rightarrow> deferred \<Rightarrow> 'st node \<Rightarrow> 'st node" where
  "afterWrite \<equiv> afterWrite_with run_simple"

text \<open>Every answer waits for the term it states to be on disk.\<close>

definition replyWhenDurable :: "respCh \<Rightarrow> rpcResponse \<Rightarrow> nat \<Rightarrow> 'st node \<Rightarrow> 'st node" where
  "replyWhenDurable ch resp writeSeq n = afterWrite (sendGate writeSeq n) (DReply ch resp None) n"

definition failDeferredWrites :: "raft_error \<Rightarrow> 'st node \<Rightarrow> 'st node" where
  "failDeferredWrites err n =
    fold (\<lambda>d. fail_deferred err (dw_work d)) (nd_deferredWrites n) (n\<lparr>nd_deferredWrites := []\<rparr>)"

definition answer_ack :: "snapshotAck \<Rightarrow> raft_error option \<Rightarrow> 'st node \<Rightarrow> 'st node" where
  "answer_ack a err n = afterWrite (sendGate 0 n) (DReply (sa_respCh a) (PInstall (sa_resp a)) err) n"

definition answerSnapInstallAck :: "Index \<Rightarrow> raft_error option \<Rightarrow> 'st node \<Rightarrow> 'st node" where
  "answerSnapInstallAck i err n =
    (case nd_snapInstallAck n of
       None \<Rightarrow> n
     | Some a \<Rightarrow> if sa_index a \<noteq> i then n else answer_ack a err (n\<lparr>nd_snapInstallAck := None\<rparr>))"

definition failSnapInstallAck :: "raft_error \<Rightarrow> 'st node \<Rightarrow> 'st node" where
  "failSnapInstallAck err n =
    (case nd_snapInstallAck n of
       None \<Rightarrow> n
     | Some a \<Rightarrow> answer_ack a (Some err) (n\<lparr>nd_snapInstallAck := None\<rparr>))"

section \<open>Waiting proposals and reads\<close>

definition drainPendingReads :: "raft_error \<Rightarrow> 'st node \<Rightarrow> 'st node" where
  "drainPendingReads err n =
    n\<lparr>nd_out := nd_out n @ map (\<lambda>p. OReadReject p err) (nd_pendingReads n)
                 @ map (\<lambda>p. OReadReject p err) (nd_waitingReads n),
      nd_pendingReads := [], nd_waitingReads := [], nd_readBatchAcks := None\<rparr>"

definition reject_pending :: "raft_error \<Rightarrow> 'st node \<Rightarrow> 'st node" where
  "reject_pending err n =
    n\<lparr>nd_out := nd_out n @ map (\<lambda>(_, p). OReject p err) (nd_pending n), nd_pending := []\<rparr>"

definition drainPending :: "raft_error \<Rightarrow> 'st node \<Rightarrow> 'st node" where
  "drainPending err n = drainPendingReads err (reject_pending err n)"

section \<open>Peer health\<close>

definition peerUnresponsiveFailures :: nat where "peerUnresponsiveFailures = 3"

definition no_health :: peerHealth where "no_health = \<lparr>ph_failures = 0, ph_down = False\<rparr>"

definition health_map :: "'st node \<Rightarrow> (NodeID, peerHealth) gomap" where
  "health_map n = (case nd_peerHealth n of None \<Rightarrow> Some [] | Some l \<Rightarrow> Some l)"

definition markPeerDown :: "NodeID \<Rightarrow> 'st node \<Rightarrow> 'st node" where
  "markPeerDown p n =
    (let n = n\<lparr>nd_peerHealth := health_map n\<rparr>; h = gm_get no_health (nd_peerHealth n) p
     in if ph_down h then n else n\<lparr>nd_peerHealth := gm_put (nd_peerHealth n) p (h\<lparr>ph_down := True\<rparr>)\<rparr>)"

definition notePeerUnreachable :: "NodeID \<Rightarrow> 'st node \<Rightarrow> 'st node" where
  "notePeerUnreachable p n =
    (let n = n\<lparr>nd_peerHealth := health_map n\<rparr>;
         h = gm_get no_health (nd_peerHealth n) p;
         h = h\<lparr>ph_failures := ph_failures h + 1\<rparr>;
         n = n\<lparr>nd_peerHealth := gm_put (nd_peerHealth n) p h\<rparr>
     in if peerUnresponsiveFailures \<le> ph_failures h then markPeerDown p n else n)"

definition markPeerUp :: "NodeID \<Rightarrow> 'st node \<Rightarrow> 'st node" where
  "markPeerUp p n =
    (if gm_has (nd_peerHealth n) p then n\<lparr>nd_peerHealth := gm_del (nd_peerHealth n) p\<rparr> else n)"

definition notePeerResponded :: "NodeID \<Rightarrow> 'st node \<Rightarrow> 'st node" where
  "notePeerResponded p n = markPeerUp p n"

section \<open>Heartbeat pumps\<close>

text \<open>A pump is its channel of size one; the stop channels have the same keys.\<close>

definition startHBPumps :: "'st node \<Rightarrow> 'st node" where
  "startHBPumps n =
    n\<lparr>nd_hbPumps := Some (fold (\<lambda>p l. al_put (pc_ID p) None l) (cfg_Peers (nd_cfg n)) [])\<rparr>"

definition stopHBPumps :: "'st node \<Rightarrow> 'st node" where
  "stopHBPumps n = n\<lparr>nd_hbPumps := None\<rparr>"

definition startHBPumpFor :: "NodeID \<Rightarrow> 'st node \<Rightarrow> 'st node" where
  "startHBPumpFor p n =
    (if nd_hbPumps n = None \<or> gm_has (nd_hbPumps n) p then n
     else n\<lparr>nd_hbPumps := gm_put (nd_hbPumps n) p None\<rparr>)"

definition stopHBPumpFor :: "NodeID \<Rightarrow> 'st node \<Rightarrow> 'st node" where
  "stopHBPumpFor p n =
    (if gm_has (nd_hbPumps n) p then n\<lparr>nd_hbPumps := gm_del (nd_hbPumps n) p\<rparr> else n)"

section \<open>Becoming a follower\<close>

definition applyFollowerTransition :: "NodeID \<Rightarrow> 'st node \<Rightarrow> 'st node" where
  "applyFollowerTransition leaderID n =
    (let changed = (nd_state n \<noteq> Follower \<or> nd_leaderID n \<noteq> leaderID);
         n = setLeaderID leaderID (setState Follower n);
         n = n\<lparr>nd_nextIndex := None, nd_matchIndex := None, nd_inflight := None, nd_snapshotInflight := None,
               nd_transferTarget := [], nd_transferElapsed := 0, nd_pendingConfigIndex := 0,
               nd_capEntryPending := 0, nd_quorumEntryPending := 0, nd_termStartIndex := 0,
               nd_leaderNopCommitted := False\<rparr>;
         n = reject_pending (ErrNotLeader leaderID) n;
         n = drainPendingReads (ErrNotLeader leaderID) n;
         n = n\<lparr>nd_readBatchAcks := None, nd_leaseExpiry := None, nd_leaseSendTime := None, nd_leaseBase := None,
               nd_quorumAcks := None, nd_leaderQuorumElapsed := 0, nd_departing := None\<rparr>;
         n = (if nd_hbPumps n \<noteq> None then stopHBPumps n else n);
         n = (if changed then n\<lparr>nd_pendingSnap := None\<rparr> else n)
     in resetElectionTimeout n)"

definition becomeFollower :: "Term \<Rightarrow> NodeID \<Rightarrow> 'st node \<Rightarrow> 'st node" where
  "becomeFollower t leaderID n =
    (let n = (if nd_currentTerm n < t then fst (saveTerm t [] n) else n)
     in applyFollowerTransition leaderID n)"

section \<open>Membership as the node sees it\<close>

definition isSingleVoter :: "'st node \<Rightarrow> bool" where
  "isSingleVoter n \<longleftrightarrow> cfg_Voter (nd_cfg n) \<and> \<not> list_ex pc_Voter (cfg_Peers (nd_cfg n))"

fun indexOfPeer :: "PeerConfig list \<Rightarrow> NodeID \<Rightarrow> nat option" where
  "indexOfPeer [] i = None"
| "indexOfPeer (p # ps) i = (if pc_ID p = i then Some 0 else map_option Suc (indexOfPeer ps i))"

definition containsPeer :: "PeerConfig list \<Rightarrow> NodeID \<Rightarrow> bool" where
  "containsPeer ps i \<longleftrightarrow> indexOfPeer ps i \<noteq> None"

definition isWitnessPeer :: "'st node \<Rightarrow> NodeID \<Rightarrow> bool" where
  "isWitnessPeer n p =
    (case indexOfPeer (cfg_Peers (nd_cfg n)) p of Some i \<Rightarrow> pc_Witness (cfg_Peers (nd_cfg n) ! i) | None \<Rightarrow> False)"

definition stripForWitness :: "LogEntry list \<Rightarrow> LogEntry list" where
  "stripForWitness es =
    map (\<lambda>e. \<lparr>e_Index = e_Index e, e_Term = e_Term e,
              e_Command = (if isConfigEntry (e_Command e) then e_Command e else [])\<rparr>) es"

definition Members :: "'st node \<Rightarrow> PeerConfig list" where
  "Members n = \<lparr>pc_ID = cfg_ID (nd_cfg n), pc_Voter = cfg_Voter (nd_cfg n), pc_Witness = cfg_Witness (nd_cfg n)\<rparr>
    # cfg_Peers (nd_cfg n)"

definition hasQuorumAck ::
    "'st node \<Rightarrow> quorumKind \<Rightarrow> (NodeID, bool) gomap \<Rightarrow> PeerConfig list \<Rightarrow> bool \<Rightarrow> bool \<Rightarrow> bool" where
  "hasQuorumAck n kind acks members includeSelf selfVoter =
    (let self = (if includeSelf \<and> selfVoter then 1 else 0);
         cnt = self + int (length (filter (\<lambda>m. pc_Voter m \<and> gm_get False acks (pc_ID m)) members));
         tot = int (length (filter pc_Voter members)) + self
     in quorumNeeded kind (nd_commitQuorumApplied n) (nd_commitQuorumLatest n) tot \<le> cnt)"

end
