(* ===== verification/Node_Readindex.thy ===== *)
theory Node_Readindex
  imports Node_Base
begin

text \<open>
  Linearizable reads (\<open>node_readindex.go\<close>): rounds of leadership confirmation, the
  clock lease, and the requests a follower forwards.
\<close>

section \<open>Rounds\<close>

definition barrier_request :: "'st node \<Rightarrow> NodeID \<Rightarrow> nat \<Rightarrow> AppendEntriesRequest" where
  "barrier_request n p gen =
    (let prevIdx = pred64 (nextIndex n p);
         prevTerm = (case termAt (nd_log n) prevIdx of Some t \<Rightarrow> t | None \<Rightarrow> 0)
     in \<lparr>ae_Term = nd_currentTerm n, ae_LeaderID = cfg_ID (nd_cfg n), ae_PrevLogIndex = prevIdx,
         ae_PrevLogTerm = prevTerm, ae_Entries = [], ae_LeaderCommit = nd_commitIndex n, ae_ReadBarrier = gen\<rparr>)"

definition broadcastReadBarrier :: "'st node \<Rightarrow> 'st node" where
  "broadcastReadBarrier n =
    fold (\<lambda>p n. emit (OBarrier (pc_ID p) (barrier_request n (pc_ID p) (nd_readBatchGen n))) n)
      (cfg_Peers (nd_cfg n)) (n\<lparr>nd_leaseSendTime := Some (nd_now n)\<rparr>)"

definition instant_add :: "instant \<Rightarrow> int \<Rightarrow> instant" where
  "instant_add t d = (fst t + d, snd t + d)"

text \<open>The state in which a confirmed round leaves the node, before a next one.\<close>

definition resolve_batch :: "'st node \<Rightarrow> 'st node" where
  "resolve_batch n =
    (let base = (case nd_leaseSendTime n of None \<Rightarrow> nd_now n | Some t \<Rightarrow> t);
         n = n\<lparr>nd_leaseBase := Some base,
               nd_leaseExpiry := Some (instant_add base
                 (cfg_ElectionTimeoutMin (nd_cfg n) - cfg_LeaseSafetyMargin (nd_cfg n)))\<rparr>;
         idx = nd_readBatchIndex n
     in n\<lparr>nd_out := nd_out n @ map (\<lambda>p. OReadResolve p idx) (nd_pendingReads n),
          nd_pendingReads := [], nd_readBatchAcks := None\<rparr>)"

function startReadBatch :: "'st node \<Rightarrow> 'st node" and confirmReadBatch :: "'st node \<Rightarrow> 'st node" where
  "startReadBatch n =
    (let n = n\<lparr>nd_readBatchGen := nd_readBatchGen n + 1, nd_readBatchAcks := Some [],
               nd_readBatchIndex := nd_commitIndex n\<rparr>
     in if isSingleVoter n then confirmReadBatch n else broadcastReadBarrier n)"
| "confirmReadBatch n =
    (let n = resolve_batch n
     in if 0 < length (nd_waitingReads n)
        then startReadBatch (n\<lparr>nd_pendingReads := nd_pendingReads n @ nd_waitingReads n, nd_waitingReads := []\<rparr>)
        else n)"
  by pat_completeness auto
termination
  by (relation "measure (case_sum (\<lambda>n. 2 * length (nd_waitingReads n) + 1) (\<lambda>n. 2 * length (nd_waitingReads n)))")
    (auto simp: resolve_batch_def Let_def simp del: length_greater_0_conv)

declare startReadBatch.simps [simp del] confirmReadBatch.simps [simp del]

section \<open>The lease\<close>

definition leaseClockJumped :: "int \<Rightarrow> int \<Rightarrow> int \<Rightarrow> bool" where
  "leaseClockJumped wall mon margin \<longleftrightarrow> margin < wall - mon"

text \<open>Also drops a lease that it finds was held across a suspend.\<close>

definition leaseValid :: "instant \<Rightarrow> 'st node \<Rightarrow> bool \<times> 'st node" where
  "leaseValid now n =
    (case nd_leaseExpiry n of
       None \<Rightarrow> (False, n)
     | Some e \<Rightarrow>
         if \<not> snd now < snd e then (False, n)
         else let margin = cfg_LeaseSafetyMargin (nd_cfg n);
                  base = (case nd_leaseBase n of Some b \<Rightarrow> b | None \<Rightarrow> (0, 0))
              in if 0 < margin \<and> leaseClockJumped (fst now - fst base) (snd now - snd base) margin
                 then (False, n\<lparr>nd_leaseExpiry := None\<rparr>)
                 else (True, n))"

section \<open>Requests\<close>

record readIndexMsg =
  rm_resolver :: readIndexResolver
  rm_useLease :: bool

definition handleReadIndex :: "readIndexMsg \<Rightarrow> 'st node \<Rightarrow> 'st node" where
  "handleReadIndex msg n =
    (if nd_state n \<noteq> Leader then emit (OReadReject (rm_resolver msg) (ErrNotLeader (nd_leaderID n))) n
     else if \<not> nd_leaderNopCommitted n then
       (if rm_useLease msg then emit (OReadReject (rm_resolver msg) ErrLeaseExpired) n
        else n\<lparr>nd_pendingReads := nd_pendingReads n @ [rm_resolver msg]\<rparr>)
     else if isSingleVoter n then emit (OReadResolve (rm_resolver msg) (nd_commitIndex n)) n
     else if rm_useLease msg then
       (case leaseValid (nd_now n) n of (ok, n) \<Rightarrow>
          if ok then emit (OReadResolve (rm_resolver msg) (nd_commitIndex n)) n
          else emit (OReadReject (rm_resolver msg) ErrLeaseExpired) n)
     else if nd_readBatchAcks n \<noteq> None then n\<lparr>nd_waitingReads := nd_waitingReads n @ [rm_resolver msg]\<rparr>
     else startReadBatch (n\<lparr>nd_pendingReads := nd_pendingReads n @ [rm_resolver msg]\<rparr>))"

definition handleReadIndexRPC :: "ReadIndexRequest \<Rightarrow> respCh \<Rightarrow> 'st node \<Rightarrow> 'st node" where
  "handleReadIndexRPC req ch n =
    (if nd_currentTerm n < ri_Term req
     then (let n = becomeFollower (ri_Term req) [] n
           in emit (OReply ch PNone (Some (ErrNotLeader (nd_leaderID n)))) n)
     else if nd_state n \<noteq> Leader then emit (OReply ch PNone (Some (ErrNotLeader (nd_leaderID n)))) n
     else handleReadIndex \<lparr>rm_resolver = rpcReadIndexResolver (nd_currentTerm n) ch, rm_useLease = False\<rparr> n)"

end
