(* ===== verification/Node_Send.thy ===== *)
theory Node_Send
  imports Node_Readindex
begin

text \<open>
  The leader's side of replication: the commit rule, heartbeats, batches of entries,
  snapshots for a peer that is too far behind, and peers on their way out
  (\<open>node_replication.go\<close>, \<open>node_snapshot.go\<close> and \<open>node_membership.go\<close>).
\<close>

section \<open>The commit rule\<close>

definition zone_set :: "Config \<Rightarrow> NodeID list \<Rightarrow> ZoneID list" where
  "zone_set cfg ids = remdups (List.map_filter (map_of (cfg_Zones cfg)) ids)"

definition spansEnoughZones :: "'st node \<Rightarrow> Index \<Rightarrow> PeerConfig list \<Rightarrow> bool \<Rightarrow> bool \<Rightarrow> bool" where
  "spansEnoughZones n idx members includeSelf selfVoter =
    (let required = cfg_MinCommitZones (nd_cfg n)
     in if required \<le> 1 then True
        else let self = (if includeSelf \<and> selfVoter \<and> idx \<le> stableIndex (nd_log n) then [cfg_ID (nd_cfg n)] else []);
                 holders = map pc_ID (filter (\<lambda>p. pc_Voter p \<and> idx \<le> matchIndex n (pc_ID p)) members)
             in required \<le> int (length (zone_set (nd_cfg n) (self @ holders))))"

definition replicatedOnMajority :: "'st node \<Rightarrow> Index \<Rightarrow> PeerConfig list \<Rightarrow> bool \<Rightarrow> bool \<Rightarrow> bool" where
  "replicatedOnMajority n idx members includeSelf selfVoter =
    (let cnt = (if includeSelf \<and> selfVoter \<and> idx \<le> stableIndex (nd_log n) then 1 else 0);
         has = (\<lambda>p. idx \<le> matchIndex n (pc_ID p));
         witnessAcks = int (length (filter (\<lambda>p. pc_Voter p \<and> pc_Witness p \<and> has p) members));
         cnt = cnt + int (length (filter (\<lambda>p. pc_Voter p \<and> \<not> pc_Witness p \<and> has p) members));
         fullDown = list_ex (\<lambda>p. pc_Voter p \<and> \<not> pc_Witness p \<and> \<not> has p
                                   \<and> ph_down (gm_get no_health (nd_peerHealth n) (pc_ID p))) members;
         cnt = (if fullDown then cnt + witnessAcks else cnt);
         tot = int (length (filter pc_Voter members)) + (if includeSelf \<and> selfVoter then 1 else 0)
     in if cnt < quorumNeeded commitQuorum (nd_commitQuorumApplied n) (nd_commitQuorumLatest n) tot then False
        else spansEnoughZones n idx members includeSelf selfVoter)"

definition committed_at :: "'st node \<Rightarrow> Index \<Rightarrow> bool" where
  "committed_at n idx =
    (case nd_jointOld n of
       None \<Rightarrow> replicatedOnMajority n idx (cfg_Peers (nd_cfg n)) True (cfg_Voter (nd_cfg n))
     | Some old \<Rightarrow> replicatedOnMajority n idx old True (nd_jointSelfVoterOld n)
         \<and> replicatedOnMajority n idx (nd_jointNew n) (nd_jointIncludeSelf n) (nd_jointSelfVoter n))"

text \<open>The scan from the end of the log down to \<open>lo\<close>, which is at least 1.\<close>

fun commit_scan :: "(Index \<Rightarrow> bool) \<Rightarrow> Index \<Rightarrow> Index \<Rightarrow> Index option" where
  "commit_scan ok lo 0 = None"
| "commit_scan ok lo (Suc i) =
    (if Suc i < lo then None else if ok (Suc i) then Some (Suc i) else commit_scan ok lo i)"

definition maybeAdvanceCommit :: "'st node \<Rightarrow> 'st node" where
  "maybeAdvanceCommit n =
    (if nd_state n \<noteq> Leader \<or> nd_termStartIndex n = 0 then n
     else let lo = nd_commitIndex n + 1;
              lo = (if lo < nd_termStartIndex n then nd_termStartIndex n else lo)
          in case commit_scan (committed_at n) lo (lastLogIndex (nd_log n)) of
               None \<Rightarrow> n
             | Some idx \<Rightarrow>
                 let n = notifyApply (setCommitIndex idx n)
                 in if nd_leaderNopCommitted n then n
                    else let n = n\<lparr>nd_leaderNopCommitted := True\<rparr>
                         in if 0 < length (nd_pendingReads n) then startReadBatch n else n)"

section \<open>Heartbeats\<close>

text \<open>A full channel of size one is drained and refilled; a missing one takes nothing.\<close>

definition heartbeatPeer :: "NodeID \<Rightarrow> 'st node \<Rightarrow> 'st node" where
  "heartbeatPeer p n =
    (let req = barrier_request n p 0
     in if gm_has (nd_hbPumps n) p then n\<lparr>nd_hbPumps := gm_put (nd_hbPumps n) p (Some req)\<rparr> else n)"

definition broadcastHeartbeat :: "'st node \<Rightarrow> 'st node" where
  "broadcastHeartbeat n =
    (let n = fold (\<lambda>p. heartbeatPeer (pc_ID p)) (cfg_Peers (nd_cfg n)) n
     in fold heartbeatPeer (gm_keys (nd_departing n)) n)"

section \<open>Sending a snapshot\<close>

definition witnessSnapshot :: "bytes \<Rightarrow> (snap_error, bytes) outcome" where
  "witnessSnapshot r =
    (case readSnapshotFrame r of
       Ok (frame, _) \<Rightarrow>
         (case writeSnapshotFrame (buffer_write :: bytes \<Rightarrow> bytes \<Rightarrow> (snap_error, bytes) outcome) []
             (frame\<lparr>sf_table := []\<rparr>) (\<lambda>w. Ok w) of
            Ok buf \<Rightarrow> Ok buf
          | Fail (WriteHeader e) \<Rightarrow> Fail e | Fail (WriteTable e) \<Rightarrow> Fail e | Fail (WriteMembership e) \<Rightarrow> Fail e
          | Fail (WriteLimits e) \<Rightarrow> Fail e | Fail (WriteSM e) \<Rightarrow> Fail e
          | Panic \<Rightarrow> Panic)
     | Fail e \<Rightarrow> Fail e
     | Panic \<Rightarrow> Panic)"

definition start_transfer :: "NodeID \<Rightarrow> SnapshotMeta \<Rightarrow> bytes \<Rightarrow> 'st node \<Rightarrow> 'st node" where
  "start_transfer p meta r n =
    (let n = set_snapshotInflight p True n in emit (OSnapshot p meta r (nd_currentTerm n)) n)"

definition sendSnapshotToPeer :: "NodeID \<Rightarrow> 'st node \<Rightarrow> 'st node" where
  "sendSnapshotToPeer p n =
    (if snapshotInflight n p then n
     else case st_LoadSnapshot (sw_ops (rl_w (nd_log n))) (rl_storage (nd_log n)) of
            Ok (meta, r) \<Rightarrow>
              if isWitnessPeer n p
              then (case witnessSnapshot r of
                      Ok r \<Rightarrow> start_transfer p meta r n
                    | Fail _ \<Rightarrow> n
                    | Panic \<Rightarrow> n\<lparr>nd_panic := True\<rparr>)
              else start_transfer p meta r n
          | Fail _ \<Rightarrow> n
          | Panic \<Rightarrow> n\<lparr>nd_panic := True\<rparr>)"

section \<open>Sending entries\<close>

fun cap_scan :: "nat \<Rightarrow> nat \<Rightarrow> nat \<Rightarrow> LogEntry list \<Rightarrow> nat option" where
  "cap_scan budget tot i [] = None"
| "cap_scan budget tot i (e # es) =
    (let tot = tot + length (e_Command e)
     in if budget < tot then Some i else cap_scan budget tot (Suc i) es)"

definition capByBytes :: "LogEntry list \<Rightarrow> nat \<Rightarrow> LogEntry list" where
  "capByBytes es budget =
    (if budget = 0 \<or> length es = 0 then es
     else case cap_scan budget 0 0 es of
            None \<Rightarrow> es
          | Some i \<Rightarrow> if i = 0 then take 1 es else take i es)"

definition endDeparture :: "NodeID \<Rightarrow> 'st node \<Rightarrow> 'st node" where
  "endDeparture p n =
    (let n = stopHBPumpFor p (n\<lparr>nd_departing := gm_del (nd_departing n) p\<rparr>)
     in n\<lparr>nd_nextIndex := gm_del (nd_nextIndex n) p, nd_matchIndex := gm_del (nd_matchIndex n) p,
          nd_inflight := gm_del (nd_inflight n) p, nd_snapshotInflight := gm_del (nd_snapshotInflight n) p,
          nd_peerHealth := gm_del (nd_peerHealth n) p\<rparr>)"

definition shape_entries :: "'st node \<Rightarrow> NodeID \<Rightarrow> LogEntry list \<Rightarrow> LogEntry list" where
  "shape_entries n p es =
    (let es = (if cfg_MaxLogEntriesPerRPC (nd_cfg n) < int (length es)
               then take (nat (cfg_MaxLogEntriesPerRPC (nd_cfg n))) es else es);
         es = (if isWitnessPeer n p then stripForWitness es else es)
     in capByBytes es (cfg_MaxBytesPerRPC (nd_cfg n)))"

definition send_append :: "NodeID \<Rightarrow> Index \<Rightarrow> LogEntry list \<Rightarrow> 'st node \<Rightarrow> 'st node" where
  "send_append p nextIdx es n =
    (let prevIdx = pred64 nextIdx;
         prevTerm = (case termAt (nd_log n) prevIdx of Some t \<Rightarrow> t | None \<Rightarrow> 0);
         req = \<lparr>ae_Term = nd_currentTerm n, ae_LeaderID = cfg_ID (nd_cfg n), ae_PrevLogIndex = prevIdx,
                ae_PrevLogTerm = prevTerm, ae_Entries = es, ae_LeaderCommit = nd_commitIndex n,
                ae_ReadBarrier = 0\<rparr>;
         n = set_inflight p (inflight n p + 1) n
     in emit (OAppend p req) n)"

text \<open>A negative \<open>MaxLogEntriesPerRPC\<close> would panic in the slice expression;
  \<open>Config.Validate\<close> refuses it.\<close>

definition replicateToPeer :: "NodeID \<Rightarrow> 'st node \<Rightarrow> 'st node" where
  "replicateToPeer p n =
    (let nextIdx = nextIndex n p
     in if \<not> canDescribe (nd_log n) (pred64 nextIdx)
        then (if gm_has (nd_departing n) p then endDeparture p n else sendSnapshotToPeer p n)
        else if cfg_MaxInflightRPCs (nd_cfg n) \<le> int (inflight n p) then n
        else if nextIdx \<le> lastLogIndex (nd_log n)
        then (case log_entries (nd_log n) nextIdx (lastLogIndex (nd_log n) + 1) of
                Ok es \<Rightarrow> send_append p nextIdx (shape_entries n p es) n
              | Fail _ \<Rightarrow> n
              | Panic \<Rightarrow> n\<lparr>nd_panic := True\<rparr>)
        else send_append p nextIdx [] n)"

definition replicateToFollowers :: "'st node \<Rightarrow> 'st node" where
  "replicateToFollowers n =
    (let n = fold (\<lambda>p. replicateToPeer (pc_ID p)) (cfg_Peers (nd_cfg n)) n
     in fold replicateToPeer (gm_keys (nd_departing n)) n)"

section \<open>Departing peers\<close>

definition departureGraceTicks :: int where "departureGraceTicks = 4"

definition beginDeparture :: "NodeID \<Rightarrow> Index \<Rightarrow> 'st node \<Rightarrow> 'st node" where
  "beginDeparture p index n =
    (if nd_state n \<noteq> Leader then n
     else let l = (case nd_departing n of None \<Rightarrow> [] | Some l \<Rightarrow> l)
          in replicateToPeer p (n\<lparr>nd_departing := Some (al_put p \<lparr>dep_index = index, dep_elapsed = 0\<rparr> l)\<rparr>))"

definition tick_departure :: "NodeID \<times> departure \<Rightarrow> 'st node \<Rightarrow> 'st node" where
  "tick_departure pd n =
    (case pd of (p, d) \<Rightarrow>
      let d = d\<lparr>dep_elapsed := dep_elapsed d + 1\<rparr>
      in if dep_elapsed d < departureGraceTicks * nd_electionMaxTicks n
         then n\<lparr>nd_departing := gm_put (nd_departing n) p d\<rparr>
         else endDeparture p n)"

definition tickDepartures :: "'st node \<Rightarrow> 'st node" where
  "tickDepartures n = (case nd_departing n of None \<Rightarrow> n | Some l \<Rightarrow> fold tick_departure l n)"

end
