(* ===== verification/Node_Membership.thy ===== *)
theory Node_Membership
  imports Node_Send
begin

text \<open>
  The membership a node counts by (\<open>node_membership.go\<close>): taking it from a snapshot and
  the log, the effect of each kind of configuration entry, the second phase of a joint
  change and the leader's view of its peers' progress.  The atomic mirror
  \<open>storeMembership\<close> fills always equals the fields it copies.
\<close>

section \<open>Lists of members\<close>

definition withSelf :: "PeerConfig list \<Rightarrow> NodeID \<Rightarrow> bool \<Rightarrow> bool \<Rightarrow> bool \<Rightarrow> PeerConfig list" where
  "withSelf peers self present voter witness =
    (if present then [\<lparr>pc_ID = self, pc_Voter = voter, pc_Witness = witness\<rparr>] else []) @ peers"

fun splitSelf :: "PeerConfig list \<Rightarrow> NodeID \<Rightarrow> PeerConfig list \<times> bool \<times> bool" where
  "splitSelf [] self = ([], False, False)"
| "splitSelf (m # ms) self =
    (case splitSelf ms self of (peers, present, voter) \<Rightarrow>
      if pc_ID m = self then (peers, True, if present then voter else pc_Voter m)
      else (m # peers, present, voter))"

fun selfWitnessIn :: "PeerConfig list \<Rightarrow> NodeID \<Rightarrow> bool \<times> bool" where
  "selfWitnessIn [] self = (False, False)"
| "selfWitnessIn (m # ms) self = (if pc_ID m = self then (True, pc_Witness m) else selfWitnessIn ms self)"

fun union_scan :: "NodeID \<Rightarrow> NodeID list \<Rightarrow> PeerConfig list \<Rightarrow> PeerConfig list" where
  "union_scan self seen [] = []"
| "union_scan self seen (p # ps) =
    (if pc_ID p \<noteq> self \<and> pc_ID p \<notin> set seen then p # union_scan self (pc_ID p # seen) ps
     else union_scan self seen ps)"

definition peerUnion :: "PeerConfig list \<Rightarrow> PeerConfig list \<Rightarrow> NodeID \<Rightarrow> PeerConfig list" where
  "peerUnion a b self = union_scan self [] (a @ b)"

section \<open>The membership in effect\<close>

definition currentMembership :: "'st node \<Rightarrow> membershipState" where
  "currentMembership n =
    (let cfg = nd_cfg n
     in case nd_jointOld n of
          Some old \<Rightarrow>
            \<lparr>ms_joint = True, ms_members = [],
             ms_old = withSelf old (cfg_ID cfg) True (nd_jointSelfVoterOld n) (cfg_Witness cfg),
             ms_new = withSelf (nd_jointNew n) (cfg_ID cfg) (nd_jointIncludeSelf n) (nd_jointSelfVoter n) (cfg_Witness cfg),
             ms_commitQuorum = nd_commitQuorumApplied n\<rparr>
        | None \<Rightarrow>
            \<lparr>ms_joint = False,
             ms_members = withSelf (cfg_Peers cfg) (cfg_ID cfg) True (cfg_Voter cfg) (cfg_Witness cfg),
             ms_old = [], ms_new = [], ms_commitQuorum = nd_commitQuorumApplied n\<rparr>)"

definition restoreMembership :: "membershipState \<Rightarrow> 'st node \<Rightarrow> 'st node" where
  "restoreMembership ms n =
    (let n = n\<lparr>nd_commitQuorumLatest := ms_commitQuorum ms\<rparr>; self = cfg_ID (nd_cfg n)
     in if \<not> ms_joint ms then
          (case splitSelf (ms_members ms) self of (peers, present, voter) \<Rightarrow>
            let n = (if present then n\<lparr>nd_membershipWitness := snd (selfWitnessIn (ms_members ms) self)\<rparr> else n)
            in n\<lparr>nd_cfg := (nd_cfg n)\<lparr>cfg_Peers := peers, cfg_Voter := (present \<and> voter)\<rparr>,
                 nd_jointOld := None, nd_jointNew := [], nd_jointIncludeSelf := False,
                 nd_jointSelfVoter := False, nd_jointSelfVoterOld := False\<rparr>)
        else
          (case splitSelf (ms_old ms) self of (oldPeers, _, oldVoter) \<Rightarrow>
           case splitSelf (ms_new ms) self of (newPeers, inNew, newVoter) \<Rightarrow>
            let n = (if fst (selfWitnessIn (ms_old ms) self)
                     then n\<lparr>nd_membershipWitness := snd (selfWitnessIn (ms_old ms) self)\<rparr> else n)
            in n\<lparr>nd_jointOld := Some oldPeers, nd_jointNew := newPeers, nd_jointSelfVoterOld := oldVoter,
                 nd_jointIncludeSelf := inNew, nd_jointSelfVoter := newVoter,
                 nd_cfg := (nd_cfg n)\<lparr>cfg_Voter := oldVoter, cfg_Peers := peerUnion oldPeers newPeers self\<rparr>\<rparr>))"

section \<open>Configuration entries\<close>

definition track_new_peer :: "Index \<Rightarrow> PeerConfig \<Rightarrow> 'st node \<Rightarrow> 'st node" where
  "track_new_peer nextIdx p n =
    (if gm_has (nd_nextIndex n) (pc_ID p) then n
     else startHBPumpFor (pc_ID p) (set_matchIndex (pc_ID p) 0 (set_nextIndex (pc_ID p) nextIdx n)))"

definition adopt_add :: "PeerConfig \<Rightarrow> 'st node \<Rightarrow> 'st node" where
  "adopt_add peer n =
    (if pc_ID peer = cfg_ID (nd_cfg n)
     then n\<lparr>nd_membershipWitness := pc_Witness peer, nd_cfg := (nd_cfg n)\<lparr>cfg_Voter := pc_Voter peer\<rparr>\<rparr>
     else case indexOfPeer (cfg_Peers (nd_cfg n)) (pc_ID peer) of
            Some i \<Rightarrow>
              if pc_Voter (cfg_Peers (nd_cfg n) ! i) \<noteq> pc_Voter peer
              then let n = n\<lparr>nd_cfg := (nd_cfg n)\<lparr>cfg_Peers :=
                         (cfg_Peers (nd_cfg n))[i := (cfg_Peers (nd_cfg n) ! i)\<lparr>pc_Voter := pc_Voter peer\<rparr>]\<rparr>\<rparr>
                   in if nd_state n = Leader then maybeAdvanceCommit n else n
              else n
          | None \<Rightarrow>
              let n = n\<lparr>nd_cfg := (nd_cfg n)\<lparr>cfg_Peers := cfg_Peers (nd_cfg n) @ [peer]\<rparr>\<rparr>
              in if nd_state n = Leader
                 then (if gm_has (nd_departing n) (pc_ID peer)
                       then n\<lparr>nd_departing := gm_del (nd_departing n) (pc_ID peer)\<rparr>
                       else startHBPumpFor (pc_ID peer) (set_matchIndex (pc_ID peer) 0
                              (set_nextIndex (pc_ID peer) (lastLogIndex (nd_log n) + 1) n)))
                 else n)"

definition adopt_remove :: "NodeID \<Rightarrow> Index \<Rightarrow> 'st node \<Rightarrow> 'st node" where
  "adopt_remove i index n =
    (if i = cfg_ID (nd_cfg n) then n\<lparr>nd_cfg := (nd_cfg n)\<lparr>cfg_Voter := False\<rparr>\<rparr>
     else let ps = cfg_Peers (nd_cfg n);
              ps = (case indexOfPeer ps i of Some k \<Rightarrow> take k ps @ drop (Suc k) ps | None \<Rightarrow> ps);
              n = n\<lparr>nd_cfg := (nd_cfg n)\<lparr>cfg_Peers := ps\<rparr>\<rparr>
          in if nd_state n = Leader then maybeAdvanceCommit (beginDeparture i index n) else n)"

definition adopt_joint :: "PeerConfig list \<Rightarrow> PeerConfig list \<Rightarrow> 'st node \<Rightarrow> 'st node" where
  "adopt_joint old new n =
    (let cfg = nd_cfg n;
         n = restoreMembership \<lparr>ms_joint = True, ms_members = [],
               ms_old = withSelf old (cfg_ID cfg) True (cfg_Voter cfg) (cfg_Witness cfg),
               ms_new = new, ms_commitQuorum = 0\<rparr> n
     in if nd_state n = Leader
        then fold (track_new_peer (lastLogIndex (nd_log n) + 1)) (cfg_Peers (nd_cfg n)) n
        else n)"

definition adopt_finalise :: "PeerConfig list \<Rightarrow> Index \<Rightarrow> 'st node \<Rightarrow> 'st node" where
  "adopt_finalise members index n =
    (let oldPeers = cfg_Peers (nd_cfg n);
         n = restoreMembership \<lparr>ms_joint = False, ms_members = members, ms_old = [], ms_new = [],
               ms_commitQuorum = 0\<rparr> n
     in if nd_state n = Leader
        then maybeAdvanceCommit
               (fold (\<lambda>p n. if containsPeer (cfg_Peers (nd_cfg n)) (pc_ID p) then n
                            else beginDeparture (pc_ID p) index n) oldPeers n)
        else n)"

definition adoptConfigEntry :: "bytes \<Rightarrow> Index \<Rightarrow> 'st node \<Rightarrow> 'st node" where
  "adoptConfigEntry cmd index n =
    (case decodeConfigEntry cmd of
       Ok (op, peer) \<Rightarrow>
         (let n = n\<lparr>nd_configIndex := index\<rparr>
          in if op = configOpClientTableCap then n\<lparr>nd_clientTableCapReplicated := True\<rparr>
             else if op = configOpCommitQuorum then
               (case decodeCommitQuorumEntry cmd of
                  Ok q \<Rightarrow> (let n = n\<lparr>nd_commitQuorumLatest := q\<rparr>
                           in if nd_state n = Leader then maybeAdvanceCommit n else n)
                | _ \<Rightarrow> n)
             else if op = configOpAdd then adopt_add peer n
             else if op = configOpRemove then adopt_remove (pc_ID peer) index n
             else if op = configOpJoint then
               (case decodeJointConfigEntry cmd of Ok (old, new) \<Rightarrow> adopt_joint old new n | _ \<Rightarrow> n)
             else if op = configOpFinalise then
               (case decodeFinaliseConfigEntry cmd of Ok members \<Rightarrow> adopt_finalise members index n | _ \<Rightarrow> n)
             else n)
     | _ \<Rightarrow> n)"

definition rebuild_batch :: nat where "rebuild_batch = 1024"

definition adopt_entries :: "LogEntry list \<Rightarrow> 'st node \<Rightarrow> 'st node" where
  "adopt_entries es n =
    fold (\<lambda>e n. if isConfigEntry (e_Command e) then adoptConfigEntry (e_Command e) (e_Index e) n else n) es n"

text \<open>The bounds of the log are read once, before the loop.\<close>

function rebuild_loop :: "Index \<Rightarrow> Index \<Rightarrow> 'st node \<Rightarrow> 'st node \<times> unit result" where
  "rebuild_loop lo l n =
    (if l < lo then (n, Ok ())
     else case log_entries (nd_log n) lo (min (lo + rebuild_batch) (l + 1)) of
            Ok es \<Rightarrow> rebuild_loop (lo + rebuild_batch) l (adopt_entries es n)
          | Fail e \<Rightarrow> (n, Fail e)
          | Panic \<Rightarrow> (n, Panic))"
  by pat_completeness auto
termination
  by (relation "measure (\<lambda>(lo, l, _). Suc l - lo)") (auto simp: rebuild_batch_def)

declare rebuild_loop.simps [simp del]

definition rebuildMembership :: "'st node \<Rightarrow> 'st node \<times> unit result" where
  "rebuildMembership n =
    (let n = restoreMembership (nd_baseMembership n) n;
         n = n\<lparr>nd_configIndex := snap_index (nd_log n), nd_clientTableCapReplicated := nd_hasBaseClientTableCap n,
               nd_commitQuorumLatest := ms_commitQuorum (nd_baseMembership n)\<rparr>;
         f = rl_first (nd_log n); l = rl_last (nd_log n)
     in if f = 0 \<or> l < f then (n, Ok ()) else rebuild_loop f l n)"

section \<open>A committed configuration entry\<close>

definition appendFinaliseEntry :: "PeerConfig list \<Rightarrow> bool \<Rightarrow> bool \<Rightarrow> 'st node \<Rightarrow> 'st node" where
  "appendFinaliseEntry newPeers includeSelf selfVoter n =
    (let cfg = nd_cfg n;
         allNew = withSelf newPeers (cfg_ID cfg) includeSelf selfVoter (cfg_Witness cfg);
         idx = lastLogIndex (nd_log n) + 1
     in case appendOne (nd_log n) \<lparr>e_Index = idx, e_Term = nd_currentTerm n,
               e_Command = encodeFinaliseConfigEntry allNew\<rparr> of (rl, s) \<Rightarrow>
          let n = n\<lparr>nd_log := rl, nd_pendingConfigIndex := idx\<rparr>;
              n = afterWrite s (DFinalise idx) n
          in maybeAdvanceCommit (replicateToFollowers n))"

definition witnessMismatch :: "bool \<Rightarrow> 'st node \<Rightarrow> 'st node" where
  "witnessMismatch says n = (if says \<and> \<not> cfg_Witness (nd_cfg n) then node_fail ErrWitnessMismatch n else n)"

definition notifyRemoved :: "'st node \<Rightarrow> 'st node" where
  "notifyRemoved n = (if nd_removedNotified n then n else emit ORemoved (n\<lparr>nd_removedNotified := True\<rparr>))"

definition adoptClientTableCap :: "int \<Rightarrow> 'st node \<Rightarrow> 'st node" where
  "adoptClientTableCap capacity n =
    (case lru_setCap (nd_clientTable n) capacity of (tab, gone) \<Rightarrow>
      n\<lparr>nd_clientTableCap := capacity, nd_clientTableCapAgreed := True, nd_clientTableCapReplicated := True,
        nd_clientTable := tab, nd_clientsForgotten := nd_clientsForgotten n + length gone\<rparr>)"

definition adoptCommitQuorum :: "int \<Rightarrow> 'st node \<Rightarrow> 'st node" where
  "adoptCommitQuorum q n = n\<lparr>nd_commitQuorumApplied := q, nd_commitQuorumAgreed := True\<rparr>"

definition leave_cluster :: "'st node \<Rightarrow> 'st node" where
  "leave_cluster n = notifyRemoved (becomeFollower (nd_currentTerm n) [] n)"

definition applyConfigChange :: "bytes \<Rightarrow> Index \<Rightarrow> 'st node \<Rightarrow> 'st node" where
  "applyConfigChange cmd index n =
    (case decodeConfigEntry cmd of
       Ok (op, peer) \<Rightarrow>
         (let n = adoptConfigEntry cmd index n;
              n = (if nd_membershipWitness n \<noteq> cfg_Witness (nd_cfg n) then witnessMismatch (nd_membershipWitness n) n else n)
          in if op = configOpClientTableCap then
               (let n = (case decodeClientTableCapEntry cmd of Ok c \<Rightarrow> adoptClientTableCap c n | _ \<Rightarrow> n)
                in if nd_capEntryPending n = index then n\<lparr>nd_capEntryPending := 0\<rparr> else n)
             else if op = configOpCommitQuorum then
               (let n = (case decodeCommitQuorumEntry cmd of
                           Ok q \<Rightarrow> (let n = adoptCommitQuorum q n
                                    in if nd_state n = Leader then maybeAdvanceCommit n else n)
                         | _ \<Rightarrow> n)
                in if nd_quorumEntryPending n = index then n\<lparr>nd_quorumEntryPending := 0\<rparr> else n)
             else if op = configOpRemove then
               (if pc_ID peer = cfg_ID (nd_cfg n) then leave_cluster n else n)
             else if op = configOpJoint then
               (if nd_state n = Leader \<and> nd_jointOld n \<noteq> None
                then appendFinaliseEntry (nd_jointNew n) (nd_jointIncludeSelf n) (nd_jointSelfVoter n) n else n)
             else if op = configOpFinalise then
               (case decodeFinaliseConfigEntry cmd of
                  Ok members \<Rightarrow> if \<not> containsPeer members (cfg_ID (nd_cfg n)) then leave_cluster n else n
                | _ \<Rightarrow> n)
             else n)
     | _ \<Rightarrow> n)"

definition note_entry :: "LogEntry \<Rightarrow> 'st node \<Rightarrow> 'st node" where
  "note_entry e n =
    (let cmd = e_Command e
     in if \<not> isConfigEntry cmd then n
        else case decodeCommitQuorumEntry cmd of
               Ok q \<Rightarrow> n\<lparr>nd_commitQuorumLatest := q\<rparr>
             | _ \<Rightarrow> (case decodeClientTableCapEntry cmd of
                       Ok _ \<Rightarrow> n\<lparr>nd_clientTableCapReplicated := True\<rparr>
                     | _ \<Rightarrow> n))"

definition noteAppendedConfig :: "LogEntry list \<Rightarrow> 'st node \<Rightarrow> 'st node" where
  "noteAppendedConfig es n = fold note_entry es n"

section \<open>Progress and promotion\<close>

record PeerProgress =
  pp_ID :: NodeID
  pp_Voter :: bool
  pp_Witness :: bool
  pp_MatchIndex :: Index
  pp_NextIndex :: Index
  pp_LeaderLastIndex :: Index
  pp_SendingSnapshot :: bool

definition Lag :: "PeerProgress \<Rightarrow> nat" where
  "Lag p = (if pp_LeaderLastIndex p \<le> pp_MatchIndex p then 0 else pp_LeaderLastIndex p - pp_MatchIndex p)"

definition replicationProgress :: "'st node \<Rightarrow> PeerProgress list option" where
  "replicationProgress n =
    (if nd_state n \<noteq> Leader then None
     else Some (map (\<lambda>p. \<lparr>pp_ID = pc_ID p, pp_Voter = pc_Voter p, pp_Witness = pc_Witness p,
                         pp_MatchIndex = matchIndex n (pc_ID p), pp_NextIndex = nextIndex n (pc_ID p),
                         pp_LeaderLastIndex = lastLogIndex (nd_log n),
                         pp_SendingSnapshot = snapshotInflight n (pc_ID p)\<rparr>) (cfg_Peers (nd_cfg n))))"

fun memberRole :: "PeerConfig list \<Rightarrow> NodeID \<Rightarrow> bool \<times> bool" where
  "memberRole [] i = (False, False)"
| "memberRole (m # ms) i = (if pc_ID m = i then (True, pc_Voter m) else memberRole ms i)"

text \<open>What a call to promote a member comes to: an error, nothing to do, or a change to
  propose.\<close>

datatype promotion = PromoteError raft_error | PromoteDone | PromotePropose PeerConfig

fun promote_scan :: "NodeID \<Rightarrow> nat \<Rightarrow> PeerProgress list \<Rightarrow> promotion" where
  "promote_scan i maxLag [] = PromoteError ErrNotMember"
| "promote_scan i maxLag (p # ps) =
    (if pp_ID p \<noteq> i then promote_scan i maxLag ps
     else if pp_Voter p then PromoteDone
     else if maxLag < Lag p then PromoteError ErrMemberNotCaughtUp
     else PromotePropose \<lparr>pc_ID = i, pc_Voter = True, pc_Witness = False\<rparr>)"

definition PromoteMember :: "NodeID \<Rightarrow> nat \<Rightarrow> 'st node \<Rightarrow> promotion" where
  "PromoteMember i maxLag n =
    (case replicationProgress n of
       None \<Rightarrow> PromoteError (ErrNotLeader (nd_leaderID n))
     | Some ps \<Rightarrow> promote_scan i maxLag ps)"

end
