(* ===== verification/Node_Election.thy ===== *)
theory Node_Election
  imports Node_Membership
begin

text \<open>
  Elections (\<open>node_election.go\<close>, \<open>node_transitions.go\<close>) and the release of work whose
  write has completed, which can be the start of a candidacy (\<open>node.go\<close>).
\<close>

section \<open>Becoming leader or candidate\<close>

definition noop_entry :: "'st node \<Rightarrow> LogEntry" where
  "noop_entry n = \<lparr>e_Index = lastLogIndex (nd_log n) + 1, e_Term = nd_currentTerm n, e_Command = []\<rparr>"

definition becomeLeader :: "'st node \<Rightarrow> 'st node" where
  "becomeLeader n =
    (let n = setLeaderID (cfg_ID (nd_cfg n)) (setState Leader n);
         n = n\<lparr>nd_heartbeatElapsed := 0, nd_leaderNopCommitted := False, nd_quorumAcks := Some [],
               nd_leaderQuorumElapsed := 0, nd_departing := None\<rparr>;
         nextIdx = lastLogIndex (nd_log n) + 1;
         n = n\<lparr>nd_nextIndex := Some [], nd_matchIndex := Some [], nd_inflight := Some [],
               nd_snapshotInflight := Some [], nd_peerHealth := None\<rparr>;
         n = fold (\<lambda>p n. set_matchIndex (pc_ID p) 0 (set_nextIndex (pc_ID p) nextIdx n)) (cfg_Peers (nd_cfg n)) n;
         n = startHBPumps n;
         noop = noop_entry n
     in case appendOne (nd_log n) noop of (rl, _) \<Rightarrow>
          let n = n\<lparr>nd_log := rl, nd_termStartIndex := e_Index noop\<rparr>;
              n = broadcastHeartbeat n;
              n = maybeAdvanceCommit n
          in if nd_jointOld n \<noteq> None \<and> nd_configIndex n \<le> nd_commitIndex n
             then appendFinaliseEntry (nd_jointNew n) (nd_jointIncludeSelf n) (nd_jointSelfVoter n) n
             else n)"

definition vote_request :: "bool \<Rightarrow> 'st node \<Rightarrow> RequestVoteRequest" where
  "vote_request preVote n =
    \<lparr>rv_Term = (if preVote then nd_currentTerm n + 1 else nd_currentTerm n), rv_CandidateID = cfg_ID (nd_cfg n),
     rv_LastLogIndex = lastLogIndex (nd_log n), rv_LastLogTerm = lastLogTerm (nd_log n), rv_PreVote = preVote\<rparr>"

definition broadcastRequestVote :: "bool \<Rightarrow> 'st node \<Rightarrow> 'st node" where
  "broadcastRequestVote preVote n =
    fold (\<lambda>p n. if pc_Voter p then emit (OVote (pc_ID p) (vote_request preVote n)) n else n)
      (cfg_Peers (nd_cfg n)) n"

fun run_deferred :: "deferred \<Rightarrow> 'st node \<Rightarrow> 'st node" where
  "run_deferred (DCandidate newTerm) n =
    (if nd_state n \<noteq> Candidate \<or> nd_currentTerm n \<noteq> newTerm then n
     else if isSingleVoter n then becomeLeader n
     else broadcastRequestVote False n)"
| "run_deferred (DReply ch resp err) n = run_simple (DReply ch resp err) n"
| "run_deferred (DPropose is) n = run_simple (DPropose is) n"
| "run_deferred (DFinalise i) n = run_simple (DFinalise i) n"

definition becomeCandidate :: "'st node \<Rightarrow> 'st node" where
  "becomeCandidate n =
    (let newTerm = nd_currentTerm n + 1
     in case saveTerm newTerm (cfg_ID (nd_cfg n)) n of (n, s) \<Rightarrow>
          let n = setLeaderID [] (setState Candidate n);
              n = n\<lparr>nd_nextIndex := None, nd_matchIndex := None, nd_receivedVoteSet := Some []\<rparr>;
              n = resetElectionTimeout n
          in afterWrite_with run_deferred s (DCandidate newTerm) n)"

definition becomePreCandidate :: "'st node \<Rightarrow> 'st node" where
  "becomePreCandidate n =
    (let n = setLeaderID [] (setState PreCandidate n);
         n = n\<lparr>nd_nextIndex := None, nd_matchIndex := None, nd_receivedVoteSet := Some []\<rparr>;
         n = resetElectionTimeout n
     in if isSingleVoter n then becomeCandidate n else broadcastRequestVote True n)"

definition triggerElection :: "'st node \<Rightarrow> 'st node" where
  "triggerElection n = (if nd_state n = Candidate then becomeCandidate n else becomePreCandidate n)"

section \<open>Voting\<close>

definition vote_response :: "Term \<Rightarrow> bool \<Rightarrow> rpcResponse" where
  "vote_response t granted = PVote \<lparr>rvr_Term = t, rvr_VoteGranted = granted\<rparr>"

definition handle_pre_vote :: "RequestVoteRequest \<Rightarrow> respCh \<Rightarrow> 'st node \<Rightarrow> 'st node" where
  "handle_pre_vote req ch n =
    (if \<not> cfg_Voter (nd_cfg n) then emit (OReply ch (vote_response (nd_currentTerm n) False) None) n
     else let logOK = isUpToDate (nd_log n) (rv_LastLogIndex req) (rv_LastLogTerm req);
              heardFromLeader = (nd_state n = Leader \<or>
                (nd_state n = Follower \<and> nd_electionElapsed n < nd_electionTimeout n));
              granted = (nd_currentTerm n < rv_Term req \<and> logOK \<and> \<not> heardFromLeader)
          in emit (OReply ch (vote_response (nd_currentTerm n) granted) None) n)"

definition handleRequestVote :: "RequestVoteRequest \<Rightarrow> respCh \<Rightarrow> 'st node \<Rightarrow> 'st node" where
  "handleRequestVote req ch n =
    (if rv_PreVote req then handle_pre_vote req ch n
     else if nd_currentTerm n < rv_Term req then
       (if \<not> cfg_Voter (nd_cfg n)
        then let n = applyFollowerTransition [] (fst (saveTerm (rv_Term req) [] n))
             in replyWhenDurable ch (vote_response (nd_currentTerm n) False) 0 n
        else let logOK = isUpToDate (nd_log n) (rv_LastLogIndex req) (rv_LastLogTerm req);
                 votedFor = (if logOK then rv_CandidateID req else []);
                 n = applyFollowerTransition [] (fst (saveTerm (rv_Term req) votedFor n))
             in replyWhenDurable ch (vote_response (nd_currentTerm n) logOK) 0 n)
     else let resp = vote_response (nd_currentTerm n)
          in if rv_Term req < nd_currentTerm n then replyWhenDurable ch (resp False) 0 n
             else if \<not> cfg_Voter (nd_cfg n) then replyWhenDurable ch (resp False) 0 n
             else let alreadyVoted = (nd_votedFor n \<noteq> [] \<and> nd_votedFor n \<noteq> rv_CandidateID req);
                      logOK = isUpToDate (nd_log n) (rv_LastLogIndex req) (rv_LastLogTerm req)
                  in if \<not> alreadyVoted \<and> logOK
                     then replyWhenDurable ch (resp True) 0
                            (resetElectionTimeout (fst (saveTerm (rv_Term req) (rv_CandidateID req) n)))
                     else replyWhenDurable ch (resp False) 0 n)"

section \<open>Counting votes\<close>

record voteResult =
  vr_peerID :: NodeID
  vr_term :: Term
  vr_voteGranted :: bool
  vr_electionTerm :: Term
  vr_preVote :: bool

definition electionWon :: "'st node \<Rightarrow> bool" where
  "electionWon n =
    (case nd_jointOld n of
       None \<Rightarrow> hasQuorumAck n electionQuorum (nd_receivedVoteSet n) (cfg_Peers (nd_cfg n)) True (cfg_Voter (nd_cfg n))
     | Some old \<Rightarrow>
         hasQuorumAck n electionQuorum (nd_receivedVoteSet n) old True (nd_jointSelfVoterOld n)
         \<and> hasQuorumAck n electionQuorum (nd_receivedVoteSet n) (nd_jointNew n) (nd_jointIncludeSelf n)
             (nd_jointSelfVoter n))"

definition handleVoteResult :: "voteResult \<Rightarrow> 'st node \<Rightarrow> 'st node" where
  "handleVoteResult r n =
    (if vr_preVote r then
       (if nd_state n \<noteq> PreCandidate \<or> vr_electionTerm r \<noteq> nd_currentTerm n + 1 then n
        else if nd_currentTerm n < vr_term r then becomeFollower (vr_term r) [] n
        else if vr_voteGranted r
        then (let n = set_receivedVote (vr_peerID r) n in if electionWon n then becomeCandidate n else n)
        else n)
     else if nd_currentTerm n < vr_term r then becomeFollower (vr_term r) [] n
     else if nd_state n \<noteq> Candidate \<or> vr_term r < nd_currentTerm n then n
     else if vr_voteGranted r
     then (let n = set_receivedVote (vr_peerID r) n in if electionWon n then becomeLeader n else n)
     else n)"

section \<open>Completed writes\<close>

definition run_released :: "nat \<Rightarrow> deferredWrite list \<Rightarrow> 'st node \<Rightarrow> 'st node" where
  "run_released s ds n = fold (\<lambda>d. run_deferred (dw_work d)) (filter (\<lambda>d. dw_seq d \<le> s) ds) n"

definition runDeferredWrites :: "nat \<Rightarrow> 'st node \<Rightarrow> 'st node" where
  "runDeferredWrites s n =
    (let pending = nd_deferredWrites n;
         n = run_released s pending (n\<lparr>nd_deferredWrites := []\<rparr>)
     in n\<lparr>nd_deferredWrites := filter (\<lambda>d. s < dw_seq d) pending @ nd_deferredWrites n\<rparr>)"

definition onDurableAdvanced :: "'st node \<Rightarrow> 'st node" where
  "onDurableAdvanced n =
    (let n = notifyApply n;
         n = (if nd_state n = Leader then maybeAdvanceCommit n else n)
     in maybeRecordCommit n)"

definition complete_write :: "writeDone \<Rightarrow> 'st node \<Rightarrow> 'st node" where
  "complete_write d n =
    (let bump = (\<lambda>n. if nd_completedWriteSeq n < wd_seq d then n\<lparr>nd_completedWriteSeq := wd_seq d\<rparr> else n)
     in case wd_err d of
          Some err \<Rightarrow> failDeferredWrites err (node_fail err (bump n))
        | None \<Rightarrow>
            let n = bump (n\<lparr>nd_log := stabilize (nd_log n) d\<rparr>);
                n = (if nd_unsafeTermSeq n \<noteq> 0 \<and> nd_unsafeTermSeq n \<le> wd_seq d
                     then n\<lparr>nd_unsafeTermSeq := 0, nd_durableTerm := nd_currentTerm n\<rparr> else n)
            in runDeferredWrites (wd_seq d) n)"

definition handleWriteCompletions :: "'st node \<Rightarrow> 'st node" where
  "handleWriteCompletions n =
    (case takeDone (rl_w (nd_log n)) of (ds, w) \<Rightarrow>
      if length ds = 0 then n
      else onDurableAdvanced (fold complete_write ds (n\<lparr>nd_log := (nd_log n)\<lparr>rl_w := w\<rparr>\<rparr>)))"

end
