(* ===== verification/Node_Replication.thy ===== *)
theory Node_Replication
  imports Node_Election
begin

text \<open>
  The two ends of AppendEntries: the follower's handler and the leader's handling of
  the answer (\<open>node_replication.go\<close>), with leadership transfer (\<open>node_transfer.go\<close>), which
  the answer can trigger.
\<close>

section \<open>The follower\<close>

definition append_response :: "Term \<Rightarrow> bool \<Rightarrow> Index \<Rightarrow> Term \<Rightarrow> rpcResponse" where
  "append_response t ok ci ct =
    PAppend \<lparr>aer_Term = t, aer_Success = ok, aer_ConflictIndex = ci, aer_ConflictTerm = ct\<rparr>"

text \<open>The mismatch at \<open>PrevLogIndex\<close>, as the conflict index and term of the answer.\<close>

definition prev_conflict :: "'st raftLog \<Rightarrow> AppendEntriesRequest \<Rightarrow> (Index \<times> Term) option" where
  "prev_conflict rl req =
    (if ae_PrevLogIndex req = 0 then None
     else let prevTerm = (case termAt rl (ae_PrevLogIndex req) of Some t \<Rightarrow> t | None \<Rightarrow> 0)
          in if prevTerm = ae_PrevLogTerm req then None
             else if prevTerm = 0 then Some (lastLogIndex rl + 1, 0)
             else let ci = termRunStart rl (ae_PrevLogIndex req)
                  in Some (if ci = 0 then ae_PrevLogIndex req else ci, prevTerm))"

datatype merge_outcome = Merged nat | TruncateFailed raft_error | RebuildFailed raft_error | MergePanic

definition append_tail :: "LogEntry list \<Rightarrow> 'st node \<Rightarrow> 'st node \<times> merge_outcome" where
  "append_tail es n = (case log_append (nd_log n) es of (rl, s) \<Rightarrow> (n\<lparr>nd_log := rl\<rparr>, Merged s))"

fun merge_entries :: "LogEntry list \<Rightarrow> 'st node \<Rightarrow> 'st node \<times> merge_outcome" where
  "merge_entries [] n = (n, Merged 0)"
| "merge_entries (e # es) n =
    (case termAt (nd_log n) (e_Index e) of
       None \<Rightarrow> append_tail (e # es) n
     | Some t \<Rightarrow>
         if t = e_Term e then merge_entries es n
         else case truncateSuffix (nd_log n) (e_Index e) of
                Fail err \<Rightarrow> (node_fail err n, TruncateFailed err)
              | Panic \<Rightarrow> (n\<lparr>nd_panic := True\<rparr>, MergePanic)
              | Ok rl \<Rightarrow>
                  let n = n\<lparr>nd_log := rl\<rparr>
                  in if e_Index e \<le> nd_configIndex n
                     then (case rebuildMembership n of
                             (n, Ok _) \<Rightarrow> append_tail (e # es) n
                           | (n, Fail err) \<Rightarrow> (n, RebuildFailed err)
                           | (n, Panic) \<Rightarrow> (n\<lparr>nd_panic := True\<rparr>, MergePanic))
                     else append_tail (e # es) n)"

definition accept_entries :: "AppendEntriesRequest \<Rightarrow> LogEntry list \<Rightarrow> nat \<Rightarrow> respCh \<Rightarrow> 'st node \<Rightarrow> 'st node" where
  "accept_entries req es writeSeq ch n =
    (let n = noteAppendedConfig es n;
         lastCovered = ae_PrevLogIndex req + length es;
         newCommit = min (ae_LeaderCommit req) lastCovered;
         n = (if nd_commitIndex n < newCommit then notifyApply (setCommitIndex newCommit n) else n);
         covering = writeSeqCovering (nd_log n) lastCovered;
         gate = (if 0 < length es \<and> writeSeq < covering then covering else writeSeq)
     in replyWhenDurable ch (append_response (nd_currentTerm n) True 0 0) gate n)"

definition handleAppendEntries :: "AppendEntriesRequest \<Rightarrow> respCh \<Rightarrow> 'st node \<Rightarrow> 'st node" where
  "handleAppendEntries req ch n =
    (if ae_Term req < nd_currentTerm n
     then replyWhenDurable ch (append_response (nd_currentTerm n) False 0 0) 0 n
     else
       let n = becomeFollower (ae_Term req) (ae_LeaderID req) n
       in case prev_conflict (nd_log n) req of
            Some (ci, ct) \<Rightarrow> replyWhenDurable ch (append_response (nd_currentTerm n) False ci ct) 0 n
          | None \<Rightarrow>
              if 0 < unstableLimit n \<and> 0 < length (ae_Entries req) \<and> unstableLimit n \<le> unstableSize (nd_log n)
              then emit (OReply ch (append_response (nd_currentTerm n) False 0 0) (Some ErrWriteBacklogFull)) n
              else
                let es = (if cfg_Witness (nd_cfg n) \<and> 0 < length (ae_Entries req)
                          then stripForWitness (ae_Entries req) else ae_Entries req)
                in case merge_entries es n of
                     (n, Merged s) \<Rightarrow> accept_entries req es s ch n
                   | (n, TruncateFailed err) \<Rightarrow>
                       emit (OReply ch (append_response (nd_currentTerm n) False 0 0) (Some err)) n
                   | (n, RebuildFailed err) \<Rightarrow>
                       emit (OReply ch (append_response (nd_currentTerm n) False 0 0) (Some err)) n
                   | (n, MergePanic) \<Rightarrow> n)"

section \<open>Leadership transfer\<close>

definition sendTimeoutNow :: "NodeID \<Rightarrow> 'st node \<Rightarrow> 'st node" where
  "sendTimeoutNow target n =
    emit (OTimeoutNow target \<lparr>tn_Term = nd_currentTerm n, tn_LeaderID = cfg_ID (nd_cfg n)\<rparr>) n"

definition handleTimeoutNow :: "TimeoutNowRequest \<Rightarrow> respCh \<Rightarrow> 'st node \<Rightarrow> 'st node" where
  "handleTimeoutNow req ch n =
    (let done = (\<lambda>n. replyWhenDurable ch (PTimeoutNow (nd_currentTerm n)) 0 n)
     in if tn_Term req < nd_currentTerm n then done n
        else let n = (if nd_currentTerm n < tn_Term req then becomeFollower (tn_Term req) [] n else n)
             in if cfg_Witness (nd_cfg n) then done n else done (becomeCandidate n))"

definition handleLeadershipTransfer :: "NodeID \<Rightarrow> 'st node \<Rightarrow> 'st node \<times> raft_error option" where
  "handleLeadershipTransfer target n =
    (if nd_state n \<noteq> Leader then (n, Some (ErrNotLeader (nd_leaderID n)))
     else if nd_transferTarget n \<noteq> [] then (n, Some ErrLeadershipTransferInProgress)
     else case indexOfPeer (cfg_Peers (nd_cfg n)) target of
            None \<Rightarrow> (n, Some (ErrOther ''unknown transfer target''))
          | Some i \<Rightarrow>
              let p = cfg_Peers (nd_cfg n) ! i
              in if pc_Witness p then (n, Some (ErrOther ''cannot transfer leadership to witness''))
                 else if \<not> pc_Voter p then (n, Some (ErrOther ''cannot transfer leadership to non-voting member''))
                 else let n = n\<lparr>nd_transferTarget := target, nd_transferElapsed := 0\<rparr>
                      in if lastLogIndex (nd_log n) \<le> matchIndex n target
                         then ((sendTimeoutNow target n)\<lparr>nd_transferTarget := []\<rparr>, None)
                         else (replicateToPeer target n, None))"

section \<open>The leader\<close>

record appendResult =
  ar_peer :: NodeID
  ar_term :: Term
  ar_success :: bool
  ar_req :: AppendEntriesRequest
  ar_conflictIndex :: Index
  ar_conflictTerm :: Term
  ar_dropped :: bool

definition departingPeer :: "appendResult \<Rightarrow> 'st node \<Rightarrow> 'st node option" where
  "departingPeer r n =
    (case nd_departing n of
       None \<Rightarrow> None
     | Some l \<Rightarrow>
         (case map_of l (ar_peer r) of
            None \<Rightarrow> None
          | Some d \<Rightarrow>
              if ar_success r \<and> dep_index d \<le> ae_LeaderCommit (ar_req r) then Some (endDeparture (ar_peer r) n)
              else
                let es = ae_Entries (ar_req r);
                    n = (if ar_success r \<and> 0 < length es \<and> matchIndex n (ar_peer r) < e_Index (last es)
                         then set_nextIndex (ar_peer r) (e_Index (last es) + 1)
                                (set_matchIndex (ar_peer r) (e_Index (last es)) n)
                         else n)
                in Some (if nextIndex n (ar_peer r) \<le> lastLogIndex (nd_log n) \<or> dep_index d \<le> nd_commitIndex n
                         then replicateToPeer (ar_peer r) n else n)))"

definition back_track :: "appendResult \<Rightarrow> 'st node \<Rightarrow> 'st node" where
  "back_track r n =
    (let p = ar_peer r;
         next0 = (if ar_conflictTerm r \<noteq> 0
                  then (case lastIndexOfTerm (nd_log n) (ar_conflictTerm r) of
                          Some i \<Rightarrow> i + 1 | None \<Rightarrow> ar_conflictIndex r)
                  else ar_conflictIndex r);
         n = set_nextIndex p next0 n;
         n = (if nextIndex n p < 1 then set_nextIndex p 1 n else n)
     in if nextIndex n p \<le> matchIndex n p then set_nextIndex p (matchIndex n p + 1) n else n)"

definition note_progress :: "appendResult \<Rightarrow> 'st node \<Rightarrow> 'st node" where
  "note_progress r n =
    (let p = ar_peer r; es = ae_Entries (ar_req r)
     in if 0 < length es
        then let l = e_Index (last es);
                 n = (if matchIndex n p < l then set_matchIndex p l n else n)
             in if nextIndex n p < l + 1 then set_nextIndex p (l + 1) n else n
        else n)"

definition barrier_confirmed :: "'st node \<Rightarrow> bool" where
  "barrier_confirmed n =
    (case nd_jointOld n of
       None \<Rightarrow> hasQuorumAck n commitQuorum (nd_readBatchAcks n) (cfg_Peers (nd_cfg n)) True (cfg_Voter (nd_cfg n))
     | Some old \<Rightarrow>
         hasQuorumAck n commitQuorum (nd_readBatchAcks n) old True (nd_jointSelfVoterOld n)
         \<and> hasQuorumAck n commitQuorum (nd_readBatchAcks n) (nd_jointNew n) (nd_jointIncludeSelf n) (nd_jointSelfVoter n))"

definition count_barrier :: "appendResult \<Rightarrow> 'st node \<Rightarrow> 'st node" where
  "count_barrier r n =
    (let gen = ae_ReadBarrier (ar_req r)
     in if gen \<noteq> 0 \<and> gen = nd_readBatchGen n \<and> ar_success r \<and> ar_term r = nd_currentTerm n
        then let l = (case nd_readBatchAcks n of None \<Rightarrow> [] | Some l \<Rightarrow> l);
                 n = n\<lparr>nd_readBatchAcks := Some (al_put (ar_peer r) True l)\<rparr>
             in if barrier_confirmed n then confirmReadBatch n else n
        else n)"

definition append_succeeded :: "appendResult \<Rightarrow> 'st node \<Rightarrow> 'st node" where
  "append_succeeded r n =
    (let p = ar_peer r;
         n = (if nd_quorumAcks n \<noteq> None then n\<lparr>nd_quorumAcks := gm_put (nd_quorumAcks n) p True\<rparr> else n);
         n = maybeAdvanceCommit (note_progress r n);
         n = (if nd_transferTarget n = p \<and> lastLogIndex (nd_log n) \<le> matchIndex n p
              then (sendTimeoutNow (nd_transferTarget n) n)\<lparr>nd_transferTarget := [], nd_transferElapsed := 0\<rparr>
              else n);
         n = count_barrier r n
     in if nextIndex n p \<le> lastLogIndex (nd_log n) then replicateToPeer p n else n)"

definition append_rejected :: "appendResult \<Rightarrow> 'st node \<Rightarrow> 'st node" where
  "append_rejected r n =
    (if ar_conflictIndex r = 0 \<and> ar_conflictTerm r = 0 then n
     else if ae_PrevLogIndex (ar_req r) < matchIndex n (ar_peer r) then n
     else replicateToPeer (ar_peer r) (back_track r n))"

definition handleAppendResult :: "appendResult \<Rightarrow> 'st node \<Rightarrow> 'st node" where
  "handleAppendResult r n =
    (let p = ar_peer r;
         n = (if nd_inflight n \<noteq> None \<and> 0 < inflight n p then set_inflight p (inflight n p - 1) n else n)
     in if ar_dropped r then notePeerUnreachable p n
        else let n = notePeerResponded p n
             in if nd_currentTerm n < ar_term r then becomeFollower (ar_term r) [] n
                else if nd_state n \<noteq> Leader then n
                else case (if ar_success r then departingPeer r n else None) of
                       Some n \<Rightarrow> n
                     | None \<Rightarrow> if \<not> ar_success r then append_rejected r n else append_succeeded r n)"

end
