(* ===== verification/Node_Snapshot.thy ===== *)
theory Node_Snapshot
  imports Node_Replication
begin

text \<open>
  Snapshots (\<open>node_snapshot.go\<close>): receiving one in chunks, installing it, taking one,
  and the goroutine that sends one.  The goroutine that writes a received snapshot is
  two steps: taking a chunk from its channel, and finishing once the channel is closed.
\<close>

section \<open>Receiving\<close>

definition installCh_cap :: nat where "installCh_cap = 8"

text \<open>Start a new transfer, unless this snapshot is already being written.  The result
  says whether the handler goes on to the chunk.\<close>

definition start_install :: "InstallSnapshotRequest \<Rightarrow> respCh \<Rightarrow> Term \<Rightarrow> 'st node \<Rightarrow> 'st node \<times> bool" where
  "start_install req ch resp n =
    (if nd_pendingSnap n \<noteq> None then (n, True)
     else if is_Offset req \<noteq> 0
     then (afterWrite (sendGate 0 n) (DReply ch (PInstall resp) (Some ErrSnapshotNeedsRestart)) n, False)
     else if nd_installingSnap n = is_LastIncludedIndex req
     then ((failSnapInstallAck ErrSnapshotSuperseded n)\<lparr>nd_snapInstallAck :=
             Some \<lparr>sa_index = is_LastIncludedIndex req, sa_respCh = ch, sa_resp = resp\<rparr>\<rparr>, False)
     else ((failSnapInstallAck ErrSnapshotSuperseded n)\<lparr>nd_pendingSnap :=
             Some \<lparr>ps_meta = \<lparr>sm_LastIncludedIndex = is_LastIncludedIndex req,
                              sm_LastIncludedTerm = is_LastIncludedTerm req\<rparr>,
                   ps_installCh = [], ps_read = [], ps_expectedOff = 0\<rparr>\<rparr>, True))"

definition take_chunk :: "InstallSnapshotRequest \<Rightarrow> respCh \<Rightarrow> Term \<Rightarrow> partialSnapshot \<Rightarrow> 'st node \<Rightarrow> 'st node" where
  "take_chunk req ch resp ps n =
    (let reply = (\<lambda>err n. afterWrite (sendGate 0 n) (DReply ch (PInstall resp) err) n)
     in if is_Offset req \<noteq> ps_expectedOff ps then reply (Some ErrSnapshotNeedsRestart) n
        else if installCh_cap \<le> length (ps_installCh ps)
        then reply (Some ErrSnapshotNeedsRestart) (n\<lparr>nd_pendingSnap := None\<rparr>)
        else let ps = ps\<lparr>ps_installCh := ps_installCh ps @ [is_Data req],
                         ps_expectedOff := ps_expectedOff ps + int (length (is_Data req))\<rparr>
             in if is_Done req
                then let l = sm_LastIncludedIndex (ps_meta ps);
                         n = n\<lparr>nd_pendingSnap := None,
                               nd_installs := nd_installs n @ [(ps_meta ps, ps_read ps @ concat (ps_installCh ps))]\<rparr>;
                         n = failSnapInstallAck ErrSnapshotSuperseded n
                     in n\<lparr>nd_snapInstallAck := Some \<lparr>sa_index = l, sa_respCh = ch, sa_resp = resp\<rparr>,
                          nd_installingSnap := l\<rparr>
                else reply None (n\<lparr>nd_pendingSnap := Some ps\<rparr>))"

definition handleInstallSnapshot :: "InstallSnapshotRequest \<Rightarrow> respCh \<Rightarrow> 'st node \<Rightarrow> 'st node" where
  "handleInstallSnapshot req ch n =
    (if is_Term req < nd_currentTerm n
     then afterWrite (sendGate 0 n) (DReply ch (PInstall (nd_currentTerm n)) None) n
     else
       let n = (if nd_currentTerm n < is_Term req then becomeFollower (is_Term req) (is_LeaderID req) n else n);
           resp = nd_currentTerm n;
           n = resetElectionTimeout (setLeaderID (is_LeaderID req) n)
       in if is_LastIncludedIndex req \<le> nd_lastApplied n
          then afterWrite (sendGate 0 n) (DReply ch (PInstall resp) None) n
          else
            let n = (case nd_pendingSnap n of
                       None \<Rightarrow> n
                     | Some ps \<Rightarrow>
                         if sm_LastIncludedIndex (ps_meta ps) \<noteq> is_LastIncludedIndex req \<or> is_Offset req = 0
                         then n\<lparr>nd_pendingSnap := None\<rparr> else n)
            in case start_install req ch resp n of (n, go) \<Rightarrow>
                 if \<not> go then n
                 else case nd_pendingSnap n of None \<Rightarrow> n | Some ps \<Rightarrow> take_chunk req ch resp ps n)"

section \<open>The install goroutine\<close>

text \<open>\<open>SaveSnapshot\<close> reads from the channel through \<open>chunkReader\<close>.\<close>

definition install_read :: "'st node \<Rightarrow> 'st node" where
  "install_read n =
    (case nd_pendingSnap n of
       None \<Rightarrow> n
     | Some ps \<Rightarrow>
         (case ps_installCh ps of
            [] \<Rightarrow> n
          | c # cs \<Rightarrow> n\<lparr>nd_pendingSnap := Some (ps\<lparr>ps_installCh := cs, ps_read := ps_read ps @ c\<rparr>)\<rparr>))"

record snapInstallResult =
  sr_meta :: SnapshotMeta
  sr_table :: "clientRecord list"
  sr_membership :: membershipState
  sr_hasMembership :: bool
  sr_clientTableCap :: int
  sr_hasClientTableCap :: bool
  sr_smR :: bytes
  sr_err :: "raft_error option"

definition failed_install :: "SnapshotMeta \<Rightarrow> raft_error \<Rightarrow> snapInstallResult" where
  "failed_install meta err = \<lparr>sr_meta = meta, sr_table = [], sr_membership = no_membership,
    sr_hasMembership = False, sr_clientTableCap = 0, sr_hasClientTableCap = False, sr_smR = [], sr_err = Some err\<rparr>"

text \<open>What the goroutine does once the channel is closed.\<close>

definition runSnapshotInstall :: "'st Storage \<Rightarrow> 'st \<Rightarrow> SnapshotMeta \<Rightarrow> bytes
    \<Rightarrow> 'st \<times> (unit, snapInstallResult) outcome" where
  "runSnapshotInstall ops s meta d =
    (case st_SaveSnapshot ops s meta d of
       (s, Panic) \<Rightarrow> (s, Panic)
     | (s, Fail e) \<Rightarrow> (s, Ok (failed_install meta e))
     | (s, Ok _) \<Rightarrow>
         (case st_LoadSnapshot ops s of
            Panic \<Rightarrow> (s, Panic)
          | Fail e \<Rightarrow> (s, Ok (failed_install meta e))
          | Ok (loadMeta, r) \<Rightarrow>
              if sm_LastIncludedIndex loadMeta \<noteq> sm_LastIncludedIndex meta
              then (s, Ok (failed_install meta (ErrOther ''loaded snapshot index'')))
              else case readSnapshotFrame r of
                     Panic \<Rightarrow> (s, Panic)
                   | Fail _ \<Rightarrow> (s, Ok (failed_install meta (ErrOther ''unwrap'')))
                   | Ok (frame, r) \<Rightarrow>
                       (s, Ok \<lparr>sr_meta = meta, sr_table = sf_table frame, sr_membership = sf_membership frame,
                              sr_hasMembership = sf_hasMembership frame, sr_clientTableCap = sf_clientTableCap frame,
                              sr_hasClientTableCap = sf_hasClientTableCap frame, sr_smR = r, sr_err = None\<rparr>)))"

section \<open>A finished install\<close>

definition set_store :: "'st \<Rightarrow> 'st node \<Rightarrow> 'st node" where
  "set_store s n = n\<lparr>nd_log := (nd_log n)\<lparr>rl_w := (rl_w (nd_log n))\<lparr>sw_storage := s\<rparr>\<rparr>\<rparr>"

definition load_table :: "snapInstallResult \<Rightarrow> 'st node \<Rightarrow> 'st node" where
  "load_table r n =
    (let n = (if sr_hasClientTableCap r
              then (adoptClientTableCap (sr_clientTableCap r) n)\<lparr>nd_baseClientTableCap := sr_clientTableCap r,
                     nd_hasBaseClientTableCap := True\<rparr>
              else n);
         n = n\<lparr>nd_clientTable := lru_loadFrom (nd_clientTable n) (sr_table r)\<rparr>
     in if sr_hasMembership r
        then adoptCommitQuorum (ms_commitQuorum (sr_membership r)) (n\<lparr>nd_baseMembership := sr_membership r\<rparr>)
        else n)"

definition finish_install :: "snapInstallResult \<Rightarrow> 'st node \<Rightarrow> 'st node" where
  "finish_install r n =
    (let i = sm_LastIncludedIndex (sr_meta r);
         n = (if sr_hasMembership r
              then let n = fst (rebuildMembership n)
                   in if nd_membershipWitness n \<noteq> cfg_Witness (nd_cfg n)
                      then witnessMismatch (nd_membershipWitness n) n else n
              else n);
         n = (if nd_lastApplied n < i then n\<lparr>nd_lastApplied := i\<rparr> else n);
         n = n\<lparr>nd_restoreSnapshotCh := Some \<lparr>si_meta = sr_meta r, si_r = sr_smR r, si_clientTable = sr_table r,
                 si_clientTableCap = sr_clientTableCap r, si_hasClientTableCap = sr_hasClientTableCap r\<rparr>\<rparr>
     in if nd_commitIndex n < i then setCommitIndex i n else n)"

definition handleSnapInstallResult :: "snapInstallResult \<Rightarrow> 'st node \<Rightarrow> 'st node" where
  "handleSnapInstallResult r n =
    (let i = sm_LastIncludedIndex (sr_meta r);
         n = (if nd_installingSnap n = i then n\<lparr>nd_installingSnap := 0\<rparr> else n)
     in case sr_err r of
          Some e \<Rightarrow>
            (let n = answerSnapInstallAck i (Some e) n
             in case nd_pendingSnap n of
                  Some ps \<Rightarrow> if sm_LastIncludedIndex (ps_meta ps) = i then n\<lparr>nd_pendingSnap := None\<rparr> else n
                | None \<Rightarrow> n)
        | None \<Rightarrow>
            let n = answerSnapInstallAck i None n
            in if i \<le> nd_lastApplied n then n
               else let n = load_table r n
                    in case log_installSnapshot (nd_log n) (sr_meta r) of
                         Fail _ \<Rightarrow> n
                       | Panic \<Rightarrow> n\<lparr>nd_panic := True\<rparr>
                       | Ok rl \<Rightarrow> finish_install r (n\<lparr>nd_log := rl\<rparr>))"

section \<open>Taking a snapshot\<close>

text \<open>\<open>nd_permit\<close> says whether the shared semaphore has a permit to give; a permit taken
  and returned at once leaves it as it was.\<close>

definition maybeSnapshot :: "'st node \<Rightarrow> 'st node" where
  "maybeSnapshot n =
    (if nd_snapshotting n \<or> cfg_SnapshotThreshold (nd_cfg n) = 0 then n
     else if nd_lastApplied n < snap_index (nd_log n) + cfg_SnapshotThreshold (nd_cfg n) then n
     else if cfg_SnapshotSemaphore (nd_cfg n) \<and> \<not> nd_permit n then n
     else let snapAt = nd_lastApplied n
          in case termAt (nd_log n) snapAt of
               None \<Rightarrow> n
             | Some snapTerm \<Rightarrow>
                 n\<lparr>nd_snapshotting := True,
                   nd_snapshotTriggerCh := Some \<lparr>
                     st_meta = \<lparr>sm_LastIncludedIndex = snapAt, sm_LastIncludedTerm = snapTerm\<rparr>,
                     st_clientTable = lru_records (nd_clientTable n), st_membership = currentMembership n,
                     st_clientTableCap = nd_clientTableCap n, st_hasClientTableCap = nd_clientTableCapAgreed n\<rparr>\<rparr>)"

record snapshotResult =
  sn_meta :: SnapshotMeta
  sn_membership :: membershipState
  sn_clientTableCap :: int
  sn_hasClientTableCap :: bool
  sn_err :: "raft_error option"

definition keep_from :: "Config \<Rightarrow> Index \<Rightarrow> Index" where
  "keep_from cfg i =
    (let keepFrom = i + 1; trailing = trailingLogs cfg
     in if 0 < trailing then (if keepFrom \<le> trailing then 1 else keepFrom - trailing) else keepFrom)"

definition handleSnapshotResult :: "snapshotResult \<Rightarrow> 'st node \<Rightarrow> 'st node" where
  "handleSnapshotResult sr n =
    (let n = (case sn_err sr of
                Some _ \<Rightarrow> n
              | None \<Rightarrow>
                  n\<lparr>nd_log := log_compact (nd_log n) (sn_meta sr)
                       (keep_from (nd_cfg n) (sm_LastIncludedIndex (sn_meta sr))),
                    nd_baseMembership := sn_membership sr, nd_baseClientTableCap := sn_clientTableCap sr,
                    nd_hasBaseClientTableCap := sn_hasClientTableCap sr\<rparr>)
     in n\<lparr>nd_snapshotting := False\<rparr>)"

text \<open>The goroutine that writes it: the frame, then the state machine's data, through a pipe
  into the store.  \<open>sm\<close> is what the state machine wrote and the error it returned.  The
  pipe is closed the same way whether or not there was one, so the store sees the end
  of the data in both cases.\<close>

definition writeSnapshot :: "'st Storage \<Rightarrow> 'st \<Rightarrow> snapshotTrigger \<Rightarrow> bytes \<times> raft_error option
    \<Rightarrow> 'st \<times> (unit, snapshotResult) outcome" where
  "writeSnapshot ops s trig sm =
    (let frame = \<lparr>sf_table = st_clientTable trig, sf_membership = st_membership trig, sf_hasMembership = False,
                  sf_clientTableCap = st_clientTableCap trig, sf_hasClientTableCap = st_hasClientTableCap trig\<rparr>;
         res = (\<lambda>err. \<lparr>sn_meta = st_meta trig, sn_membership = st_membership trig,
                       sn_clientTableCap = st_clientTableCap trig,
                       sn_hasClientTableCap = st_hasClientTableCap trig, sn_err = err\<rparr>)
     in case writeSnapshotFrame (buffer_write :: bytes \<Rightarrow> bytes \<Rightarrow> (raft_error, bytes) outcome) [] frame
              (\<lambda>w. Ok (w @ fst sm)) of
          Ok piped \<Rightarrow>
            (case st_SaveSnapshot ops s (st_meta trig) piped of
               (s, Panic) \<Rightarrow> (s, Panic)
             | (s, saved) \<Rightarrow>
                 (s, Ok (res (case snd sm of Some serr \<Rightarrow> Some serr | None \<Rightarrow> result_err saved))))
        | _ \<Rightarrow> (s, Panic))"

section \<open>Sending\<close>

record installSnapshotResult =
  ir_peer :: NodeID
  ir_term :: Term
  ir_meta :: SnapshotMeta
  ir_dropped :: bool

definition handleInstallSnapshotResult :: "installSnapshotResult \<Rightarrow> 'st node \<Rightarrow> 'st node" where
  "handleInstallSnapshotResult r n =
    (let p = ir_peer r; i = sm_LastIncludedIndex (ir_meta r);
         n = n\<lparr>nd_snapshotInflight := gm_del (nd_snapshotInflight n) p\<rparr>
     in if ir_dropped r then (if nd_snapshotInflight n \<noteq> None then replicateToPeer p n else n)
        else if nd_currentTerm n < ir_term r then becomeFollower (ir_term r) [] n
        else if nd_state n \<noteq> Leader then n
        else let n = (if matchIndex n p \<le> i then set_matchIndex p i (set_nextIndex p (i + 1) n) else n);
                 n = (if nextIndex n p \<le> matchIndex n p then set_nextIndex p (matchIndex n p + 1) n else n);
                 n = maybeAdvanceCommit n
             in if nextIndex n p \<le> lastLogIndex (nd_log n) then replicateToPeer p n else n)"

text \<open>One turn of the sender's loop: \<open>io.ReadFull\<close> into a buffer of the chunk size, and the
  request that carries what was read.  A short read ends the snapshot; a read into a
  buffer of no bytes succeeds without reading.\<close>

definition next_chunk :: "nat \<Rightarrow> bytes \<Rightarrow> bytes \<times> bool \<times> bytes" where
  "next_chunk chunkSize r =
    (if chunkSize \<le> length r then (take chunkSize r, False, drop chunkSize r) else (r, True, []))"

definition chunk_request :: "Term \<Rightarrow> NodeID \<Rightarrow> SnapshotMeta \<Rightarrow> nat \<Rightarrow> bytes \<Rightarrow> bool \<Rightarrow> InstallSnapshotRequest" where
  "chunk_request t leader m offset d fin =
    \<lparr>is_Term = t, is_LeaderID = leader, is_LastIncludedIndex = sm_LastIncludedIndex m,
     is_LastIncludedTerm = sm_LastIncludedTerm m, is_Offset = int offset, is_Data = d, is_Done = fin\<rparr>"

text \<open>The loop runs until the last chunk is answered, an answer carries a later term, or a
  call fails.  \<open>answer\<close> is the transport: what the \<open>k\<close>-th call returns.  \<open>None\<close> is a loop
  that is still running when the fuel is spent.\<close>

fun send_loop :: "nat \<Rightarrow> (nat \<Rightarrow> Term option) \<Rightarrow> nat \<Rightarrow> Term \<Rightarrow> NodeID \<Rightarrow> SnapshotMeta \<Rightarrow> NodeID \<Rightarrow> nat \<Rightarrow> nat \<Rightarrow> bytes
    \<Rightarrow> InstallSnapshotRequest list \<Rightarrow> InstallSnapshotRequest list \<times> installSnapshotResult option" where
  "send_loop 0 answer chunkSize t leader m p k offset r sent = (sent, None)"
| "send_loop (Suc fuel) answer chunkSize t leader m p k offset r sent =
    (case next_chunk chunkSize r of (d, fin, rest) \<Rightarrow>
      let sent = sent @ [chunk_request t leader m offset d fin]
      in case answer k of
           None \<Rightarrow> (sent, Some \<lparr>ir_peer = p, ir_term = 0, ir_meta = m, ir_dropped = True\<rparr>)
         | Some t' \<Rightarrow>
             if t < t' \<or> fin
             then (sent, Some \<lparr>ir_peer = p, ir_term = t', ir_meta = m, ir_dropped = False\<rparr>)
             else send_loop fuel answer chunkSize t leader m p (k + 1) (offset + length d) rest sent)"

end
