(* ===== verification/Node_Loop.thy ===== *)
theory Node_Loop
  imports Node_Snapshot
begin

text \<open>
  The event loop (\<open>node_loop.go\<close>): ticks, calls, proposals and applied entries, and
  \<open>step_event\<close>, one turn of \<open>run\<close>.
\<close>

section \<open>Ticks\<close>

definition tick_follower :: "'st node \<Rightarrow> 'st node" where
  "tick_follower n =
    (if \<not> cfg_Voter (nd_cfg n) then n
     else let n = n\<lparr>nd_electionElapsed := nd_electionElapsed n + 1\<rparr>
          in if nd_electionTimeout n \<le> nd_electionElapsed n
             then (if cfg_Witness (nd_cfg n) then n\<lparr>nd_electionElapsed := nd_electionTimeout n\<rparr>
                   else triggerElection (resetElectionTimeout n))
             else n)"

definition quorum_heard :: "'st node \<Rightarrow> bool" where
  "quorum_heard n =
    (case nd_jointOld n of
       None \<Rightarrow> hasQuorumAck n commitQuorum (nd_quorumAcks n) (cfg_Peers (nd_cfg n)) True (cfg_Voter (nd_cfg n))
     | Some old \<Rightarrow>
         hasQuorumAck n commitQuorum (nd_quorumAcks n) old True (nd_jointSelfVoterOld n)
         \<and> hasQuorumAck n commitQuorum (nd_quorumAcks n) (nd_jointNew n) (nd_jointIncludeSelf n) (nd_jointSelfVoter n))"

definition check_quorum :: "'st node \<Rightarrow> 'st node" where
  "check_quorum n =
    (if \<not> cfg_CheckQuorum (nd_cfg n) \<or> length (cfg_Peers (nd_cfg n)) = 0 then n
     else let n = n\<lparr>nd_leaderQuorumElapsed := nd_leaderQuorumElapsed n + 1\<rparr>
          in if nd_leaderQuorumElapsed n < nd_electionTimeout n then n
             else if \<not> quorum_heard n then becomeFollower (nd_currentTerm n) [] n
             else n\<lparr>nd_quorumAcks := Some [], nd_leaderQuorumElapsed := 0\<rparr>)"

definition tick_leader :: "'st node \<Rightarrow> 'st node" where
  "tick_leader n =
    (let n = n\<lparr>nd_heartbeatElapsed := nd_heartbeatElapsed n + 1\<rparr>;
         n = (if nd_heartbeatTimeout n \<le> nd_heartbeatElapsed n
              then let n = broadcastHeartbeat (n\<lparr>nd_heartbeatElapsed := 0\<rparr>)
                   in if nd_leaderNopCommitted n \<and> 0 < length (nd_pendingReads n) then broadcastReadBarrier n else n
              else n);
         n = tickDepartures n;
         n = (if nd_transferTarget n \<noteq> []
              then let n = n\<lparr>nd_transferElapsed := nd_transferElapsed n + 1\<rparr>
                   in if nd_electionTimeout n \<le> nd_transferElapsed n
                      then n\<lparr>nd_transferTarget := [], nd_transferElapsed := 0\<rparr> else n
              else n);
         n = (if cfg_PreferredLeader (nd_cfg n) \<noteq> [] \<and> cfg_PreferredLeader (nd_cfg n) \<noteq> cfg_ID (nd_cfg n)
                \<and> nd_transferTarget n = [] \<and> nd_leaderNopCommitted n
              then fst (handleLeadershipTransfer (cfg_PreferredLeader (nd_cfg n)) n) else n)
     in check_quorum n)"

definition tick :: "'st node \<Rightarrow> 'st node" where
  "tick n = (if nd_state n = Leader then tick_leader n else tick_follower n)"

section \<open>Proposals\<close>

record proposeMsg =
  pm_cmd :: bytes
  pm_promise :: promise

definition reject_all :: "raft_error \<Rightarrow> proposeMsg list \<Rightarrow> 'st node \<Rightarrow> 'st node" where
  "reject_all err props n = n\<lparr>nd_out := nd_out n @ map (\<lambda>p. OReject (pm_promise p) err) props\<rparr>"

text \<open>The bound of the client table goes into the log ahead of the first command that needs it.\<close>

definition propose_cap :: "proposeMsg list \<Rightarrow> LogEntry list \<Rightarrow> 'st node \<Rightarrow> 'st node \<times> LogEntry list" where
  "propose_cap props es n =
    (if \<not> nd_clientTableCapReplicated n \<and> nd_capEntryPending n = 0 \<and> list_ex (\<lambda>p. isDedupCmd (pm_cmd p)) props
     then let idx = lastLogIndex (nd_log n) + 1
          in (n\<lparr>nd_capEntryPending := idx, nd_clientTableCapReplicated := True\<rparr>,
              es @ [\<lparr>e_Index = idx, e_Term = nd_currentTerm n,
                     e_Command = encodeClientTableCapEntry (cfg_MaxClientTableSize (nd_cfg n))\<rparr>])
     else (n, es))"

definition propose_quorum :: "LogEntry list \<Rightarrow> 'st node \<Rightarrow> 'st node \<times> LogEntry list" where
  "propose_quorum es n =
    (if cfg_CommitQuorum (nd_cfg n) \<noteq> 0 \<and> \<not> nd_commitQuorumAgreed n \<and> nd_commitQuorumLatest n = 0
        \<and> nd_quorumEntryPending n = 0 \<and> nd_pendingConfigIndex n = 0
     then let idx = lastLogIndex (nd_log n) + 1
          in (n\<lparr>nd_quorumEntryPending := idx, nd_pendingConfigIndex := idx,
                nd_commitQuorumLatest := cfg_CommitQuorum (nd_cfg n)\<rparr>,
              es @ [\<lparr>e_Index = idx, e_Term = nd_currentTerm n,
                     e_Command = encodeCommitQuorumEntry (cfg_CommitQuorum (nd_cfg n))\<rparr>])
     else (n, es))"

text \<open>What the client table says about a command that carries a sequence number.\<close>

definition dedup_answer :: "clientLRU \<Rightarrow> bytes \<Rightarrow> (raft_error + bytes) option" where
  "dedup_answer tab cmd =
    (if \<not> isDedupCmd cmd then None
     else case decodeDedupCmd cmd of
            Ok (client, seqNum, _) \<Rightarrow>
              (case lru_get tab client of
                 None \<Rightarrow> None
               | Some cached \<Rightarrow>
                   if seqNum < ce_seqNum cached then Some (Inl ErrObsoleteSeqNum)
                   else if seqNum = ce_seqNum cached then Some (Inr (ce_result cached))
                   else None)
          | _ \<Rightarrow> None)"

definition propose_one :: "int \<Rightarrow> proposeMsg \<Rightarrow> 'st node \<times> LogEntry list \<times> int \<Rightarrow> 'st node \<times> LogEntry list \<times> int" where
  "propose_one limit prop acc =
    (case acc of (n, es, backlog) \<Rightarrow>
      if isConfigEntry (pm_cmd prop) \<and> nd_pendingConfigIndex n \<noteq> 0
      then (emit (OReject (pm_promise prop) ErrConfigChangeInProgress) n, es, backlog)
      else case dedup_answer (nd_clientTable n) (pm_cmd prop) of
             Some (Inl err) \<Rightarrow> (emit (OReject (pm_promise prop) err) n, es, backlog)
           | Some (Inr res) \<Rightarrow> (emit (OResolve (pm_promise prop) res) n, es, backlog)
           | None \<Rightarrow>
               if 0 < limit \<and> 0 < backlog \<and> limit < backlog + int (length (pm_cmd prop))
               then (emit (OReject (pm_promise prop) ErrWriteBacklogFull) n, es, backlog)
               else let idx = lastLogIndex (nd_log n) + length es + 1;
                        e = \<lparr>e_Index = idx, e_Term = nd_currentTerm n, e_Command = pm_cmd prop\<rparr>;
                        n = n\<lparr>nd_pending := al_put idx (pm_promise prop) (nd_pending n)\<rparr>;
                        n = (if isConfigEntry (pm_cmd prop) then n\<lparr>nd_pendingConfigIndex := idx\<rparr> else n)
                    in (n, es @ [e], backlog + int (length (pm_cmd prop))))"

definition handleProposals :: "proposeMsg list \<Rightarrow> 'st node \<Rightarrow> 'st node" where
  "handleProposals props n =
    (if nd_state n \<noteq> Leader then reject_all (ErrNotLeader (nd_leaderID n)) props n
     else if nd_transferTarget n \<noteq> [] then reject_all ErrLeadershipTransferInProgress props n
     else
       let limit = unstableLimit n; backlog = unstableSize (nd_log n)
       in case propose_cap props [] n of (n, es) \<Rightarrow>
          case propose_quorum es n of (n, es) \<Rightarrow>
          case fold (propose_one limit) props (n, es, backlog) of (n, es, _) \<Rightarrow>
            if 0 < length es
            then let n = noteAppendedConfig es n
                 in case log_append (nd_log n) es of (rl, s) \<Rightarrow>
                      let n = afterWrite s (DPropose (map e_Index es)) (n\<lparr>nd_log := rl\<rparr>)
                      in maybeAdvanceCommit (replicateToFollowers n)
            else n)"

section \<open>Applied entries\<close>

record applyResult =
  ap_index :: Index
  ap_val :: bytes
  ap_err :: "raft_error option"
  ap_cmd :: bytes
  ap_configCmd :: "bytes option"

definition record_result :: "applyResult \<Rightarrow> 'st node \<Rightarrow> 'st node" where
  "record_result ar n =
    (if isDedupCmd (ap_cmd ar) \<and> ap_err ar = None
     then (case decodeDedupCmd (ap_cmd ar) of
             Ok (client, seqNum, _) \<Rightarrow>
               (if (case lru_get (nd_clientTable n) client of None \<Rightarrow> True | Some c \<Rightarrow> ce_seqNum c \<le> seqNum)
                then (case lru_put (nd_clientTable n) client \<lparr>ce_seqNum = seqNum, ce_result = ap_val ar\<rparr> of
                        (tab, gone) \<Rightarrow>
                          n\<lparr>nd_clientTable := tab,
                            nd_clientsForgotten := nd_clientsForgotten n + (if gone = None then 0 else 1)\<rparr>)
                else n)
           | _ \<Rightarrow> n)
     else n)"

definition handleApplyResult :: "applyResult \<Rightarrow> 'st node \<Rightarrow> 'st node" where
  "handleApplyResult ar n =
    (let n = (if nd_lastApplied n < ap_index ar then n\<lparr>nd_lastApplied := ap_index ar\<rparr> else n);
         n = (case ap_configCmd ar of
                None \<Rightarrow> n
              | Some cmd \<Rightarrow>
                  let n = applyConfigChange cmd (ap_index ar) n
                  in if nd_pendingConfigIndex n = ap_index ar then n\<lparr>nd_pendingConfigIndex := 0\<rparr> else n);
         n = record_result ar n;
         n = (case map_of (nd_pending n) (ap_index ar) of
                None \<Rightarrow> n
              | Some p \<Rightarrow>
                  (case ap_err ar of Some err \<Rightarrow> emit (OReject p err) | None \<Rightarrow> emit (OResolve p (ap_val ar)))
                    (n\<lparr>nd_pending := filter (\<lambda>(j, _). j \<noteq> ap_index ar) (nd_pending n)\<rparr>))
     in maybeSnapshot n)"

section \<open>Turns of the loop\<close>

datatype event =
    EvTick
  | EvCall rpcRequest respCh
  | EvVoteResult voteResult
  | EvAppendResult appendResult
  | EvReachability NodeID bool
  | EvInstallSnapshotResult installSnapshotResult
  | EvSnapInstallResult snapInstallResult
  | EvProposals "proposeMsg list"
  | EvReadIndex readIndexMsg
  | EvTransfer NodeID promise
  | EvApplyResult applyResult
  | EvSnapshotResult snapshotResult
  | EvWriteCompletions

definition handleCall :: "rpcRequest \<Rightarrow> respCh \<Rightarrow> 'st node \<Rightarrow> 'st node" where
  "handleCall req ch n =
    (case req of
       QVote r \<Rightarrow> handleRequestVote r ch n
     | QAppend r \<Rightarrow> handleAppendEntries r ch n
     | QInstall r \<Rightarrow> handleInstallSnapshot r ch n
     | QTimeoutNow r \<Rightarrow> handleTimeoutNow r ch n
     | QReadIndex r \<Rightarrow> handleReadIndexRPC r ch n)"

definition step_event :: "event \<Rightarrow> 'st node \<Rightarrow> 'st node" where
  "step_event ev n =
    (case ev of
       EvTick \<Rightarrow> tick n
     | EvCall req ch \<Rightarrow> handleCall req ch n
     | EvVoteResult r \<Rightarrow> handleVoteResult r n
     | EvAppendResult r \<Rightarrow> handleAppendResult r n
     | EvReachability p up \<Rightarrow> if up then markPeerUp p n else markPeerDown p n
     | EvInstallSnapshotResult r \<Rightarrow> handleInstallSnapshotResult r n
     | EvSnapInstallResult r \<Rightarrow> handleSnapInstallResult r n
     | EvProposals ps \<Rightarrow> handleProposals ps n
     | EvReadIndex m \<Rightarrow> handleReadIndex m n
     | EvTransfer target p \<Rightarrow>
         (case handleLeadershipTransfer target n of (n, err) \<Rightarrow> emit (OTransfer p err) n)
     | EvApplyResult ar \<Rightarrow> handleApplyResult ar n
     | EvSnapshotResult sr \<Rightarrow> handleSnapshotResult sr n
     | EvWriteCompletions \<Rightarrow> handleWriteCompletions n)"

text \<open>The last turn: waiting work is finished or failed.  \<open>drained\<close> is the writer after
  \<open>close\<close> has returned.\<close>

definition stop_node :: "('st storageWriter \<Rightarrow> 'st storageWriter) \<Rightarrow> 'st node \<Rightarrow> 'st node" where
  "stop_node drained n =
    (let n = drainPending ErrStopped n;
         n = n\<lparr>nd_log := (nd_log n)\<lparr>rl_w := drained (writer_close (rl_w (nd_log n)))\<rparr>\<rparr>;
         n = handleWriteCompletions n;
         n = failDeferredWrites ErrStopped n
     in failSnapInstallAck ErrStopped n)"

end
