(* ===== verification/Node_Frame.thy ===== *)
theory Node_Frame
  imports Node_Loop
begin

text \<open>
  What the operations of a node leave alone.  \<open>quiet n n'\<close> says that between two states
  the term, the vote, the votes counted and the queued writes of the hard state are the
  same, that the role is the same or follower, that no vote was asked for or granted, and
  that the commit index did not go back.  Every operation that is not part of an election
  and adopts no later term is quiet.
\<close>

section \<open>The log\<close>

definition pending_writes :: "'st raftLog \<Rightarrow> writeOp list" where
  "pending_writes rl = sw_running (rl_w rl) @ sw_queue (rl_w rl)"

text \<open>The log changed, and at most writes that are not of the hard state were queued.\<close>

definition log_quiet :: "'st raftLog \<Rightarrow> 'st raftLog \<Rightarrow> bool" where
  "log_quiet rl rl' \<longleftrightarrow>
    sw_storage (rl_w rl') = sw_storage (rl_w rl) \<and> sw_ops (rl_w rl') = sw_ops (rl_w rl)
    \<and> sw_running (rl_w rl') = sw_running (rl_w rl) \<and> sw_done (rl_w rl') = sw_done (rl_w rl)
    \<and> sw_closed (rl_w rl') = sw_closed (rl_w rl) \<and> rl_nextSeq rl \<le> rl_nextSeq rl'
    \<and> (\<exists>ops. sw_queue (rl_w rl') = sw_queue (rl_w rl) @ ops
        \<and> (\<forall>op\<in>set ops. wo_kind op \<noteq> writeHardState \<and> rl_nextSeq rl < wo_seq op \<and> wo_seq op \<le> rl_nextSeq rl')
        \<and> sorted_wrt (<) (map wo_seq ops))"

lemma log_quiet_refl: "log_quiet rl rl"
  by (simp add: log_quiet_def)

lemma log_quiet_trans:
  assumes "log_quiet a b" "log_quiet b c" shows "log_quiet a c"
proof -
  obtain xs where xs: "sw_queue (rl_w b) = sw_queue (rl_w a) @ xs" "sorted_wrt (<) (map wo_seq xs)"
    "\<forall>op\<in>set xs. wo_kind op \<noteq> writeHardState \<and> rl_nextSeq a < wo_seq op \<and> wo_seq op \<le> rl_nextSeq b"
    using assms(1) by (auto simp: log_quiet_def)
  obtain ys where ys: "sw_queue (rl_w c) = sw_queue (rl_w b) @ ys" "sorted_wrt (<) (map wo_seq ys)"
    "\<forall>op\<in>set ys. wo_kind op \<noteq> writeHardState \<and> rl_nextSeq b < wo_seq op \<and> wo_seq op \<le> rl_nextSeq c"
    using assms(2) by (auto simp: log_quiet_def)
  have le: "rl_nextSeq a \<le> rl_nextSeq b" "rl_nextSeq b \<le> rl_nextSeq c" using assms by (auto simp: log_quiet_def)
  have "sorted_wrt (<) (map wo_seq (xs @ ys))"
    using xs(2,3) ys(2,3) by (fastforce simp: sorted_wrt_append)
  moreover have "\<forall>op\<in>set (xs @ ys). wo_kind op \<noteq> writeHardState \<and> rl_nextSeq a < wo_seq op \<and> wo_seq op \<le> rl_nextSeq c"
    using xs(3) ys(3) le by fastforce
  ultimately show ?thesis
    using assms xs(1) ys(1) le by (auto simp: log_quiet_def intro!: exI [of _ "xs @ ys"])
qed

definition quiet_op :: "writeOp \<Rightarrow> bool" where
  "quiet_op op \<longleftrightarrow> wo_kind op \<noteq> writeHardState"

text \<open>The parts of the log that are not the writer or the counter.\<close>

lemma log_quiet_same: "rl_w rl' = rl_w rl \<Longrightarrow> rl_nextSeq rl' = rl_nextSeq rl \<Longrightarrow> log_quiet rl rl'"
  by (simp add: log_quiet_def)

lemma log_quiet_enqueue:
  assumes "wo_kind op \<noteq> writeHardState" "wo_seq op = rl_nextSeq rl + 1"
    and "rl_w rl' = enqueue (rl_w rl) op" "rl_nextSeq rl' = rl_nextSeq rl + 1"
  shows "log_quiet rl rl'"
  using assms by (auto simp: log_quiet_def enqueue_def intro: exI [of _ "[op]"])

lemma log_append_quiet: "log_quiet rl (fst (log_append rl es))"
proof (cases "es = []")
  case False
  show ?thesis
    by (rule log_quiet_enqueue [of "append_op (rl_nextSeq rl + 1) es (e_Index (es ! (length es - 1)))"])
      (use False in \<open>auto simp: log_append_def nextWriteSeq_def extendRuns_def append_op_def Let_def\<close>)
qed (simp add: log_append_def log_quiet_refl)

lemma appendOne_quiet: "log_quiet rl (fst (appendOne rl e))"
  by (simp add: appendOne_def log_append_quiet)

lemma log_saveCommitIndex_quiet: "log_quiet rl (log_saveCommitIndex rl i)"
  by (rule log_quiet_enqueue [of "index_op (rl_nextSeq rl + 1) writeCommitIndex i (rl_queuedDurable rl)"])
    (simp_all add: log_saveCommitIndex_def nextWriteSeq_def index_op_def Let_def)

lemma drops_same [simp]:
  "rl_w (dropUnstableFrom rl i) = rl_w rl" "rl_nextSeq (dropUnstableFrom rl i) = rl_nextSeq rl"
  "rl_w (dropUnstableBelow rl i) = rl_w rl" "rl_nextSeq (dropUnstableBelow rl i) = rl_nextSeq rl"
  "rl_w (truncateRunsFrom rl i) = rl_w rl" "rl_nextSeq (truncateRunsFrom rl i) = rl_nextSeq rl"
  "rl_w (truncateRunsBelow rl i) = rl_w rl" "rl_nextSeq (truncateRunsBelow rl i) = rl_nextSeq rl"
  by (simp_all add: dropUnstableFrom_def dropUnstableBelow_def truncateRunsFrom_def truncateRunsBelow_def
      split: prod.split option.split)

lemma truncateSuffix_quiet:
  assumes "truncateSuffix rl i = Ok rl'" shows "log_quiet rl rl'"
proof -
  obtain d where "rl_w rl' = enqueue (rl_w rl) (index_op (rl_nextSeq rl + 1) writeTruncateSuffix i d)"
    "rl_nextSeq rl' = rl_nextSeq rl + 1"
    using assms by (auto simp: truncateSuffix_def nextWriteSeq_def Let_def split: option.splits if_splits)
  then show ?thesis by (intro log_quiet_enqueue) (simp_all add: index_op_def)
qed

lemma truncatePrefix_quiet: "log_quiet rl (truncatePrefix rl i)"
proof (cases "rl_first rl \<noteq> 0 \<and> i \<le> rl_first rl")
  case False
  define rl1 where "rl1 = (if rl_last (dropUnstableBelow rl i) < i \<and> 0 < i
        \<and> i - 1 < rl_queuedDurable (dropUnstableBelow rl i)
      then (dropUnstableBelow rl i)\<lparr>rl_queuedDurable := i - 1\<rparr> else dropUnstableBelow rl i)"
  have rl1: "rl_w rl1 = rl_w rl" "rl_nextSeq rl1 = rl_nextSeq rl" by (simp_all add: rl1_def)
  have "rl_w (truncatePrefix rl i)
      = enqueue (rl_w rl) (index_op (rl_nextSeq rl + 1) writeTruncatePrefix i (rl_queuedDurable rl1))"
    "rl_nextSeq (truncatePrefix rl i) = rl_nextSeq rl + 1"
    unfolding truncatePrefix_def if_not_P [OF False] Let_def rl1_def [symmetric]
    by (simp_all add: nextWriteSeq_def Let_def rl1)
  then show ?thesis by (intro log_quiet_enqueue) (simp_all add: index_op_def)
qed (simp add: truncatePrefix_def log_quiet_refl)

lemma log_compact_quiet: "log_quiet rl (log_compact rl meta k)"
  by (rule log_quiet_trans [OF truncatePrefix_quiet [of rl k]])
    (simp add: log_compact_def log_quiet_same)

lemma log_installSnapshot_quiet:
  assumes "log_installSnapshot rl meta = Ok rl'" shows "log_quiet rl rl'"
proof -
  define r where "r = (if termAt rl (sm_LastIncludedIndex meta) = Some (sm_LastIncludedTerm meta)
    then Ok (truncatePrefix rl (sm_LastIncludedIndex meta + 1))
    else if rl_first rl \<noteq> 0 then truncateSuffix rl (rl_first rl) else Ok rl)"
  obtain rl1 where rl1: "r = Ok rl1" "rl_w rl' = rl_w rl1" "rl_nextSeq rl' = rl_nextSeq rl1"
    using assms unfolding log_installSnapshot_def Let_def r_def [symmetric]
    by (cases r) (auto split: if_splits)
  have "log_quiet rl rl1"
  proof (cases "termAt rl (sm_LastIncludedIndex meta) = Some (sm_LastIncludedTerm meta)")
    case True
    then show ?thesis using rl1(1) truncatePrefix_quiet [of rl "sm_LastIncludedIndex meta + 1"] by (simp add: r_def)
  next
    case False
    then show ?thesis
      using rl1(1) truncateSuffix_quiet [of rl "rl_first rl"] log_quiet_refl [of rl]
      by (cases "rl_first rl = 0") (simp_all add: r_def)
  qed
  then show ?thesis using rl1(2,3) by (meson log_quiet_same log_quiet_trans)
qed

lemma stabilize_same [simp]: "rl_w (stabilize rl d) = rl_w rl" "rl_nextSeq (stabilize rl d) = rl_nextSeq rl"
  by (simp_all add: stabilize_def split: prod.split)

section \<open>Votes\<close>

text \<open>Effects and waiting work that ask for a vote or grant one.\<close>

definition vote_out :: "outEffect \<Rightarrow> bool" where
  "vote_out e = (case e of
      OVote _ r \<Rightarrow> \<not> rv_PreVote r
    | OReply ch (PVote r) None \<Rightarrow>
        rvr_VoteGranted r \<and> (case rc_req ch of QVote q \<Rightarrow> \<not> rv_PreVote q | _ \<Rightarrow> True)
    | _ \<Rightarrow> False)"

definition vote_work :: "deferred \<Rightarrow> bool" where
  "vote_work d = (case d of
      DCandidate _ \<Rightarrow> True
    | DReply _ (PVote r) None \<Rightarrow> rvr_VoteGranted r
    | _ \<Rightarrow> False)"

lemma vote_out_simps [simp]:
  "vote_out (OVote p r) \<longleftrightarrow> \<not> rv_PreVote r" "\<not> vote_out (OAppend p a)" "\<not> vote_out (OBarrier p a)"
  "\<not> vote_out (OHeartbeat p a)" "\<not> vote_out (OSnapshot p m b t)" "\<not> vote_out (OTimeoutNow p q)"
  "\<not> vote_out (OReply ch resp (Some e))" "\<not> vote_out (OResolve x b)" "\<not> vote_out (OReject x e)"
  "\<not> vote_out (OReadResolve y i)" "\<not> vote_out (OReadReject y e)" "\<not> vote_out (OTransfer x oe)"
  "\<not> vote_out ORemoved" "\<not> vote_out (OFatal e)" "\<not> vote_out (OReply ch (PAppend ar) oe)"
  "\<not> vote_out (OReply ch (PInstall t) oe)" "\<not> vote_out (OReply ch (PTimeoutNow t) oe)"
  "\<not> vote_out (OReply ch (PReadIndex t i) oe)" "\<not> vote_out (OReply ch PNone oe)"
  by (simp_all add: vote_out_def split: option.split rpcResponse.split)

lemma vote_work_simps [simp]:
  "vote_work (DCandidate t)" "\<not> vote_work (DPropose is)" "\<not> vote_work (DFinalise i)"
  "\<not> vote_work (DReply ch resp (Some e))" "\<not> vote_work (DReply ch (PAppend ar) oe)"
  "\<not> vote_work (DReply ch (PInstall t) oe)" "\<not> vote_work (DReply ch (PTimeoutNow t) oe)"
  "vote_work (DReply ch (PVote r) None) \<longleftrightarrow> rvr_VoteGranted r"
  by (simp_all add: vote_work_def split: option.split rpcResponse.split)

section \<open>Quiet steps\<close>

definition quiet :: "'st node \<Rightarrow> 'st node \<Rightarrow> bool" where
  "quiet n n' \<longleftrightarrow>
    nd_currentTerm n' = nd_currentTerm n \<and> nd_votedFor n' = nd_votedFor n
    \<and> (nd_state n' = nd_state n \<or> nd_state n' = Follower)
    \<and> nd_unsafeTermSeq n' = nd_unsafeTermSeq n \<and> nd_completedWriteSeq n' = nd_completedWriteSeq n
    \<and> nd_receivedVoteSet n' = nd_receivedVoteSet n \<and> nd_durableTerm n' = nd_durableTerm n
    \<and> cfg_ID (nd_cfg n') = cfg_ID (nd_cfg n) \<and> nd_commitIndex n \<le> nd_commitIndex n'
    \<and> log_quiet (nd_log n) (nd_log n')
    \<and> (\<exists>os. nd_out n' = nd_out n @ os \<and> (\<forall>e\<in>set os. \<not> vote_out e))
    \<and> (\<forall>d\<in>set (nd_deferredWrites n'). d \<in> set (nd_deferredWrites n) \<or> \<not> vote_work (dw_work d))"

text \<open>The fields that matter here; an operation that touches none of them is quiet.\<close>

definition core where
  "core n = (nd_currentTerm n, nd_votedFor n, nd_state n, nd_unsafeTermSeq n, nd_completedWriteSeq n,
    nd_receivedVoteSet n, nd_durableTerm n, cfg_ID (nd_cfg n), nd_commitIndex n, nd_log n, nd_out n,
    nd_deferredWrites n)"

lemma quiet_refl [simp]: "quiet n n"
  by (simp add: quiet_def log_quiet_refl)

lemma quiet_trans [trans]: "quiet a b \<Longrightarrow> quiet b c \<Longrightarrow> quiet a c"
proof -
  assume a: "quiet a b" and b: "quiet b c"
  obtain xs ys where "nd_out b = nd_out a @ xs" "\<forall>e\<in>set xs. \<not> vote_out e"
    "nd_out c = nd_out b @ ys" "\<forall>e\<in>set ys. \<not> vote_out e"
    using a b by (auto simp: quiet_def)
  then have "nd_out c = nd_out a @ (xs @ ys) \<and> (\<forall>e\<in>set (xs @ ys). \<not> vote_out e)" by auto
  then have "\<exists>os. nd_out c = nd_out a @ os \<and> (\<forall>e\<in>set os. \<not> vote_out e)" by blast
  moreover have "log_quiet (nd_log a) (nd_log c)"
    using a b log_quiet_trans by (auto simp: quiet_def)
  moreover have "\<forall>d\<in>set (nd_deferredWrites c). d \<in> set (nd_deferredWrites a) \<or> \<not> vote_work (dw_work d)"
    using a b unfolding quiet_def by blast
  moreover have "nd_state c = nd_state a \<or> nd_state c = Follower" using a b by (auto simp: quiet_def)
  ultimately show ?thesis using a b by (simp add: quiet_def)
qed

lemma quiet_core: "core n' = core n \<Longrightarrow> quiet n n'"
  by (simp add: core_def quiet_def log_quiet_refl)

lemma quiet_step: "quiet n m \<Longrightarrow> core n' = core m \<Longrightarrow> quiet n n'"
  using quiet_core quiet_trans by blast

lemma quiet_fold: "(\<And>x m. quiet m (f x m)) \<Longrightarrow> quiet n (fold f xs n)"
proof (induction xs arbitrary: n)
  case (Cons x xs)
  have "quiet (f x n) (fold f xs (f x n))" using Cons by blast
  then show ?case using Cons.prems quiet_trans by fastforce
qed simp

lemma quiet_emit: "\<not> vote_out e \<Longrightarrow> quiet n (emit e n)"
  by (simp add: quiet_def emit_def log_quiet_refl)

lemma quiet_out: "(\<And>e. e \<in> set os \<Longrightarrow> \<not> vote_out e) \<Longrightarrow> quiet n (n\<lparr>nd_out := nd_out n @ os\<rparr>)"
  by (simp add: quiet_def log_quiet_refl)

lemma quiet_log: "log_quiet (nd_log n) rl \<Longrightarrow> quiet n (n\<lparr>nd_log := rl\<rparr>)"
  by (simp add: quiet_def)

lemma run_simple_quiet: "\<not> vote_work d \<Longrightarrow> quiet n (run_simple d n)"
  by (cases d) (auto intro!: quiet_emit simp: vote_work_def vote_out_def split: rpcResponse.splits option.splits)

lemma afterWrite_quiet: "\<not> vote_work d \<Longrightarrow> quiet n (afterWrite s d n)"
  using run_simple_quiet [of d n] by (simp add: afterWrite_with_def) (simp add: quiet_def log_quiet_refl)

lemma core_cfg [simp]: "cfg_ID c = cfg_ID (nd_cfg n) \<Longrightarrow> core (n\<lparr>nd_cfg := c\<rparr>) = core n"
  by (simp add: core_def)

text \<open>Introduction rules that peel the last operation off a state.\<close>

named_theorems quiets

declare quiet_refl [quiets]

lemma quiet_upds [quiets]:
  assumes "quiet n m"
  shows
    "quiet n (m\<lparr>nd_leaderID := x0\<rparr>)" "quiet n (m\<lparr>nd_lastApplied := x1\<rparr>)"
    "quiet n (m\<lparr>nd_nextIndex := x2\<rparr>)" "quiet n (m\<lparr>nd_matchIndex := x3\<rparr>)"
    "quiet n (m\<lparr>nd_inflight := x4\<rparr>)" "quiet n (m\<lparr>nd_snapshotInflight := x5\<rparr>)"
    "quiet n (m\<lparr>nd_departing := x6\<rparr>)" "quiet n (m\<lparr>nd_recordedCommit := x7\<rparr>)"
    "quiet n (m\<lparr>nd_electionElapsed := x8\<rparr>)" "quiet n (m\<lparr>nd_heartbeatElapsed := x9\<rparr>)"
    "quiet n (m\<lparr>nd_electionTimeout := x10\<rparr>)" "quiet n (m\<lparr>nd_heartbeatTimeout := x11\<rparr>)"
    "quiet n (m\<lparr>nd_electionMinTicks := x12\<rparr>)" "quiet n (m\<lparr>nd_electionMaxTicks := x13\<rparr>)"
    "quiet n (m\<lparr>nd_pendingConfigIndex := x14\<rparr>)" "quiet n (m\<lparr>nd_jointOld := x15\<rparr>)"
    "quiet n (m\<lparr>nd_jointNew := x16\<rparr>)" "quiet n (m\<lparr>nd_jointIncludeSelf := x17\<rparr>)"
    "quiet n (m\<lparr>nd_jointSelfVoter := x18\<rparr>)" "quiet n (m\<lparr>nd_jointSelfVoterOld := x19\<rparr>)"
    "quiet n (m\<lparr>nd_membershipWitness := x20\<rparr>)" "quiet n (m\<lparr>nd_baseMembership := x21\<rparr>)"
    "quiet n (m\<lparr>nd_configIndex := x22\<rparr>)" "quiet n (m\<lparr>nd_leaderQuorumElapsed := x23\<rparr>)"
    "quiet n (m\<lparr>nd_quorumAcks := x24\<rparr>)" "quiet n (m\<lparr>nd_termStartIndex := x25\<rparr>)"
    "quiet n (m\<lparr>nd_transferTarget := x26\<rparr>)" "quiet n (m\<lparr>nd_transferElapsed := x27\<rparr>)"
    "quiet n (m\<lparr>nd_applyBaseIndex := x28\<rparr>)" "quiet n (m\<lparr>nd_commitNotifyCh := x29\<rparr>)"
    "quiet n (m\<lparr>nd_pending := x30\<rparr>)" "quiet n (m\<lparr>nd_snapshotTriggerCh := x31\<rparr>)"
    "quiet n (m\<lparr>nd_snapshotting := x32\<rparr>)" "quiet n (m\<lparr>nd_snapInstallAck := x33\<rparr>)"
    "quiet n (m\<lparr>nd_installingSnap := x34\<rparr>)" "quiet n (m\<lparr>nd_pendingSnap := x35\<rparr>)"
    "quiet n (m\<lparr>nd_installs := x36\<rparr>)" "quiet n (m\<lparr>nd_initialSnap := x37\<rparr>)"
    "quiet n (m\<lparr>nd_restoreSnapshotCh := x38\<rparr>)" "quiet n (m\<lparr>nd_leaderNopCommitted := x39\<rparr>)"
    "quiet n (m\<lparr>nd_readBatchGen := x40\<rparr>)" "quiet n (m\<lparr>nd_readBatchAcks := x41\<rparr>)"
    "quiet n (m\<lparr>nd_readBatchIndex := x42\<rparr>)" "quiet n (m\<lparr>nd_pendingReads := x43\<rparr>)"
    "quiet n (m\<lparr>nd_waitingReads := x44\<rparr>)" "quiet n (m\<lparr>nd_leaseExpiry := x45\<rparr>)"
    "quiet n (m\<lparr>nd_leaseSendTime := x46\<rparr>)" "quiet n (m\<lparr>nd_leaseBase := x47\<rparr>)"
    "quiet n (m\<lparr>nd_clientTable := x48\<rparr>)" "quiet n (m\<lparr>nd_clientTableCap := x49\<rparr>)"
    "quiet n (m\<lparr>nd_clientTableCapAgreed := x50\<rparr>)" "quiet n (m\<lparr>nd_clientTableCapReplicated := x51\<rparr>)"
    "quiet n (m\<lparr>nd_baseClientTableCap := x52\<rparr>)" "quiet n (m\<lparr>nd_hasBaseClientTableCap := x53\<rparr>)"
    "quiet n (m\<lparr>nd_applyStartCap := x54\<rparr>)" "quiet n (m\<lparr>nd_commitQuorumApplied := x55\<rparr>)"
    "quiet n (m\<lparr>nd_commitQuorumLatest := x56\<rparr>)" "quiet n (m\<lparr>nd_commitQuorumAgreed := x57\<rparr>)"
    "quiet n (m\<lparr>nd_quorumEntryPending := x58\<rparr>)" "quiet n (m\<lparr>nd_capEntryPending := x59\<rparr>)"
    "quiet n (m\<lparr>nd_clientsForgotten := x60\<rparr>)" "quiet n (m\<lparr>nd_hbPumps := x61\<rparr>)"
    "quiet n (m\<lparr>nd_rng := x62\<rparr>)" "quiet n (m\<lparr>nd_draws := x63\<rparr>)"
    "quiet n (m\<lparr>nd_peerHealth := x64\<rparr>)" "quiet n (m\<lparr>nd_removedNotified := x65\<rparr>)"
    "quiet n (m\<lparr>nd_fatalErr := x66\<rparr>)" "quiet n (m\<lparr>nd_now := x67\<rparr>)"
    "quiet n (m\<lparr>nd_permit := x68\<rparr>)" "quiet n (m\<lparr>nd_panic := x69\<rparr>)"
  by (rule quiet_step [OF assms], simp add: core_def)+

lemma quiet_emits [quiets]: "quiet n m \<Longrightarrow> \<not> vote_out e \<Longrightarrow> quiet n (emit e m)"
  by (rule quiet_trans [OF _ quiet_emit])

lemma quiet_outs [quiets]:
  assumes "quiet n m" "\<exists>os. ns = nd_out m @ os \<and> (\<forall>e\<in>set os. \<not> vote_out e)"
  shows "quiet n (m\<lparr>nd_out := ns\<rparr>)"
proof -
  obtain os where os: "ns = nd_out m @ os" "\<forall>e\<in>set os. \<not> vote_out e" using assms(2) by blast
  show ?thesis unfolding os(1) by (rule quiet_trans [OF assms(1) quiet_out]) (use os(2) in blast)
qed

lemma quiet_logs [quiets]: "quiet n m \<Longrightarrow> log_quiet (nd_log m) rl \<Longrightarrow> quiet n (m\<lparr>nd_log := rl\<rparr>)"
  by (rule quiet_trans [OF _ quiet_log])

lemma quiet_cfgs [quiets]: "quiet n m \<Longrightarrow> cfg_ID c = cfg_ID (nd_cfg m) \<Longrightarrow> quiet n (m\<lparr>nd_cfg := c\<rparr>)"
  by (rule quiet_step) (simp_all add: core_def)

lemma quiet_afterWrites [quiets]: "quiet n m \<Longrightarrow> \<not> vote_work d \<Longrightarrow> quiet n (afterWrite s d m)"
  by (rule quiet_trans [OF _ afterWrite_quiet])

lemma quiet_foldI [quiets]:
  assumes "quiet n m" "\<And>x k. quiet k (f x k)" shows "quiet n (fold f xs m)"
  by (rule quiet_trans [OF assms(1) quiet_fold]) (rule assms(2))

text \<open>The structure of a handler: a state that is bound and used later, and case analysis.\<close>

lemma quiet_let: "quiet n m \<Longrightarrow> (\<And>x. quiet n x \<Longrightarrow> quiet n (f x)) \<Longrightarrow> quiet n (let x = m in f x)"
  by simp

lemma quiet_let_value: "(\<And>x. quiet n (f x)) \<Longrightarrow> quiet n (let x = v in f x)"
  by simp

lemma quiet_cases:
  "(b \<Longrightarrow> quiet n x) \<Longrightarrow> (\<not> b \<Longrightarrow> quiet n y) \<Longrightarrow> quiet n (if b then x else y)"
  "(\<And>a. r = Ok a \<Longrightarrow> quiet n (f a)) \<Longrightarrow> (\<And>e. quiet n (g e)) \<Longrightarrow> quiet n h \<Longrightarrow> quiet n (case_outcome f g h r)"
  "(\<And>a b. p = (a, b) \<Longrightarrow> quiet n (f2 a b)) \<Longrightarrow> quiet n (case_prod f2 p)"
  "quiet n x \<Longrightarrow> (\<And>v. ov = Some v \<Longrightarrow> quiet n (f3 v)) \<Longrightarrow> quiet n (case_option x f3 ov)"
  "quiet n (k m) \<Longrightarrow> (\<And>v. quiet n (f4 v m)) \<Longrightarrow> quiet n ((case ov of None \<Rightarrow> k | Some v \<Rightarrow> f4 v) m)"
  by (auto split: outcome.split prod.split option.split)

section \<open>Operations that are quiet\<close>

lemma core_sets [simp]:
  "core (set_nextIndex p i n) = core n" "core (set_matchIndex p i n) = core n" "core (set_inflight p k n) = core n"
  "core (set_snapshotInflight p b n) = core n" "core (resetElectionTimeout n) = core n"
  "core (notifyApply n) = core n" "core (markPeerDown p n) = core n" "core (notePeerUnreachable p n) = core n"
  "core (markPeerUp p n) = core n" "core (notePeerResponded p n) = core n" "core (startHBPumps n) = core n"
  "core (stopHBPumps n) = core n" "core (startHBPumpFor p n) = core n" "core (stopHBPumpFor p n) = core n"
  "core (heartbeatPeer p n) = core n" "core (adoptCommitQuorum q n) = core n"
  by (simp_all add: core_def set_nextIndex_def set_matchIndex_def set_inflight_def set_snapshotInflight_def
      resetElectionTimeout_def notifyApply_def markPeerDown_def notePeerUnreachable_def markPeerUp_def
      notePeerResponded_def startHBPumps_def stopHBPumps_def startHBPumpFor_def stopHBPumpFor_def heartbeatPeer_def
      adoptCommitQuorum_def Let_def)

lemma core_more [simp]:
  "core (endDeparture p n) = core n" "core (adoptClientTableCap c n) = core n" "core (note_entry e n) = core n"
  "core (track_new_peer i pc n) = core n" "core (restoreMembership ms n) = core n"
  by (simp_all add: core_def endDeparture_def stopHBPumpFor_def adoptClientTableCap_def note_entry_def track_new_peer_def
      startHBPumpFor_def set_nextIndex_def set_matchIndex_def restoreMembership_def Let_def
      split: prod.split outcome.split)

lemma core_fold: "(\<And>x m. core (f x m) = core m) \<Longrightarrow> core (fold f xs n) = core n"
  by (induction xs arbitrary: n) simp_all

lemma core_tick_departure [simp]: "core (tick_departure pd m) = core m"
  by (cases pd) (simp add: tick_departure_def Let_def, simp add: core_def)

lemma core_folds [simp]: "core (broadcastHeartbeat n) = core n" "core (noteAppendedConfig es n) = core n"
  "core (tickDepartures n) = core n"
  by (simp_all add: broadcastHeartbeat_def noteAppendedConfig_def tickDepartures_def core_fold Let_def split: option.split)

lemma quiet_cores [quiets]:
  assumes "quiet n m"
  shows "quiet n (set_nextIndex p i m)" "quiet n (set_matchIndex p i m)" "quiet n (set_inflight p k m)"
    "quiet n (set_snapshotInflight p b m)" "quiet n (resetElectionTimeout m)" "quiet n (notifyApply m)"
    "quiet n (markPeerDown p m)" "quiet n (notePeerUnreachable p m)" "quiet n (markPeerUp p m)"
    "quiet n (notePeerResponded p m)" "quiet n (startHBPumps m)" "quiet n (stopHBPumps m)"
    "quiet n (startHBPumpFor p m)" "quiet n (stopHBPumpFor p m)" "quiet n (heartbeatPeer p m)"
    "quiet n (adoptCommitQuorum q m)" "quiet n (endDeparture p m)" "quiet n (adoptClientTableCap c m)"
    "quiet n (note_entry e m)" "quiet n (track_new_peer i pc m)" "quiet n (restoreMembership ms m)"
    "quiet n (broadcastHeartbeat m)" "quiet n (noteAppendedConfig es m)" "quiet n (tickDepartures m)"
  by (rule quiet_step [OF assms], simp)+

lemma node_fail_quiet [quiets]: "quiet n m \<Longrightarrow> quiet n (node_fail e m)"
  by (auto simp: node_fail_def intro!: quiets)

lemma maybeRecordCommit_quiet [quiets]: "quiet n m \<Longrightarrow> quiet n (maybeRecordCommit m)"
  by (auto simp: maybeRecordCommit_def Let_def intro!: quiets log_saveCommitIndex_quiet)

lemma setCommitIndex_quiet [quiets]: "quiet n m \<Longrightarrow> quiet n (setCommitIndex i m)"
  by (auto simp: setCommitIndex_def intro!: quiets) (simp add: quiet_def)

lemma drains_quiet [quiets]:
  "quiet n m \<Longrightarrow> quiet n (drainPendingReads e m)" "quiet n m \<Longrightarrow> quiet n (reject_pending e m)"
  "quiet n m \<Longrightarrow> quiet n (resolve_batch m)"
  by (auto simp: drainPendingReads_def reject_pending_def resolve_batch_def Let_def intro!: quiets)

lemma broadcastReadBarrier_quiet [quiets]: "quiet n m \<Longrightarrow> quiet n (broadcastReadBarrier m)"
  by (auto simp: broadcastReadBarrier_def intro!: quiets)

lemma read_batch_quiet [quiets]:
  fixes n m :: "'st node"
  shows "quiet k n \<Longrightarrow> quiet k (startReadBatch n)" "quiet k m \<Longrightarrow> quiet k (confirmReadBatch m)"
proof (induction n and m arbitrary: k and k rule: startReadBatch_confirmReadBatch.induct)
  case (1 n)
  show ?case by (subst startReadBatch.simps) (auto simp: Let_def intro!: quiets 1)
next
  case (2 m)
  show ?case by (subst confirmReadBatch.simps) (auto simp: Let_def intro!: quiets 2)
qed

lemma maybeAdvanceCommit_quiet [quiets]: "quiet n m \<Longrightarrow> quiet n (maybeAdvanceCommit m)"
  by (auto simp: maybeAdvanceCommit_def Let_def intro!: quiets split: option.split)

lemma sendSnapshotToPeer_quiet [quiets]: "quiet n m \<Longrightarrow> quiet n (sendSnapshotToPeer p m)"
  by (auto simp: sendSnapshotToPeer_def start_transfer_def Let_def intro!: quiets split: outcome.split)

lemma replicateToPeer_quiet [quiets]: "quiet n m \<Longrightarrow> quiet n (replicateToPeer p m)"
  by (auto simp: replicateToPeer_def send_append_def Let_def intro!: quiets split: outcome.split)

lemma replicateToFollowers_quiet [quiets]: "quiet n m \<Longrightarrow> quiet n (replicateToFollowers m)"
  by (auto simp: replicateToFollowers_def Let_def intro!: quiets)

lemma beginDeparture_quiet [quiets]: "quiet n m \<Longrightarrow> quiet n (beginDeparture p i m)"
  by (auto simp: beginDeparture_def Let_def intro!: quiets)

section \<open>Membership\<close>

lemma adopt_add_quiet [quiets]: "quiet n m \<Longrightarrow> quiet n (adopt_add p m)"
  by (auto simp: adopt_add_def Let_def intro!: quiets split: option.split)

lemma adopt_remove_quiet [quiets]: "quiet n m \<Longrightarrow> quiet n (adopt_remove i k m)"
  by (auto simp: adopt_remove_def Let_def intro!: quiets)

lemma adopt_joint_quiet [quiets]: "quiet n m \<Longrightarrow> quiet n (adopt_joint old new m)"
  by (auto simp: adopt_joint_def Let_def intro!: quiets)

lemma adopt_finalise_quiet [quiets]: "quiet n m \<Longrightarrow> quiet n (adopt_finalise ms i m)"
  by (auto simp: adopt_finalise_def Let_def intro!: quiets)

lemma adoptConfigEntry_quiet [quiets]: "quiet n m \<Longrightarrow> quiet n (adoptConfigEntry cmd i m)"
  by (auto simp: adoptConfigEntry_def Let_def intro!: quiets split: outcome.split prod.split)

lemma adopt_entries_quiet [quiets]: "quiet n m \<Longrightarrow> quiet n (adopt_entries es m)"
  by (auto simp: adopt_entries_def intro!: quiets)

lemma rebuild_loop_quiet [quiets]: "quiet n m \<Longrightarrow> quiet n (fst (rebuild_loop lo l m))"
proof (induction lo l m rule: rebuild_loop.induct)
  case (1 lo l m)
  then show ?case by (subst rebuild_loop.simps) (auto split: outcome.split intro!: quiets)
qed

lemma rebuildMembership_quiet [quiets]: "quiet n m \<Longrightarrow> quiet n (fst (rebuildMembership m))"
  by (auto simp: rebuildMembership_def Let_def intro!: quiets)

lemma appendFinaliseEntry_quiet [quiets]: "quiet n m \<Longrightarrow> quiet n (appendFinaliseEntry ps b v m)"
  by (auto simp: appendFinaliseEntry_def Let_def case_prod_beta intro!: quiets appendOne_quiet)

lemma witnessMismatch_quiet [quiets]: "quiet n m \<Longrightarrow> quiet n (witnessMismatch b m)"
  by (auto simp: witnessMismatch_def intro!: quiets)

lemma notifyRemoved_quiet [quiets]: "quiet n m \<Longrightarrow> quiet n (notifyRemoved m)"
  by (auto simp: notifyRemoved_def intro!: quiets)

section \<open>Stepping down\<close>

lemma quiet_follower [quiets]: "quiet n m \<Longrightarrow> quiet n (m\<lparr>nd_state := Follower\<rparr>)"
  by (simp add: quiet_def)

lemma applyFollowerTransition_quiet [quiets]: "quiet n m \<Longrightarrow> quiet n (applyFollowerTransition l m)"
  by (auto simp: applyFollowerTransition_def setLeaderID_def setState_def Let_def intro!: quiets)

lemma becomeFollower_quiet: "quiet n m \<Longrightarrow> t \<le> nd_currentTerm m \<Longrightarrow> quiet n (becomeFollower t l m)"
  by (auto simp: becomeFollower_def intro!: quiets)

lemma leave_cluster_quiet [quiets]: "quiet n m \<Longrightarrow> quiet n (leave_cluster m)"
  by (auto simp: leave_cluster_def intro!: quiets becomeFollower_quiet)

lemma applyConfigChange_quiet [quiets]: "quiet n m \<Longrightarrow> quiet n (applyConfigChange cmd i m)"
  unfolding applyConfigChange_def
  by (assumption | rule quiet_let quiet_cases quiets | rule quiet_let_value)+

section \<open>Answers\<close>

lemma replyWhenDurable_quiet [quiets]:
  "quiet n m \<Longrightarrow> \<not> vote_work (DReply ch resp None) \<Longrightarrow> quiet n (replyWhenDurable ch resp s m)"
  by (simp add: replyWhenDurable_def quiet_afterWrites)

lemma answer_ack_quiet [quiets]: "quiet n m \<Longrightarrow> quiet n (answer_ack a oe m)"
  by (auto simp: answer_ack_def intro!: quiets)

lemma acks_quiet [quiets]:
  "quiet n m \<Longrightarrow> quiet n (answerSnapInstallAck i oe m)" "quiet n m \<Longrightarrow> quiet n (failSnapInstallAck e m)"
  by (auto simp: answerSnapInstallAck_def failSnapInstallAck_def intro!: quiets split: option.split)

section \<open>Replication\<close>

lemma append_tail_quiet [quiets]: "quiet n m \<Longrightarrow> quiet n (fst (append_tail es m))"
  by (auto simp: append_tail_def case_prod_beta intro!: quiets log_append_quiet)

lemma merge_entries_quiet [quiets]: "quiet n m \<Longrightarrow> quiet n (fst (merge_entries es m))"
proof (induction es m rule: merge_entries.induct)
  case (2 e es m)
  have r: "quiet n (fst (rebuildMembership (m\<lparr>nd_log := rl\<rparr>)))"
    if "truncateSuffix (nd_log m) (e_Index e) = Ok rl" for rl
    using that "2.prems" by (auto intro!: quiets truncateSuffix_quiet)
  show ?case
    using 2 r by (auto simp: Let_def case_prod_beta intro!: quiets truncateSuffix_quiet
        split: option.split outcome.split prod.split)
qed simp

lemma accept_entries_quiet [quiets]: "quiet n m \<Longrightarrow> quiet n (accept_entries req es s ch m)"
  by (auto simp: accept_entries_def append_response_def Let_def intro!: quiets)

lemma sendTimeoutNow_quiet [quiets]: "quiet n m \<Longrightarrow> quiet n (sendTimeoutNow p m)"
  by (auto simp: sendTimeoutNow_def intro!: quiets)

lemma handleLeadershipTransfer_quiet [quiets]: "quiet n m \<Longrightarrow> quiet n (fst (handleLeadershipTransfer p m))"
  by (auto simp: handleLeadershipTransfer_def Let_def intro!: quiets split: option.split)

lemma departingPeer_quiet: "departingPeer r m = Some k \<Longrightarrow> quiet n m \<Longrightarrow> quiet n k"
  by (auto simp: departingPeer_def Let_def intro!: quiets split: option.splits if_splits)

lemma progress_quiet [quiets]:
  "quiet n m \<Longrightarrow> quiet n (back_track r m)" "quiet n m \<Longrightarrow> quiet n (note_progress r m)"
  "quiet n m \<Longrightarrow> quiet n (count_barrier r m)"
  by (auto simp: back_track_def note_progress_def count_barrier_def Let_def intro!: quiets)

lemma append_results_quiet [quiets]:
  "quiet n m \<Longrightarrow> quiet n (append_succeeded r m)" "quiet n m \<Longrightarrow> quiet n (append_rejected r m)"
  unfolding append_succeeded_def append_rejected_def
  by (assumption | rule quiet_let quiet_cases quiets | rule quiet_let_value)+

section \<open>Reads\<close>

lemma leaseValid_quiet [quiets]: "quiet n m \<Longrightarrow> quiet n (snd (leaseValid now m))"
  by (auto simp: leaseValid_def Let_def intro!: quiets split: option.split)

lemma handleReadIndex_quiet [quiets]: "quiet n m \<Longrightarrow> quiet n (handleReadIndex msg m)"
  by (auto simp: handleReadIndex_def case_prod_beta intro!: quiets)

section \<open>Snapshots\<close>

lemma start_install_quiet [quiets]: "quiet n m \<Longrightarrow> quiet n (fst (start_install req ch resp m))"
  by (auto simp: start_install_def intro!: quiets)

lemma take_chunk_quiet [quiets]: "quiet n m \<Longrightarrow> quiet n (take_chunk req ch resp ps m)"
  by (auto simp: take_chunk_def Let_def intro!: quiets)

lemma load_table_quiet [quiets]: "quiet n m \<Longrightarrow> quiet n (load_table r m)"
  by (auto simp: load_table_def Let_def intro!: quiets)

lemma finish_install_quiet [quiets]: "quiet n m \<Longrightarrow> quiet n (finish_install r m)"
  unfolding finish_install_def
  by (assumption | rule quiet_let quiet_cases quiets | rule quiet_let_value)+

lemma maybeSnapshot_quiet [quiets]: "quiet n m \<Longrightarrow> quiet n (maybeSnapshot m)"
  by (auto simp: maybeSnapshot_def Let_def intro!: quiets split: option.split)

lemma handleSnapInstallResult_quiet: "quiet n (handleSnapInstallResult r n)"
  unfolding handleSnapInstallResult_def
  by (assumption | rule quiet_let quiet_cases quiets log_installSnapshot_quiet | rule quiet_let_value)+

lemma handleSnapshotResult_quiet: "quiet n (handleSnapshotResult sr n)"
  by (auto simp: handleSnapshotResult_def Let_def intro!: quiets log_compact_quiet split: option.split)

section \<open>Proposals and applied entries\<close>

lemma propose_cap_quiet [quiets]: "quiet n m \<Longrightarrow> quiet n (fst (propose_cap ps es m))"
  by (auto simp: propose_cap_def Let_def intro!: quiets)

lemma propose_quorum_quiet [quiets]: "quiet n m \<Longrightarrow> quiet n (fst (propose_quorum es m))"
  by (auto simp: propose_quorum_def Let_def intro!: quiets)

lemma propose_one_quiet: "quiet n (fst acc) \<Longrightarrow> quiet n (fst (propose_one limit p acc))"
  by (auto simp: propose_one_def Let_def intro!: quiets split: prod.split option.split sum.split)

lemma propose_all_quiet: "quiet n (fst acc) \<Longrightarrow> quiet n (fst (fold (propose_one limit) ps acc))"
  by (induction ps arbitrary: acc) (simp_all add: propose_one_quiet)

lemma reject_all_quiet [quiets]: "quiet n m \<Longrightarrow> quiet n (reject_all e ps m)"
  by (auto simp: reject_all_def intro!: quiets)

lemma propose_append_quiet:
  assumes "quiet n m" "\<not> vote_work d"
  shows "quiet n (maybeAdvanceCommit (replicateToFollowers (afterWrite s d
    (m\<lparr>nd_log := fst (log_append (nd_log m) es)\<rparr>))))"
  using assms by (auto intro!: quiets log_append_quiet)

lemma handleProposals_quiet: "quiet n (handleProposals ps n)"
proof -
  define a where "a = propose_cap ps [] n"
  define b where "b = propose_quorum (snd a) (fst a)"
  define c where "c = fold (propose_one (unstableLimit n)) ps (fst b, snd b, unstableSize (nd_log n))"
  have "quiet n (fst a)" by (simp add: a_def quiets)
  then have "quiet n (fst b)" by (simp add: b_def quiets)
  then have c: "quiet n (fst c)" by (simp add: c_def propose_all_quiet)
  have "handleProposals ps n =
    (if nd_state n \<noteq> Leader then reject_all (ErrNotLeader (nd_leaderID n)) ps n
     else if nd_transferTarget n \<noteq> [] then reject_all ErrLeadershipTransferInProgress ps n
     else if fst (snd c) = [] then fst c
     else let m = noteAppendedConfig (fst (snd c)) (fst c)
          in maybeAdvanceCommit (replicateToFollowers (afterWrite (snd (log_append (nd_log m) (fst (snd c))))
            (DPropose (map e_Index (fst (snd c)))) (m\<lparr>nd_log := fst (log_append (nd_log m) (fst (snd c)))\<rparr>))))"
    by (simp add: handleProposals_def Let_def case_prod_beta a_def [symmetric] b_def [symmetric] c_def [symmetric])
  then show ?thesis using c by (simp add: Let_def quiets propose_append_quiet)
qed

lemma record_result_quiet [quiets]: "quiet n m \<Longrightarrow> quiet n (record_result ar m)"
  by (auto simp: record_result_def intro!: quiets split: outcome.split prod.split)

lemma handleApplyResult_quiet: "quiet n (handleApplyResult ar n)"
  unfolding handleApplyResult_def
  by (assumption | rule quiet_let quiet_cases quiets | rule quiet_let_value | simp)+

section \<open>Ticks\<close>

lemma check_quorum_quiet [quiets]: "quiet n m \<Longrightarrow> quiet n (check_quorum m)"
  by (auto simp: check_quorum_def Let_def intro!: quiets becomeFollower_quiet)

lemma tick_leader_quiet: "quiet n (tick_leader n)"
  unfolding tick_leader_def
  by (assumption | rule quiet_let quiet_cases quiets | rule quiet_let_value)+

end
