(* ===== verification/Node_Vote.thy ===== *)
theory Node_Vote
  imports Node_Frame
begin

text \<open>
  The part of a node's state an election depends on, and what every event does to it.
  The invariant \<open>elect_inv\<close> ties together the term and vote in memory, the hard states
  queued for the store, the one in the store and all those it ever held, the votes that
  wait for a write, the votes sent, and the votes counted.
\<close>

section \<open>Hard states\<close>

definition hs_of :: "Term \<Rightarrow> NodeID \<Rightarrow> HardState" where
  "hs_of t v = \<lparr>hs_CurrentTerm = t, hs_VotedFor = v\<rparr>"

definition node_hs :: "'st node \<Rightarrow> HardState" where
  "node_hs n = hs_of (nd_currentTerm n) (nd_votedFor n)"

text \<open>A later term, or the same term with the vote kept or cast for the first time.\<close>

definition hs_le :: "HardState \<Rightarrow> HardState \<Rightarrow> bool" where
  "hs_le h h' \<longleftrightarrow> hs_CurrentTerm h < hs_CurrentTerm h'
    \<or> hs_CurrentTerm h = hs_CurrentTerm h' \<and> (hs_VotedFor h = [] \<or> hs_VotedFor h = hs_VotedFor h')"

lemma hs_le_refl [simp]: "hs_le h h"
  by (simp add: hs_le_def)

lemma hs_le_trans: "hs_le a b \<Longrightarrow> hs_le b c \<Longrightarrow> hs_le a c"
  by (auto simp: hs_le_def)

lemma hs_of_inj [simp]: "hs_of t v = hs_of t' v' \<longleftrightarrow> t = t' \<and> v = v'"
  by (simp add: hs_of_def)

lemma hs_le_of [simp]: "hs_le (hs_of t v) (hs_of t' v') \<longleftrightarrow> t < t' \<or> t = t' \<and> (v = [] \<or> v = v')"
  by (simp add: hs_of_def hs_le_def)

definition pending_hs :: "'st raftLog \<Rightarrow> HardState list" where
  "pending_hs rl = map wo_hs (filter (\<lambda>op. wo_kind op = writeHardState) (pending_writes rl))"

abbreviation store_of :: "'st node \<Rightarrow> 'st" where
  "store_of n \<equiv> sw_storage (rl_w (nd_log n))"

section \<open>The invariant\<close>

type_synonym history = "NodeID \<Rightarrow> HardState set"

text \<open>What a node says it will have been in memory: the store, then the queue, then memory.
  \<open>H q\<close> is every hard state the store of \<open>q\<close> has held.\<close>

definition chain_ok :: "('st \<Rightarrow> HardState) \<Rightarrow> history \<Rightarrow> NodeID \<Rightarrow> 'st node \<Rightarrow> bool" where
  "chain_ok hard H p n \<longleftrightarrow>
    sorted_wrt hs_le (hard (store_of n) # pending_hs (nd_log n) @ [node_hs n])
    \<and> hard (store_of n) \<in> H p \<and> (\<forall>h\<in>H p. hs_le h (hard (store_of n)))
    \<and> (\<forall>h\<in>H p. \<forall>h'\<in>H p. hs_le h h' \<or> hs_le h' h)"

text \<open>Writes are numbered in the order they complete; \<open>ds\<close> are completions not yet seen.\<close>

definition seq_ok :: "writeDone list \<Rightarrow> 'st node \<Rightarrow> bool" where
  "seq_ok ds n \<longleftrightarrow> sorted_wrt (<) (nd_completedWriteSeq n # map wd_seq ds
    @ map wo_seq (pending_writes (nd_log n)) @ [Suc (rl_nextSeq (nd_log n))])"

text \<open>A granted vote answers a request of a candidate that holds its own vote.\<close>

definition grant_ok :: "history \<Rightarrow> respCh \<Rightarrow> RequestVoteResponse \<Rightarrow> bool" where
  "grant_ok H ch r \<longleftrightarrow> (\<exists>req. rc_req ch = QVote req \<and> \<not> rv_PreVote req \<and> rvr_Term r = rv_Term req
    \<and> rv_CandidateID req = rc_from ch \<and> rc_from ch \<noteq> []
    \<and> hs_of (rv_Term req) (rc_from ch) \<in> H (rc_from ch))"

fun work_hs :: "NodeID \<Rightarrow> deferred \<Rightarrow> HardState" where
  "work_hs p (DCandidate t) = hs_of t p"
| "work_hs p (DReply ch (PVote r) oe) = hs_of (rvr_Term r) (rc_from ch)"
| "work_hs p _ = hs_of 0 []"

fun work_ok :: "history \<Rightarrow> deferred \<Rightarrow> bool" where
  "work_ok H (DReply ch (PVote r) None) = (rvr_VoteGranted r \<longrightarrow> grant_ok H ch r)"
| "work_ok H _ = True"

text \<open>Work that waits for write \<open>k\<close> and needs the hard state \<open>h\<close> on disk: it is, or it is queued
  no later than \<open>k\<close>, or a write no later than \<open>k\<close> has failed.\<close>

definition backed :: "history \<Rightarrow> NodeID \<Rightarrow> writeDone list \<Rightarrow> 'st raftLog \<Rightarrow> nat \<Rightarrow> HardState \<Rightarrow> bool" where
  "backed H p ds rl k h \<longleftrightarrow> h \<in> H p
    \<or> (\<exists>op\<in>set (pending_writes rl). wo_kind op = writeHardState \<and> wo_hs op = h \<and> wo_seq op \<le> k)
    \<or> (\<exists>d\<in>set ds. wd_err d \<noteq> None \<and> wd_seq d \<le> k)"

definition deferred_ok :: "history \<Rightarrow> NodeID \<Rightarrow> writeDone list \<Rightarrow> 'st raftLog \<Rightarrow> deferredWrite list \<Rightarrow> bool" where
  "deferred_ok H p ds rl ws \<longleftrightarrow> (\<forall>d\<in>set ws. vote_work (dw_work d) \<longrightarrow>
    backed H p ds rl (dw_seq d) (work_hs p (dw_work d)) \<and> work_ok H (dw_work d))"

fun effect_ok :: "history \<Rightarrow> NodeID \<Rightarrow> outEffect \<Rightarrow> bool" where
  "effect_ok H p (OVote q r) = (rv_CandidateID r = p \<and> hs_of (rv_Term r) p \<in> H p)"
| "effect_ok H p (OReply ch (PVote r) None) = (grant_ok H ch r \<and> hs_of (rvr_Term r) (rc_from ch) \<in> H p)"
| "effect_ok H p _ = True"

definition out_ok :: "history \<Rightarrow> NodeID \<Rightarrow> outEffect list \<Rightarrow> bool" where
  "out_ok H p es \<longleftrightarrow> (\<forall>e\<in>set es. vote_out e \<longrightarrow> effect_ok H p e)"

text \<open>Every vote counted is on the disk of who cast it, and once there is one the candidate's
  own is on its disk.\<close>

definition count_ok :: "history \<Rightarrow> NodeID \<Rightarrow> 'st node \<Rightarrow> bool" where
  "count_ok H p n \<longleftrightarrow> (nd_state n = Candidate \<longrightarrow>
    (\<forall>q. gm_get False (nd_receivedVoteSet n) q \<longrightarrow>
      hs_of (nd_currentTerm n) p \<in> H q \<and> hs_of (nd_currentTerm n) p \<in> H p))"

definition elected :: "history \<Rightarrow> NodeID set \<Rightarrow> NodeID \<Rightarrow> Term \<Rightarrow> bool" where
  "elected H V p t \<longleftrightarrow> (\<exists>a l A. quorum_set electionQuorum a l V A \<and> (\<forall>q\<in>A. hs_of t p \<in> H q))"

definition elect_inv :: "'st Storage \<Rightarrow> ('st \<Rightarrow> HardState) \<Rightarrow> NodeID set \<Rightarrow> history \<Rightarrow> NodeID \<Rightarrow> writeDone list
    \<Rightarrow> 'st node \<Rightarrow> bool" where
  "elect_inv ops hard V H p ds n \<longleftrightarrow>
    cfg_ID (nd_cfg n) = p \<and> p \<noteq> [] \<and> \<not> sw_closed (rl_w (nd_log n)) \<and> sw_ops (rl_w (nd_log n)) = ops
    \<and> (sw_running (rl_w (nd_log n)) \<noteq> [] \<longrightarrow> batch_shape ops (sw_running (rl_w (nd_log n))))
    \<and> chain_ok hard H p n \<and> seq_ok ds n \<and> deferred_ok H p ds (nd_log n) (nd_deferredWrites n)
    \<and> out_ok H p (nd_out n) \<and> count_ok H p n \<and> (nd_state n = Leader \<longrightarrow> elected H V p (nd_currentTerm n))"

lemma elect_invD:
  assumes "elect_inv ops hard V H p ds n"
  shows "cfg_ID (nd_cfg n) = p" "p \<noteq> []" "\<not> sw_closed (rl_w (nd_log n))" "sw_ops (rl_w (nd_log n)) = ops"
    "chain_ok hard H p n" "seq_ok ds n" "deferred_ok H p ds (nd_log n) (nd_deferredWrites n)"
    "out_ok H p (nd_out n)" "count_ok H p n" "nd_state n = Leader \<Longrightarrow> elected H V p (nd_currentTerm n)"
    "sw_running (rl_w (nd_log n)) \<noteq> [] \<Longrightarrow> batch_shape ops (sw_running (rl_w (nd_log n)))"
  using assms by (auto simp: elect_inv_def)

section \<open>Quiet steps keep it\<close>

lemma log_quiet_pending:
  assumes "log_quiet rl rl'"
  obtains ops where "pending_writes rl' = pending_writes rl @ ops" "\<forall>op\<in>set ops. wo_kind op \<noteq> writeHardState"
    "\<forall>op\<in>set ops. rl_nextSeq rl < wo_seq op \<and> wo_seq op \<le> rl_nextSeq rl'" "sorted_wrt (<) (map wo_seq ops)"
proof -
  from assms obtain ops where "sw_queue (rl_w rl') = sw_queue (rl_w rl) @ ops" "sorted_wrt (<) (map wo_seq ops)"
    "\<forall>op\<in>set ops. wo_kind op \<noteq> writeHardState \<and> rl_nextSeq rl < wo_seq op \<and> wo_seq op \<le> rl_nextSeq rl'"
    by (auto simp: log_quiet_def)
  then show ?thesis using assms by (intro that [of ops]) (simp_all add: pending_writes_def log_quiet_def)
qed

lemma log_quiet_pending_hs: "log_quiet rl rl' \<Longrightarrow> pending_hs rl' = pending_hs rl"
  by (erule log_quiet_pending) (auto simp: pending_hs_def filter_empty_conv)

lemma seq_ok_quiet:
  assumes "seq_ok ds n" "quiet n m"
  shows "seq_ok ds m"
proof -
  have q: "log_quiet (nd_log n) (nd_log m)" "nd_completedWriteSeq m = nd_completedWriteSeq n"
    using assms(2) by (simp_all add: quiet_def)
  have le: "rl_nextSeq (nd_log n) \<le> rl_nextSeq (nd_log m)" using q(1) by (simp add: log_quiet_def)
  from q(1) obtain xs where xs: "pending_writes (nd_log m) = pending_writes (nd_log n) @ xs"
    "\<forall>op\<in>set xs. rl_nextSeq (nd_log n) < wo_seq op \<and> wo_seq op \<le> rl_nextSeq (nd_log m)"
    "sorted_wrt (<) (map wo_seq xs)"
    by (rule log_quiet_pending) blast
  show ?thesis
    using assms(1) xs le unfolding seq_ok_def q(2)
    by (fastforce simp: sorted_wrt_append)
qed

lemma deferred_ok_quiet:
  assumes "deferred_ok H p ds (nd_log n) (nd_deferredWrites n)" "quiet n m"
  shows "deferred_ok H p ds (nd_log m) (nd_deferredWrites m)"
proof -
  have sub: "set (pending_writes (nd_log n)) \<subseteq> set (pending_writes (nd_log m))"
    using assms(2) by (auto simp: quiet_def elim!: log_quiet_pending)
  show ?thesis
    using assms sub unfolding deferred_ok_def backed_def quiet_def by blast
qed

lemma elect_inv_quiet:
  assumes "elect_inv ops hard V H p ds n" "quiet n m"
  shows "elect_inv ops hard V H p ds m"
proof -
  note d = elect_invD [OF assms(1)]
  have q: "log_quiet (nd_log n) (nd_log m)" "node_hs m = node_hs n" "cfg_ID (nd_cfg m) = cfg_ID (nd_cfg n)"
    "nd_state m = nd_state n \<or> nd_state m = Follower" "nd_currentTerm m = nd_currentTerm n"
    "nd_receivedVoteSet m = nd_receivedVoteSet n"
    using assms(2) by (simp_all add: quiet_def node_hs_def)
  have "chain_ok hard H p m"
    using d(5) q(1,2) log_quiet_pending_hs [OF q(1)] by (simp add: chain_ok_def log_quiet_def)
  moreover have "out_ok H p (nd_out m)" using d(8) assms(2) by (auto simp: out_ok_def quiet_def)
  moreover have "count_ok H p m" using d(9) q by (auto simp: count_ok_def)
  ultimately show ?thesis
    using assms(1) q seq_ok_quiet [OF d(6) assms(2)] deferred_ok_quiet [OF d(7) assms(2)]
    by (auto simp: elect_inv_def log_quiet_def)
qed

section \<open>Adopting a hard state\<close>

lemma saveTerm_fields:
  assumes "\<not> sw_closed (rl_w (nd_log n))"
  shows "pending_writes (nd_log (fst (saveTerm t v n))) = pending_writes (nd_log n)
      @ [hs_op (Suc (rl_nextSeq (nd_log n))) (hs_of t v) (rl_queuedDurable (nd_log n))]"
    "snd (saveTerm t v n) = Suc (rl_nextSeq (nd_log n))"
    "rl_nextSeq (nd_log (fst (saveTerm t v n))) = Suc (rl_nextSeq (nd_log n))"
    "nd_unsafeTermSeq (fst (saveTerm t v n)) = Suc (rl_nextSeq (nd_log n))"
    "sw_storage (rl_w (nd_log (fst (saveTerm t v n)))) = sw_storage (rl_w (nd_log n))"
    "sw_running (rl_w (nd_log (fst (saveTerm t v n)))) = sw_running (rl_w (nd_log n))"
    "sw_ops (rl_w (nd_log (fst (saveTerm t v n)))) = sw_ops (rl_w (nd_log n))"
    "sw_done (rl_w (nd_log (fst (saveTerm t v n)))) = sw_done (rl_w (nd_log n))"
    "\<not> sw_closed (rl_w (nd_log (fst (saveTerm t v n))))"
  using assms by (simp_all add: saveTerm_def log_saveHardState_def nextWriteSeq_def enqueue_def pending_writes_def
      hs_of_def Let_def)

lemma saveTerm_same [simp]:
  "nd_cfg (fst (saveTerm t v n)) = nd_cfg n" "nd_state (fst (saveTerm t v n)) = nd_state n"
  "nd_currentTerm (fst (saveTerm t v n)) = t" "nd_votedFor (fst (saveTerm t v n)) = v"
  "nd_deferredWrites (fst (saveTerm t v n)) = nd_deferredWrites n" "nd_out (fst (saveTerm t v n)) = nd_out n"
  "nd_completedWriteSeq (fst (saveTerm t v n)) = nd_completedWriteSeq n"
  "nd_receivedVoteSet (fst (saveTerm t v n)) = nd_receivedVoteSet n"
  "nd_commitIndex (fst (saveTerm t v n)) = nd_commitIndex n"
  by (simp_all add: saveTerm_def case_prod_beta)

lemma backed_more:
  "set (pending_writes rl) \<subseteq> set (pending_writes rl') \<Longrightarrow> backed H p ds rl k h \<Longrightarrow> backed H p ds rl' k h"
  by (auto simp: backed_def)

text \<open>A role that counts votes or leads depends on the term only.\<close>

lemma elect_inv_saveTerm:
  assumes inv: "elect_inv ops hard V H p ds n" and le: "hs_le (node_hs n) (hs_of t v)"
    and role: "t = nd_currentTerm n \<or> nd_state n = Follower \<or> nd_state n = PreCandidate"
  shows "elect_inv ops hard V H p ds (fst (saveTerm t v n))"
proof -
  note d = elect_invD [OF inv]
  let ?m = "fst (saveTerm t v n)"
  note f = saveTerm_fields [OF d(3), of t v]
  have hs: "pending_hs (nd_log ?m) = pending_hs (nd_log n) @ [hs_of t v]" "node_hs ?m = hs_of t v"
    by (simp_all add: pending_hs_def f(1) hs_op_def node_hs_def)
  have "chain_ok hard H p ?m"
    using d(5) le unfolding chain_ok_def hs f(5) by (auto simp: sorted_wrt_append intro: hs_le_trans)
  moreover have "seq_ok ds ?m"
    using d(6) unfolding seq_ok_def f(1,3) by (auto simp: sorted_wrt_append hs_op_def less_Suc_eq)
  moreover have "deferred_ok H p ds (nd_log ?m) (nd_deferredWrites ?m)"
    using d(7) backed_more [of "nd_log n" "nd_log ?m" H p ds] unfolding deferred_ok_def saveTerm_same
    by (auto simp: f(1))
  moreover have "count_ok H p ?m" "nd_state ?m = Leader \<Longrightarrow> elected H V p (nd_currentTerm ?m)"
    using d(9,10) role by (auto simp: count_ok_def)
  ultimately show ?thesis using inv f by (simp add: elect_inv_def)
qed

lemma elect_inv_state:
  assumes "elect_inv ops hard V H p ds n"
  shows "elect_inv ops hard V H p ds (n\<lparr>nd_state := Follower\<rparr>)"
    "elect_inv ops hard V H p ds (n\<lparr>nd_state := PreCandidate, nd_receivedVoteSet := vs\<rparr>)"
    "elect_inv ops hard V H p ds (n\<lparr>nd_state := Candidate, nd_receivedVoteSet := Some []\<rparr>)"
    "elected H V p (nd_currentTerm n) \<Longrightarrow> elect_inv ops hard V H p ds (n\<lparr>nd_state := Leader\<rparr>)"
  using assms by (simp_all add: elect_inv_def chain_ok_def seq_ok_def count_ok_def node_hs_def gm_get_def)

lemma elect_inv_defer:
  assumes "elect_inv ops hard V H p ds n" "backed H p ds (nd_log n) k (work_hs p w)" "work_ok H w"
  shows "elect_inv ops hard V H p ds (n\<lparr>nd_deferredWrites := nd_deferredWrites n @ [\<lparr>dw_seq = k, dw_work = w\<rparr>]\<rparr>)"
  using assms by (simp add: elect_inv_def chain_ok_def seq_ok_def count_ok_def node_hs_def deferred_ok_def)

lemma elect_inv_emit:
  assumes "elect_inv ops hard V H p ds n" "effect_ok H p e"
  shows "elect_inv ops hard V H p ds (emit e n)"
  using assms by (auto simp: elect_inv_def chain_ok_def seq_ok_def count_ok_def node_hs_def out_ok_def emit_def)

lemma saveTerm_state: "fst (saveTerm t v (n\<lparr>nd_state := s\<rparr>)) = (fst (saveTerm t v n))\<lparr>nd_state := s\<rparr>"
  by (simp add: saveTerm_def case_prod_beta)

lemma applyFollowerTransition_from: "quiet (n\<lparr>nd_state := Follower\<rparr>) (applyFollowerTransition l n)"
  unfolding applyFollowerTransition_def setLeaderID_def setState_def
  by (assumption | rule quiet_let quiet_cases quiets | rule quiet_let_value)+

lemma elect_inv_step_down:
  assumes "elect_inv ops hard V H p ds n" "hs_le (node_hs n) (hs_of t v)"
  shows "elect_inv ops hard V H p ds (applyFollowerTransition l (fst (saveTerm t v n)))"
proof -
  have "node_hs (n\<lparr>nd_state := Follower\<rparr>) = node_hs n" by (simp add: node_hs_def)
  then have "elect_inv ops hard V H p ds (fst (saveTerm t v (n\<lparr>nd_state := Follower\<rparr>)))"
    using assms by (intro elect_inv_saveTerm elect_inv_state(1)) simp_all
  then show ?thesis
    unfolding saveTerm_state by (rule elect_inv_quiet [OF _ applyFollowerTransition_from])
qed

lemma elect_inv_becomeFollower:
  assumes "elect_inv ops hard V H p ds n"
  shows "elect_inv ops hard V H p ds (becomeFollower t l n)"
proof (cases "nd_currentTerm n < t")
  case True
  then show ?thesis
    using elect_inv_step_down [OF assms, of t "[]"] by (simp add: becomeFollower_def node_hs_def)
next
  case False
  then show ?thesis using assms by (intro elect_inv_quiet [OF assms] becomeFollower_quiet) simp_all
qed

section \<open>Granting a vote\<close>

lemma seq_ok_completed: "seq_ok ds n \<Longrightarrow> nd_completedWriteSeq n \<le> rl_nextSeq (nd_log n)"
  by (simp add: seq_ok_def)

lemma queued_backed: "hs_op s h d \<in> set (pending_writes rl) \<Longrightarrow> s \<le> k \<Longrightarrow> backed H p ds rl k h"
  unfolding backed_def by (intro disjI2 disjI1 bexI) (simp_all add: hs_op_def)

lemma elect_inv_grant:
  assumes inv: "elect_inv ops hard V H p ds n" and le: "hs_le (node_hs n) (hs_of t (rc_from ch))"
    and role: "t = nd_currentTerm n \<or> s = Follower" and s: "s = nd_state n \<or> s = Follower"
    and q: "quiet ((fst (saveTerm t (rc_from ch) n))\<lparr>nd_state := s\<rparr>) m"
    and ok: "grant_ok H ch \<lparr>rvr_Term = t, rvr_VoteGranted = True\<rparr>"
  shows "elect_inv ops hard V H p ds (replyWhenDurable ch (vote_response t True) 0 m)"
proof -
  let ?k = "(fst (saveTerm t (rc_from ch) n))\<lparr>nd_state := s\<rparr>"
  note f = saveTerm_fields [OF elect_invD(3) [OF inv], of t "rc_from ch"]
  have "elect_inv ops hard V H p ds (n\<lparr>nd_state := s\<rparr>)"
    using s elect_inv_state(1) [OF inv] inv by auto
  then have "elect_inv ops hard V H p ds (fst (saveTerm t (rc_from ch) (n\<lparr>nd_state := s\<rparr>)))"
    using le role by (intro elect_inv_saveTerm) (auto simp: node_hs_def)
  then have m: "elect_inv ops hard V H p ds m" unfolding saveTerm_state by (rule elect_inv_quiet [OF _ q])
  have gate: "nd_unsafeTermSeq m = Suc (rl_nextSeq (nd_log n))" "nd_completedWriteSeq m \<le> rl_nextSeq (nd_log n)"
    using q f(4) seq_ok_completed [OF elect_invD(6) [OF inv]] by (simp_all add: quiet_def)
  have "set (pending_writes (nd_log ?k)) \<subseteq> set (pending_writes (nd_log m))"
    using q by (auto simp: quiet_def elim!: log_quiet_pending)
  then have "backed H p ds (nd_log m) (Suc (rl_nextSeq (nd_log n))) (hs_of t (rc_from ch))"
    by (intro queued_backed [of "Suc (rl_nextSeq (nd_log n))" _ "rl_queuedDurable (nd_log n)"]) (auto simp: f(1))
  then show ?thesis
    using gate ok elect_inv_defer [OF m, of "Suc (rl_nextSeq (nd_log n))" "DReply ch (vote_response t True) None"]
    by (simp add: replyWhenDurable_def sendGate_def afterWrite_with_def vote_response_def)
qed

lemma deny_quiet [quiets]: "quiet n m \<Longrightarrow> quiet n (replyWhenDurable ch (vote_response t False) s m)"
  by (rule replyWhenDurable_quiet) (simp_all add: vote_response_def)

text \<open>What a candidate's request carries.\<close>

definition request_ok :: "history \<Rightarrow> respCh \<Rightarrow> RequestVoteRequest \<Rightarrow> bool" where
  "request_ok H ch req \<longleftrightarrow> rc_req ch = QVote req \<and> (\<not> rv_PreVote req \<longrightarrow> rv_CandidateID req = rc_from ch
    \<and> rc_from ch \<noteq> [] \<and> hs_of (rv_Term req) (rc_from ch) \<in> H (rc_from ch))"

lemma handle_pre_vote_quiet:
  assumes "rc_req ch = QVote req" "rv_PreVote req"
  shows "quiet n (handle_pre_vote req ch n)"
proof -
  have "quiet n (emit (OReply ch (vote_response t b) None) n)" for t b
    using assms by (intro quiet_emit) (simp add: vote_out_def vote_response_def)
  then show ?thesis by (simp add: handle_pre_vote_def Let_def)
qed

lemma elect_inv_handleRequestVote:
  assumes inv: "elect_inv ops hard V H p ds n" and ok: "request_ok H ch req"
  shows "elect_inv ops hard V H p ds (handleRequestVote req ch n)"
proof (cases "rv_PreVote req")
  case True
  then show ?thesis
    using elect_inv_quiet [OF inv handle_pre_vote_quiet] ok by (simp add: handleRequestVote_def request_ok_def)
next
  case real: False
  let ?c = "rc_from ch" and ?t = "rv_Term req"
  have c: "rv_CandidateID req = ?c" "?c \<noteq> []" and g: "grant_ok H ch \<lparr>rvr_Term = ?t, rvr_VoteGranted = True\<rparr>"
    using ok real by (auto simp: request_ok_def grant_ok_def)
  have down: "elect_inv ops hard V H p ds (replyWhenDurable ch (vote_response u False) 0
      (applyFollowerTransition [] (fst (saveTerm ?t [] n))))" if "nd_currentTerm n < ?t" for u
    by (rule elect_inv_quiet [OF elect_inv_step_down [OF inv, of ?t "[]" "[]"]])
      (use that in \<open>simp_all add: node_hs_def deny_quiet\<close>)
  have later: "elect_inv ops hard V H p ds (replyWhenDurable ch (vote_response ?t True) 0
      (applyFollowerTransition [] (fst (saveTerm ?t ?c n))))" if "nd_currentTerm n < ?t"
    using that by (intro elect_inv_grant [OF inv _ _ _ applyFollowerTransition_from g]) (simp_all add: node_hs_def)
  have reset: "quiet ((fst (saveTerm ?t ?c n))\<lparr>nd_state := nd_state n\<rparr>) (resetElectionTimeout (fst (saveTerm ?t ?c n)))"
    by (rule quiet_core) (simp, simp add: core_def)
  have same: "elect_inv ops hard V H p ds (replyWhenDurable ch (vote_response ?t True) 0
      (resetElectionTimeout (fst (saveTerm ?t ?c n))))"
    if "nd_currentTerm n = ?t" "nd_votedFor n = [] \<or> nd_votedFor n = ?c"
    using that by (intro elect_inv_grant [OF inv _ _ _ reset g]) (auto simp: node_hs_def)
  have deny: "elect_inv ops hard V H p ds (replyWhenDurable ch (vote_response u False) 0 n)" for u
    by (rule elect_inv_quiet [OF inv]) (intro quiets)
  have tm: "nd_currentTerm (applyFollowerTransition l (fst (saveTerm t v n))) = t" for l t v
    using applyFollowerTransition_from [of "fst (saveTerm t v n)" l] by (simp add: quiet_def)
  show ?thesis
    using real down later same deny by (auto simp: handleRequestVote_def Let_def c tm not_less)
qed

section \<open>Standing for election\<close>

lemma becomeCandidate_from:
  "quiet (m\<lparr>nd_state := Candidate, nd_receivedVoteSet := Some []\<rparr>)
    (resetElectionTimeout ((setLeaderID [] (setState Candidate m))\<lparr>nd_nextIndex := None, nd_matchIndex := None,
      nd_receivedVoteSet := Some []\<rparr>))"
  by (rule quiet_core, simp, simp add: core_def setLeaderID_def setState_def)

lemma elect_inv_becomeCandidate:
  assumes inv: "elect_inv ops hard V H p ds n"
  shows "elect_inv ops hard V H p ds (becomeCandidate n)"
proof -
  define t where "t = nd_currentTerm n + 1"
  let ?s = "Suc (rl_nextSeq (nd_log n))"
  let ?k = "fst (saveTerm t p (n\<lparr>nd_state := Follower\<rparr>))"
  let ?m = "resetElectionTimeout ((setLeaderID [] (setState Candidate (fst (saveTerm t p n))))\<lparr>nd_nextIndex := None,
      nd_matchIndex := None, nd_receivedVoteSet := Some []\<rparr>)"
  note f = saveTerm_fields [OF elect_invD(3) [OF inv], of t p]
  have "elect_inv ops hard V H p ds ?k"
    by (intro elect_inv_saveTerm elect_inv_state(1) inv) (simp_all add: node_hs_def t_def)
  then have "elect_inv ops hard V H p ds (?k\<lparr>nd_state := Candidate, nd_receivedVoteSet := Some []\<rparr>)"
    by (rule elect_inv_state(3))
  then have "elect_inv ops hard V H p ds ((fst (saveTerm t p n))\<lparr>nd_state := Candidate, nd_receivedVoteSet := Some []\<rparr>)"
    by (simp add: saveTerm_state)
  then have m: "elect_inv ops hard V H p ds ?m" by (rule elect_inv_quiet [OF _ becomeCandidate_from])
  have q: "quiet ((fst (saveTerm t p n))\<lparr>nd_state := Candidate, nd_receivedVoteSet := Some []\<rparr>) ?m"
    by (rule becomeCandidate_from)
  have "set (pending_writes (nd_log (fst (saveTerm t p n)))) \<subseteq> set (pending_writes (nd_log ?m))"
    using q by (auto simp: quiet_def elim!: log_quiet_pending)
  then have b: "backed H p ds (nd_log ?m) ?s (hs_of t p)"
    by (intro queued_backed [of ?s _ "rl_queuedDurable (nd_log n)"]) (auto simp: f(1))
  have gate: "nd_completedWriteSeq ?m \<le> rl_nextSeq (nd_log n)"
    using q seq_ok_completed [OF elect_invD(6) [OF inv]] by (simp add: quiet_def)
  have "becomeCandidate n = afterWrite_with run_deferred ?s (DCandidate t) ?m"
    using elect_invD(1) [OF inv] f(2) by (simp add: becomeCandidate_def Let_def case_prod_beta t_def)
  then show ?thesis
    using gate elect_inv_defer [OF m b [folded work_hs.simps(1)]] by (simp add: afterWrite_with_def)
qed

lemma broadcast_pre_vote_quiet [quiets]: "quiet n m \<Longrightarrow> quiet n (broadcastRequestVote True m)"
  by (auto simp: broadcastRequestVote_def vote_request_def intro!: quiets)

lemma elect_inv_becomePreCandidate:
  assumes inv: "elect_inv ops hard V H p ds n"
  shows "elect_inv ops hard V H p ds (becomePreCandidate n)"
proof -
  let ?m = "resetElectionTimeout ((setLeaderID [] (setState PreCandidate n))\<lparr>nd_nextIndex := None, nd_matchIndex := None,
    nd_receivedVoteSet := Some []\<rparr>)"
  have "quiet (n\<lparr>nd_state := PreCandidate, nd_receivedVoteSet := Some []\<rparr>) ?m"
    by (rule quiet_core, simp, simp add: core_def setLeaderID_def setState_def)
  then have m: "elect_inv ops hard V H p ds ?m" by (rule elect_inv_quiet [OF elect_inv_state(2) [OF inv]])
  then have "elect_inv ops hard V H p ds (broadcastRequestVote True ?m)"
    by (rule elect_inv_quiet) (intro quiets)
  then show ?thesis using elect_inv_becomeCandidate [OF m] by (simp add: becomePreCandidate_def Let_def)
qed

section \<open>Winning\<close>

lemma appendOne_eq_quiet: "appendOne rl e = (rl', s) \<Longrightarrow> log_quiet rl rl'"
  by (metis appendOne_quiet fst_conv)

lemma becomeLeader_from: "quiet (n\<lparr>nd_state := Leader\<rparr>) (becomeLeader n)"
  unfolding becomeLeader_def setLeaderID_def setState_def
  by (assumption | rule quiet_let quiet_cases quiets | erule appendOne_eq_quiet | rule quiet_let_value)+

lemma elect_inv_becomeLeader:
  "elect_inv ops hard V H p ds n \<Longrightarrow> elected H V p (nd_currentTerm n) \<Longrightarrow>
    elect_inv ops hard V H p ds (becomeLeader n)"
  by (rule elect_inv_quiet [OF elect_inv_state(4) becomeLeader_from])

text \<open>The voters of a node that is not between two configurations are the set \<open>V\<close>.\<close>

definition voters_fixed :: "NodeID set \<Rightarrow> 'st node \<Rightarrow> bool" where
  "voters_fixed V n \<longleftrightarrow> nd_jointOld n = None \<and> V \<noteq> {}
    \<and> distinct (map pc_ID (filter pc_Voter (Members n))) \<and> set (map pc_ID (filter pc_Voter (Members n))) = V"

lemma electionWon_elected:
  assumes fixed: "voters_fixed V n" and won: "electionWon n" and id: "cfg_ID (nd_cfg n) = p"
    and votes: "\<And>q. gm_get False (nd_receivedVoteSet n) q \<Longrightarrow> hs_of t p \<in> H q" and self: "hs_of t p \<in> H p"
  shows "elected H V p t"
proof -
  let ?peers = "filter pc_Voter (cfg_Peers (nd_cfg n))" and ?ack = "\<lambda>m. gm_get False (nd_receivedVoteSet n) (pc_ID m)"
  let ?self = "if cfg_Voter (nd_cfg n) then [p] else []"
  define vs where "vs = ?self @ map pc_ID ?peers"
  define as where "as = ?self @ map pc_ID (filter ?ack ?peers)"
  have "map pc_ID (filter pc_Voter (Members n)) = vs" using id by (simp add: Members_def vs_def)
  then have V: "V = set vs" "distinct vs" "V \<noteq> {}" using fixed unfolding voters_fixed_def by blast+
  have as: "distinct as" "set as \<subseteq> set vs"
    using V(2) distinct_filter [of ?peers ?ack]
    by (auto simp: vs_def as_def distinct_map inj_on_def simp del: filter_filter split: if_splits)
  have "quorumNeeded electionQuorum (nd_commitQuorumApplied n) (nd_commitQuorumLatest n) (int (length vs)) \<le> int (length as)"
    using won fixed by (simp add: electionWon_def voters_fixed_def hasQuorumAck_def vs_def as_def Let_def add.commute split: if_splits)
  then have "quorum_set electionQuorum (nd_commitQuorumApplied n) (nd_commitQuorumLatest n) V (set as)"
    using V as by (simp add: quorum_set_def distinct_card)
  moreover have "\<forall>q\<in>set as. hs_of t p \<in> H q" using votes self by (auto simp: as_def)
  ultimately show ?thesis unfolding elected_def by blast
qed

lemma single_elected:
  assumes "voters_fixed V n" "isSingleVoter n" "cfg_ID (nd_cfg n) = p" "hs_of t p \<in> H p"
  shows "elected H V p t"
proof -
  have "filter pc_Voter (cfg_Peers (nd_cfg n)) = []"
    using assms(2) by (auto simp: isSingleVoter_def filter_empty_conv list_ex_iff)
  then have "V = {p}" using assms(1-3) by (auto simp: voters_fixed_def Members_def isSingleVoter_def)
  then have "quorum_set electionQuorum 0 0 V {p}"
    using quorumNeeded_bounds [of 1 electionQuorum 0 0] by (simp add: quorum_set_def)
  then show ?thesis using assms(4) unfolding elected_def by blast
qed

section \<open>Counting a vote\<close>

definition vote_result_ok :: "history \<Rightarrow> NodeID \<Rightarrow> voteResult \<Rightarrow> bool" where
  "vote_result_ok H p r \<longleftrightarrow> (\<not> vr_preVote r \<and> vr_voteGranted r \<longrightarrow>
    hs_of (vr_term r) p \<in> H (vr_peerID r) \<and> hs_of (vr_term r) p \<in> H p)"

lemma gm_get_put_True: "gm_get False (gm_put m q True) q' \<Longrightarrow> q' = q \<or> gm_get False m q'"
  by (cases m) (auto simp: gm_put_def gm_get_def split: if_splits)

lemma elect_inv_votes:
  assumes "elect_inv ops hard V H p ds n"
    and "nd_state n = Candidate \<Longrightarrow> hs_of (nd_currentTerm n) p \<in> H q \<and> hs_of (nd_currentTerm n) p \<in> H p"
  shows "elect_inv ops hard V H p ds (set_receivedVote q n)"
proof -
  have "count_ok H p (set_receivedVote q n)"
    using elect_invD(9) [OF assms(1)] assms(2) gm_get_put_True [of "nd_receivedVoteSet n" q]
    unfolding count_ok_def set_receivedVote_def by simp blast
  then show ?thesis
    using assms(1) by (simp add: elect_inv_def chain_ok_def seq_ok_def node_hs_def set_receivedVote_def)
qed

lemma voters_fixed_vote [simp]: "voters_fixed V (set_receivedVote q n) = voters_fixed V n"
  by (simp add: voters_fixed_def Members_def set_receivedVote_def)

lemma elect_inv_handleVoteResult:
  assumes inv: "elect_inv ops hard V H p ds n" and fixed: "voters_fixed V n" and ok: "vote_result_ok H p r"
  shows "elect_inv ops hard V H p ds (handleVoteResult r n)"
proof -
  let ?m = "set_receivedVote (vr_peerID r) n"
  have pre: "elect_inv ops hard V H p ds ?m" if "nd_state n = PreCandidate"
    by (rule elect_inv_votes [OF inv]) (use that in simp)
  have real: "elect_inv ops hard V H p ds ?m" "electionWon ?m \<longrightarrow> elected H V p (nd_currentTerm ?m)"
    if "nd_state n = Candidate" "\<not> vr_preVote r" "vr_voteGranted r" "vr_term r = nd_currentTerm n"
  proof -
    have h: "hs_of (nd_currentTerm n) p \<in> H (vr_peerID r)" "hs_of (nd_currentTerm n) p \<in> H p"
      using ok that by (simp_all add: vote_result_ok_def)
    then show m: "elect_inv ops hard V H p ds ?m" by (intro elect_inv_votes [OF inv]) simp
    have same: "nd_currentTerm ?m = nd_currentTerm n" "nd_state ?m = Candidate"
      using that by (simp_all add: set_receivedVote_def)
    have "hs_of (nd_currentTerm n) p \<in> H q" if "gm_get False (nd_receivedVoteSet ?m) q" for q
      using elect_invD(9) [OF m] same that by (simp add: count_ok_def)
    then show "electionWon ?m \<longrightarrow> elected H V p (nd_currentTerm ?m)"
      using electionWon_elected [of V ?m p "nd_currentTerm n" H] elect_invD(1) [OF m] h fixed same by simp
  qed
  show ?thesis
    using inv pre real
    by (auto simp: handleVoteResult_def Let_def not_less intro!: elect_inv_becomeFollower elect_inv_becomeCandidate
        elect_inv_becomeLeader)
qed

section \<open>What an election does not change\<close>

definition membership_of :: "'st node \<Rightarrow> Config \<times> PeerConfig list option" where
  "membership_of n = (nd_cfg n, nd_jointOld n)"

lemma voters_fixed_membership: "membership_of m = membership_of n \<Longrightarrow> voters_fixed V m = voters_fixed V n"
  by (simp add: membership_of_def voters_fixed_def Members_def)

lemma isSingleVoter_membership: "membership_of m = membership_of n \<Longrightarrow> isSingleVoter m = isSingleVoter n"
  by (simp add: membership_of_def isSingleVoter_def)

lemma membership_sets [simp]:
  "membership_of (emit e n) = membership_of n" "membership_of (set_nextIndex p i n) = membership_of n"
  "membership_of (set_matchIndex p i n) = membership_of n" "membership_of (startHBPumps n) = membership_of n"
  "membership_of (heartbeatPeer p n) = membership_of n" "membership_of (notifyApply n) = membership_of n"
  "membership_of (maybeRecordCommit n) = membership_of n" "membership_of (setCommitIndex i n) = membership_of n"
  "membership_of (resolve_batch n) = membership_of n" "membership_of (setState s n) = membership_of n"
  "membership_of (setLeaderID l n) = membership_of n" "membership_of (node_fail err n) = membership_of n"
  "membership_of (fail_index err i n) = membership_of n"
  by (simp_all add: membership_of_def emit_def set_nextIndex_def set_matchIndex_def startHBPumps_def heartbeatPeer_def
      notifyApply_def maybeRecordCommit_def setCommitIndex_def resolve_batch_def setState_def setLeaderID_def
      node_fail_def fail_index_def Let_def split: option.split)

lemma membership_fold: "(\<And>x m. membership_of (f x m) = membership_of m) \<Longrightarrow> membership_of (fold f xs n) = membership_of n"
  by (induction xs arbitrary: n) simp_all

lemma membership_upds [simp]:
  "membership_of (n\<lparr>nd_log := rl\<rparr>) = membership_of n" "membership_of (n\<lparr>nd_deferredWrites := ws\<rparr>) = membership_of n"
  "membership_of (n\<lparr>nd_completedWriteSeq := s\<rparr>) = membership_of n"
  "membership_of (n\<lparr>nd_unsafeTermSeq := s, nd_durableTerm := t\<rparr>) = membership_of n"
  "membership_of (n\<lparr>nd_leaseSendTime := it\<rparr>) = membership_of n"
  "membership_of (n\<lparr>nd_leaderNopCommitted := b\<rparr>) = membership_of n"
  "membership_of (n\<lparr>nd_readBatchGen := g, nd_readBatchAcks := acks, nd_readBatchIndex := i\<rparr>) = membership_of n"
  "membership_of (n\<lparr>nd_pendingReads := rs, nd_waitingReads := ws'\<rparr>) = membership_of n"
  by (simp_all add: membership_of_def)

lemma membership_broadcasts [simp]:
  "membership_of (broadcastReadBarrier n) = membership_of n" "membership_of (broadcastHeartbeat n) = membership_of n"
  "membership_of (broadcastRequestVote b n) = membership_of n"
  by (simp_all add: broadcastReadBarrier_def broadcastHeartbeat_def broadcastRequestVote_def membership_fold Let_def)

lemma membership_read_batch [simp]:
  fixes n m :: "'st node"
  shows "membership_of (startReadBatch n) = membership_of n" "membership_of (confirmReadBatch m) = membership_of m"
proof (induction n and m rule: startReadBatch_confirmReadBatch.induct)
  case (1 n)
  then show ?case by (subst startReadBatch.simps) (simp add: Let_def)
next
  case (2 m)
  then show ?case by (subst confirmReadBatch.simps) (simp add: Let_def)
qed

lemma membership_maybeAdvanceCommit [simp]: "membership_of (maybeAdvanceCommit n) = membership_of n"
  by (simp add: maybeAdvanceCommit_def Let_def split: option.split)

lemma membership_let:
  "membership_of m = c \<Longrightarrow> (\<And>x. membership_of x = c \<Longrightarrow> membership_of (f x) = c) \<Longrightarrow> membership_of (let x = m in f x) = c"
  "(\<And>x. membership_of (g x) = c) \<Longrightarrow> membership_of (let x = v in g x) = c"
  "(\<And>x y. membership_of (h x y) = c) \<Longrightarrow> membership_of (case w of (x, y) \<Rightarrow> h x y) = c"
  by (simp_all split: prod.split)

lemma membership_leader_fields:
  "membership_of (n\<lparr>nd_heartbeatElapsed := a, nd_leaderNopCommitted := b, nd_quorumAcks := c, nd_leaderQuorumElapsed := d,
    nd_departing := e\<rparr>) = membership_of n"
  "membership_of (n\<lparr>nd_nextIndex := ni, nd_matchIndex := mi, nd_inflight := ifl, nd_snapshotInflight := sn,
    nd_peerHealth := ph\<rparr>) = membership_of n"
  "membership_of (n\<lparr>nd_log := rl, nd_termStartIndex := i\<rparr>) = membership_of n"
  by (simp_all add: membership_of_def)

lemma membership_becomeLeader:
  assumes "nd_jointOld n = None" shows "membership_of (becomeLeader n) = membership_of n"
proof -
  have none: "nd_jointOld k = None" if "membership_of k = membership_of n" for k :: "'a node"
    using that assms by (simp add: membership_of_def)
  show ?thesis
    unfolding becomeLeader_def
    by (rule membership_let(1) | rule membership_let(3) | simp add: membership_fold membership_leader_fields none
        | rule membership_let(2))+
qed

section \<open>Released work\<close>

lemma elect_inv_broadcast:
  assumes "elect_inv ops hard V H p ds n" "hs_of (nd_currentTerm n) p \<in> H p"
  shows "elect_inv ops hard V H p ds (broadcastRequestVote False n) \<and>
    nd_log (broadcastRequestVote False n) = nd_log n"
proof -
  have "elect_inv ops hard V H p ds (fold (\<lambda>p n. if pc_Voter p then emit (OVote (pc_ID p) (vote_request False n)) n else n) ps k)
      \<and> nd_log (fold (\<lambda>p n. if pc_Voter p then emit (OVote (pc_ID p) (vote_request False n)) n else n) ps k) = nd_log k"
    if "elect_inv ops hard V H p ds k" "nd_currentTerm k = nd_currentTerm n" for k and ps :: "PeerConfig list"
    using that
  proof (induction ps arbitrary: k)
    case (Cons q ps)
    have "effect_ok H p (OVote (pc_ID q) (vote_request False k))"
      using Cons.prems assms(2) elect_invD(1) [OF Cons.prems(1)] by (simp add: vote_request_def)
    then have "elect_inv ops hard V H p ds (emit (OVote (pc_ID q) (vote_request False k)) k)"
      by (rule elect_inv_emit [OF Cons.prems(1)])
    then show ?case using Cons by (simp add: emit_def)
  qed simp
  then show ?thesis using assms by (simp add: broadcastRequestVote_def)
qed

definition kept :: "'st node \<Rightarrow> 'st node \<Rightarrow> bool" where
  "kept n n' \<longleftrightarrow> membership_of n' = membership_of n \<and> sw_done (rl_w (nd_log n')) = sw_done (rl_w (nd_log n))"

definition grew :: "'st node \<Rightarrow> 'st node \<Rightarrow> bool" where
  "grew n n' \<longleftrightarrow> kept n n' \<and> set (pending_writes (nd_log n)) \<subseteq> set (pending_writes (nd_log n'))"

lemma kept_refl [simp]: "kept n n"
  by (simp add: kept_def)

lemma kept_trans: "kept a b \<Longrightarrow> kept b c \<Longrightarrow> kept a c"
  by (simp add: kept_def)

lemma kept_voters_fixed: "kept n m \<Longrightarrow> voters_fixed V m = voters_fixed V n"
  by (rule voters_fixed_membership) (simp add: kept_def)

lemma quiet_kept: "quiet n m \<Longrightarrow> membership_of m = membership_of n \<Longrightarrow> kept n m"
  by (simp add: quiet_def kept_def log_quiet_def)

lemma grew_refl [simp]: "grew n n"
  by (simp add: grew_def)

lemma grew_trans: "grew a b \<Longrightarrow> grew b c \<Longrightarrow> grew a c"
  by (auto simp: grew_def kept_def)

lemma elect_inv_reply:
  assumes "elect_inv ops hard V H p ds n"
    and "vote_work (DReply ch resp oe) \<Longrightarrow> work_hs p (DReply ch resp oe) \<in> H p \<and> work_ok H (DReply ch resp oe)"
  shows "elect_inv ops hard V H p ds (emit (OReply ch resp oe) n)"
proof (cases "vote_out (OReply ch resp oe)")
  case True
  then obtain r where "resp = PVote r" "oe = None" "rvr_VoteGranted r"
    by (auto simp: vote_out_def split: rpcResponse.splits option.splits)
  then show ?thesis using assms by (intro elect_inv_emit) simp_all
qed (rule elect_inv_quiet [OF assms(1)], simp add: quiet_emit)

lemma run_deferred_inv:
  assumes inv: "elect_inv ops hard V H p ds n" and fixed: "voters_fixed V n"
    and ok: "vote_work d \<Longrightarrow> work_hs p d \<in> H p \<and> work_ok H d"
  shows "elect_inv ops hard V H p ds (run_deferred d n) \<and> grew n (run_deferred d n)"
proof (cases d)
  case (DReply ch resp oe)
  then show ?thesis using elect_inv_reply [OF inv] ok by (simp add: grew_def kept_def) (simp add: emit_def)
next
  case (DCandidate t)
  have h: "hs_of t p \<in> H p" using ok DCandidate by simp
  have lead: "elect_inv ops hard V H p ds (becomeLeader n) \<and> grew n (becomeLeader n)"
    if "nd_currentTerm n = t" "isSingleVoter n"
  proof -
    have "elected H V p (nd_currentTerm n)"
      using single_elected [OF fixed that(2) elect_invD(1) [OF inv]] h that(1) by simp
    moreover have "set (pending_writes (nd_log n)) \<subseteq> set (pending_writes (nd_log (becomeLeader n)))"
      using becomeLeader_from [of n] by (auto simp: quiet_def elim!: log_quiet_pending)
    ultimately show ?thesis
      using elect_inv_becomeLeader [OF inv] membership_becomeLeader [of n] fixed becomeLeader_from [of n]
      by (simp add: grew_def kept_def voters_fixed_def quiet_def log_quiet_def)
  qed
  show ?thesis
    using inv h lead elect_inv_broadcast [OF inv] by (auto simp: DCandidate grew_def kept_def)
qed (use inv in simp_all)

lemma run_released_inv:
  assumes "elect_inv ops hard V H p ds n" "voters_fixed V n"
    and "\<And>d. d \<in> set ws \<Longrightarrow> dw_seq d \<le> s \<Longrightarrow> vote_work (dw_work d) \<Longrightarrow> work_hs p (dw_work d) \<in> H p \<and> work_ok H (dw_work d)"
  shows "elect_inv ops hard V H p ds (run_released s ws n) \<and> grew n (run_released s ws n)"
  using assms unfolding run_released_def
proof (induction ws arbitrary: n)
  case (Cons d ws)
  show ?case
  proof (cases "dw_seq d \<le> s")
    case True
    let ?m = "run_deferred (dw_work d) n"
    have m: "elect_inv ops hard V H p ds ?m \<and> grew n ?m"
      by (rule run_deferred_inv [OF Cons.prems(1,2)]) (use Cons.prems(3) True in auto)
    then have "voters_fixed V ?m" using Cons.prems(2) kept_voters_fixed [of n ?m V] by (simp add: grew_def)
    then show ?thesis using Cons.IH [of ?m] m Cons.prems(3) True grew_trans [of n ?m] by simp
  qed (use Cons in simp)
qed simp

section \<open>Completed writes\<close>

lemma deferred_ok_drop:
  assumes "deferred_ok H p (d # ds) rl ws" "wd_err d = None"
  shows "deferred_ok H p ds rl ws"
  using assms by (auto simp: deferred_ok_def backed_def)

text \<open>What waits for a write up to the one that just completed is on disk.\<close>

lemma released_durable:
  assumes "seq_ok (d # ds) n" "deferred_ok H p (d # ds) (nd_log n) ws" "wd_err d = None"
    and "w \<in> set ws" "dw_seq w \<le> wd_seq d" "vote_work (dw_work w)"
  shows "work_hs p (dw_work w) \<in> H p \<and> work_ok H (dw_work w)"
proof -
  have later: "wd_seq d < wo_seq op" if "op \<in> set (pending_writes (nd_log n))" for op
    using assms(1) that by (auto simp: seq_ok_def)
  have err: "wd_seq d < wd_seq d'" if "d' \<in> set (d # ds)" "wd_err d' \<noteq> None" for d'
    using assms(1,3) that by (auto simp: seq_ok_def)
  have "backed H p (d # ds) (nd_log n) (dw_seq w) (work_hs p (dw_work w))" and ok: "work_ok H (dw_work w)"
    using assms(2,4,6) by (auto simp: deferred_ok_def)
  then show ?thesis
    using assms(5) later err unfolding backed_def by (meson leD order_trans)
qed

lemma elect_inv_deferred:
  assumes "elect_inv ops hard V H p ds n" "deferred_ok H p ds (nd_log n) ws"
  shows "elect_inv ops hard V H p ds (n\<lparr>nd_deferredWrites := ws\<rparr>)"
  using assms by (simp add: elect_inv_def chain_ok_def seq_ok_def count_ok_def node_hs_def)

lemma deferred_ok_grew:
  "deferred_ok H p ds (nd_log n) ws \<Longrightarrow> grew n m \<Longrightarrow> deferred_ok H p ds (nd_log m) ws"
  by (auto simp: deferred_ok_def grew_def intro: backed_more)

lemma runDeferredWrites_inv:
  assumes inv: "elect_inv ops hard V H p ds n" and fixed: "voters_fixed V n"
    and ok: "\<And>d. d \<in> set (nd_deferredWrites n) \<Longrightarrow> dw_seq d \<le> s \<Longrightarrow> vote_work (dw_work d) \<Longrightarrow>
      work_hs p (dw_work d) \<in> H p \<and> work_ok H (dw_work d)"
  shows "elect_inv ops hard V H p ds (runDeferredWrites s n) \<and> kept n (runDeferredWrites s n)"
proof -
  let ?k = "n\<lparr>nd_deferredWrites := []\<rparr>"
  let ?m = "run_released s (nd_deferredWrites n) ?k"
  have k: "elect_inv ops hard V H p ds ?k" by (rule elect_inv_deferred [OF inv]) (simp add: deferred_ok_def)
  have "voters_fixed V ?k" using fixed by (simp add: voters_fixed_def Members_def)
  then have m: "elect_inv ops hard V H p ds ?m" "grew ?k ?m" using run_released_inv [OF k] ok by simp_all
  have "deferred_ok H p ds (nd_log ?k) (filter (\<lambda>d. s < dw_seq d) (nd_deferredWrites n))"
    using elect_invD(7) [OF inv] by (simp add: deferred_ok_def)
  then have "deferred_ok H p ds (nd_log ?m) (filter (\<lambda>d. s < dw_seq d) (nd_deferredWrites n))"
    using m(2) by (rule deferred_ok_grew)
  then have "deferred_ok H p ds (nd_log ?m) (filter (\<lambda>d. s < dw_seq d) (nd_deferredWrites n) @ nd_deferredWrites ?m)"
    using elect_invD(7) [OF m(1)] by (auto simp: deferred_ok_def)
  then show ?thesis
    using elect_inv_deferred [OF m(1)] m(2) by (simp add: runDeferredWrites_def grew_def kept_def Let_def)
qed

lemma fail_index_quiet [quiets]: "quiet n m \<Longrightarrow> quiet n (fail_index e i m)"
  by (auto simp: fail_index_def Let_def intro!: quiets split: option.split)

lemma fail_deferred_quiet [quiets]: "quiet n m \<Longrightarrow> quiet n (fail_deferred e d m)"
  by (cases d) (auto intro!: quiets)

lemma membership_fail_deferred [simp]: "membership_of (fail_deferred e d n) = membership_of n"
  by (cases d) (auto simp: membership_fold, simp add: membership_of_def)

lemma failDeferredWrites_inv:
  assumes "elect_inv ops hard V H p ds (n\<lparr>nd_deferredWrites := []\<rparr>)"
  shows "elect_inv ops hard V H p ds (failDeferredWrites e n)
    \<and> kept n (failDeferredWrites e n)"
proof -
  have "quiet (n\<lparr>nd_deferredWrites := []\<rparr>) (failDeferredWrites e n)"
    unfolding failDeferredWrites_def by (intro quiets)
  then show ?thesis
    using elect_inv_quiet [OF assms] quiet_kept
    by (fastforce simp: failDeferredWrites_def membership_fold kept_def quiet_def log_quiet_def)
qed

text \<open>The state a completion is handled in: its number is now the last one completed.\<close>

definition completed :: "writeDone \<Rightarrow> 'st raftLog \<Rightarrow> 'st node \<Rightarrow> 'st node" where
  "completed d rl n = n\<lparr>nd_log := rl, nd_completedWriteSeq := wd_seq d\<rparr>"

lemma elect_inv_completed:
  assumes "elect_inv ops hard V H p (d # ds) n" "rl_w rl = rl_w (nd_log n)" "rl_nextSeq rl = rl_nextSeq (nd_log n)"
  shows "elect_inv ops hard V H p ds ((completed d rl n)\<lparr>nd_deferredWrites := []\<rparr>)"
    "wd_err d = None \<Longrightarrow> elect_inv ops hard V H p ds (completed d rl n)"
  using assms deferred_ok_drop [of H p d ds "nd_log n" "nd_deferredWrites n"]
  by (auto simp: elect_inv_def chain_ok_def seq_ok_def count_ok_def node_hs_def completed_def deferred_ok_def backed_def
      pending_writes_def pending_hs_def)

lemma node_fail_deferred: "(node_fail e n)\<lparr>nd_deferredWrites := ws\<rparr> = node_fail e (n\<lparr>nd_deferredWrites := ws\<rparr>)"
  by (cases n) (simp add: node_fail_def emit_def)

lemma complete_write_inv:
  assumes inv: "elect_inv ops hard V H p (d # ds) n" and fixed: "voters_fixed V n"
  shows "elect_inv ops hard V H p ds (complete_write d n) \<and> kept n (complete_write d n)"
proof -
  have bump: "nd_completedWriteSeq n < wd_seq d" using elect_invD(6) [OF inv] by (simp add: seq_ok_def)
  show ?thesis
  proof (cases "wd_err d")
    case None
    let ?k = "completed d (stabilize (nd_log n) d) n"
    define m where "m = (if nd_unsafeTermSeq ?k \<noteq> 0 \<and> nd_unsafeTermSeq ?k \<le> wd_seq d
      then ?k\<lparr>nd_unsafeTermSeq := 0, nd_durableTerm := nd_currentTerm ?k\<rparr> else ?k)"
    have "elect_inv ops hard V H p ds ?k" by (rule elect_inv_completed(2) [OF inv _ _ None]) simp_all
    then have m: "elect_inv ops hard V H p ds m"
      by (simp add: m_def elect_inv_def chain_ok_def seq_ok_def count_ok_def node_hs_def)
    have mem: "kept n m" by (simp add: m_def completed_def membership_of_def kept_def)
    have ws: "nd_deferredWrites m = nd_deferredWrites n" by (simp add: m_def completed_def)
    have "complete_write d n = runDeferredWrites (wd_seq d) m"
      using bump None by (simp add: complete_write_def m_def completed_def Let_def)
    moreover have "voters_fixed V m" using fixed kept_voters_fixed [OF mem] by simp
    ultimately show ?thesis
      using runDeferredWrites_inv [OF m, of "wd_seq d"]
        released_durable [OF elect_invD(6,7) [OF inv] None] ws kept_trans [OF mem] by simp
  next
    case (Some e)
    let ?k = "completed d (nd_log n) n"
    have "elect_inv ops hard V H p ds (?k\<lparr>nd_deferredWrites := []\<rparr>)" by (rule elect_inv_completed(1) [OF inv]) simp_all
    then have "elect_inv ops hard V H p ds (node_fail e (?k\<lparr>nd_deferredWrites := []\<rparr>))"
      by (rule elect_inv_quiet) (intro quiets)
    then have "elect_inv ops hard V H p ds ((node_fail e ?k)\<lparr>nd_deferredWrites := []\<rparr>)"
      by (simp only: node_fail_deferred)
    moreover have "complete_write d n = failDeferredWrites e (node_fail e ?k)"
      using bump Some by (simp add: complete_write_def completed_def Let_def)
    moreover have "kept n (node_fail e ?k)"
      by (simp add: kept_def completed_def membership_of_def node_fail_def emit_def)
    ultimately show ?thesis
      using failDeferredWrites_inv [of ops hard V H p ds "node_fail e ?k" e] kept_trans [of n "node_fail e ?k"] by simp
  qed
qed

lemma complete_writes_inv:
  assumes "elect_inv ops hard V H p ds n" "voters_fixed V n"
  shows "elect_inv ops hard V H p [] (fold complete_write ds n) \<and> kept n (fold complete_write ds n)"
  using assms
proof (induction ds arbitrary: n)
  case (Cons d ds)
  have c: "elect_inv ops hard V H p ds (complete_write d n)" "kept n (complete_write d n)"
    using complete_write_inv [OF Cons.prems] by auto
  then have "voters_fixed V (complete_write d n)" using kept_voters_fixed Cons.prems(2) by blast
  then show ?case using Cons.IH [OF c(1)] kept_trans [OF c(2)] by simp
qed simp

lemma onDurableAdvanced_quiet [quiets]: "quiet n m \<Longrightarrow> quiet n (onDurableAdvanced m)"
  by (auto simp: onDurableAdvanced_def Let_def intro!: quiets)

lemma elect_inv_handleWriteCompletions:
  assumes inv: "elect_inv ops hard V H p (sw_done (rl_w (nd_log n))) n" and fixed: "voters_fixed V n"
  shows "elect_inv ops hard V H p (sw_done (rl_w (nd_log (handleWriteCompletions n)))) (handleWriteCompletions n)"
proof -
  let ?ds = "sw_done (rl_w (nd_log n))"
  let ?k = "n\<lparr>nd_log := (nd_log n)\<lparr>rl_w := (rl_w (nd_log n))\<lparr>sw_done := []\<rparr>\<rparr>\<rparr>"
  have "elect_inv ops hard V H p ?ds ?k"
    using inv by (simp add: elect_inv_def chain_ok_def seq_ok_def count_ok_def node_hs_def deferred_ok_def backed_def
        pending_writes_def pending_hs_def)
  moreover have "voters_fixed V ?k" using fixed by (simp add: voters_fixed_def Members_def)
  ultimately have f: "elect_inv ops hard V H p [] (fold complete_write ?ds ?k)" "kept ?k (fold complete_write ?ds ?k)"
    using complete_writes_inv by blast+
  have q: "quiet (fold complete_write ?ds ?k) (onDurableAdvanced (fold complete_write ?ds ?k))" by (intro quiets)
  then have "sw_done (rl_w (nd_log (onDurableAdvanced (fold complete_write ?ds ?k)))) = []"
    using f(2) by (simp add: quiet_def log_quiet_def kept_def)
  then show ?thesis
    using inv elect_inv_quiet [OF f(1) q] by (cases "?ds = []") (auto simp: handleWriteCompletions_def takeDone_def)
qed

section \<open>Every event\<close>

text \<open>Votes and answers to vote requests come from the network; everything else may be anything.\<close>

fun event_ok :: "history \<Rightarrow> NodeID \<Rightarrow> event \<Rightarrow> bool" where
  "event_ok H p (EvCall (QVote r) ch) = request_ok H ch r"
| "event_ok H p (EvVoteResult r) = vote_result_ok H p r"
| "event_ok H p _ = True"

abbreviation node_inv :: "'st Storage \<Rightarrow> ('st \<Rightarrow> HardState) \<Rightarrow> NodeID set \<Rightarrow> history \<Rightarrow> NodeID \<Rightarrow> 'st node \<Rightarrow> bool" where
  "node_inv ops hard V H p n \<equiv> elect_inv ops hard V H p (sw_done (rl_w (nd_log n))) n"

text \<open>A step that goes through a follower of a later term.\<close>

definition adopts :: "'st node \<Rightarrow> 'st node \<Rightarrow> bool" where
  "adopts n n' \<longleftrightarrow> quiet n n' \<or> (\<exists>m t l. quiet n m \<and> quiet (becomeFollower t l m) n')"

lemma adoptsI: "quiet n m \<Longrightarrow> adopts n m" "quiet n m \<Longrightarrow> adopts n (becomeFollower t l m)"
  "quiet n m \<Longrightarrow> quiet (becomeFollower t l m) k \<Longrightarrow> adopts n k"
  unfolding adopts_def using quiet_refl by blast+

lemma adopts_if: "adopts n x \<Longrightarrow> adopts n y \<Longrightarrow> adopts n (if b then x else y)"
  by simp

lemma quiet_done: "quiet n m \<Longrightarrow> sw_done (rl_w (nd_log m)) = sw_done (rl_w (nd_log n))"
  by (simp add: quiet_def log_quiet_def)

lemma votes_done [simp]:
  "sw_done (rl_w (nd_log (fst (saveTerm t v n)))) = sw_done (rl_w (nd_log n))"
  "sw_done (rl_w (nd_log (applyFollowerTransition l n))) = sw_done (rl_w (nd_log n))"
  "sw_done (rl_w (nd_log (resetElectionTimeout n))) = sw_done (rl_w (nd_log n))"
  "sw_done (rl_w (nd_log (setState s n))) = sw_done (rl_w (nd_log n))"
  "sw_done (rl_w (nd_log (setLeaderID l n))) = sw_done (rl_w (nd_log n))"
  "sw_done (rl_w (nd_log (emit e n))) = sw_done (rl_w (nd_log n))"
  "sw_done (rl_w (nd_log (becomeLeader n))) = sw_done (rl_w (nd_log n))"
  "sw_done (rl_w (nd_log (set_receivedVote q n))) = sw_done (rl_w (nd_log n))"
  "sw_done (rl_w (nd_log (replyWhenDurable ch resp k n))) = sw_done (rl_w (nd_log n))"
  using quiet_done [OF becomeLeader_from, of n]
  by (auto simp: saveTerm_def log_saveHardState_def nextWriteSeq_def enqueue_def resetElectionTimeout_def setState_def
      setLeaderID_def emit_def set_receivedVote_def replyWhenDurable_def afterWrite_with_def Let_def case_prod_beta
      intro!: quiet_done quiets)

lemma becomeFollower_done [simp]:
  "sw_done (rl_w (nd_log (becomeFollower t l n))) = sw_done (rl_w (nd_log n))"
  by (simp add: becomeFollower_def)

lemma broadcast_done [simp]: "sw_done (rl_w (nd_log (broadcastRequestVote b n))) = sw_done (rl_w (nd_log n))"
proof -
  have "nd_log (fold (\<lambda>p n. if pc_Voter p then emit (OVote (pc_ID p) (vote_request b n)) n else n) ps k) = nd_log k"
    for ps :: "PeerConfig list" and k :: "'a node" by (induction ps arbitrary: k) (simp_all add: emit_def)
  then show ?thesis by (simp add: broadcastRequestVote_def)
qed

lemma standing_done [simp]:
  "sw_done (rl_w (nd_log (becomeCandidate n))) = sw_done (rl_w (nd_log n))"
  "sw_done (rl_w (nd_log (becomePreCandidate n))) = sw_done (rl_w (nd_log n))"
  by (simp_all add: becomePreCandidate_def becomeCandidate_def afterWrite_with_def Let_def case_prod_beta)

lemma voting_done [simp]:
  "sw_done (rl_w (nd_log (handleRequestVote req ch n))) = sw_done (rl_w (nd_log n))"
  "sw_done (rl_w (nd_log (handleVoteResult r n))) = sw_done (rl_w (nd_log n))"
  by (simp_all add: handleRequestVote_def handle_pre_vote_def handleVoteResult_def Let_def)

lemma node_inv_adopts: "node_inv ops hard V H p n \<Longrightarrow> adopts n m \<Longrightarrow> node_inv ops hard V H p m"
proof -
  assume inv: "node_inv ops hard V H p n" and "adopts n m"
  then consider "quiet n m" | k t l where "quiet n k" "quiet (becomeFollower t l k) m" by (auto simp: adopts_def)
  then show "node_inv ops hard V H p m"
  proof cases
    case 1
    then show ?thesis using elect_inv_quiet [OF inv] by (simp add: quiet_done)
  next
    case 2
    then have "elect_inv ops hard V H p (sw_done (rl_w (nd_log n))) m"
      by (intro elect_inv_quiet [OF elect_inv_becomeFollower [OF elect_inv_quiet [OF inv]]])
    then show ?thesis using 2 by (simp add: quiet_done)
  qed
qed

lemma quiet_merge_outcome:
  "(\<And>s. quiet n (f s)) \<Longrightarrow> (\<And>e. quiet n (g e)) \<Longrightarrow> (\<And>e. quiet n (h e)) \<Longrightarrow> quiet n x \<Longrightarrow>
    quiet n (case_merge_outcome f g h x o')"
  by (cases o') simp_all

lemma handleAppendEntries_adopts: "adopts n (handleAppendEntries req ch n)"
proof (cases "ae_Term req < nd_currentTerm n")
  case True
  then show ?thesis
    by (auto simp: handleAppendEntries_def append_response_def intro!: adoptsI(1) quiets)
next
  case False
  let ?m = "becomeFollower (ae_Term req) (ae_LeaderID req) n"
  have merged: "quiet ?m k" if "merge_entries es x = (k, o')" "quiet ?m x" for es x k o'
    using merge_entries_quiet [OF that(2), of es] that(1) by simp
  have "quiet ?m (handleAppendEntries req ch n)"
    unfolding handleAppendEntries_def if_not_P [OF False] append_response_def
    by (assumption | rule quiet_let quiet_cases quiets | rule quiet_let_value | erule (1) merged
        | simp | rule quiet_merge_outcome)+
  then show ?thesis by (rule adoptsI(3) [OF quiet_refl])
qed

lemma handleInstallSnapshot_adopts: "adopts n (handleInstallSnapshot req ch n)"
proof (cases "is_Term req < nd_currentTerm n")
  case True
  then show ?thesis by (auto simp: handleInstallSnapshot_def intro!: adoptsI(1) quiets)
next
  case False
  define m where "m = (if nd_currentTerm n < is_Term req then becomeFollower (is_Term req) (is_LeaderID req) n else n)"
  have started: "quiet m k" if "start_install req ch r x = (k, b)" "quiet m x" for r x k b
    using start_install_quiet [OF that(2), of req ch r] that(1) by simp
  have "quiet m (handleInstallSnapshot req ch n)"
    unfolding handleInstallSnapshot_def if_not_P [OF False] m_def [symmetric] setLeaderID_def
    by (assumption | rule quiet_let quiet_cases quiets | rule quiet_let_value | erule (1) started | simp)+
  then show ?thesis
    unfolding m_def using adoptsI(1) adoptsI(3) [OF quiet_refl] by (auto split: if_splits)
qed

lemma handleReadIndexRPC_adopts: "adopts n (handleReadIndexRPC req ch n)"
proof (cases "nd_currentTerm n < ri_Term req")
  case True
  have "quiet (becomeFollower (ri_Term req) [] n) (handleReadIndexRPC req ch n)"
    using True by (auto simp: handleReadIndexRPC_def Let_def intro!: quiets)
  then show ?thesis by (rule adoptsI(3) [OF quiet_refl])
qed (auto simp: handleReadIndexRPC_def intro!: adoptsI(1) quiets)

lemma handleAppendResult_adopts: "adopts n (handleAppendResult r n)"
proof -
  define m where "m = (if nd_inflight n \<noteq> None \<and> 0 < inflight n (ar_peer r)
    then set_inflight (ar_peer r) (inflight n (ar_peer r) - 1) n else n)"
  have m: "quiet n m" by (auto simp: m_def intro!: quiets)
  define k where "k = notePeerResponded (ar_peer r) m"
  have k: "quiet n k" using m by (auto simp: k_def intro!: quiets)
  have dep: "quiet n x" if "departingPeer r k = Some x" for x using departingPeer_quiet [OF that k] .
  show ?thesis
    unfolding handleAppendResult_def Let_def m_def [symmetric] k_def [symmetric]
    using m k dep by (auto intro!: adoptsI(1,2) quiets split: option.split)
qed

lemma handleInstallSnapshotResult_adopts: "adopts n (handleInstallSnapshotResult r n)"
proof -
  define m where "m = n\<lparr>nd_snapshotInflight := gm_del (nd_snapshotInflight n) (ir_peer r)\<rparr>"
  have m: "quiet n m" by (auto simp: m_def intro!: quiets)
  let ?i = "sm_LastIncludedIndex (ir_meta r)"
  have rest: "quiet n (let n = (if matchIndex m (ir_peer r) \<le> ?i then set_matchIndex (ir_peer r) ?i (set_nextIndex (ir_peer r) (?i + 1) m) else m);
                 n = (if nextIndex n (ir_peer r) \<le> matchIndex n (ir_peer r) then set_nextIndex (ir_peer r) (matchIndex n (ir_peer r) + 1) n else n);
                 n = maybeAdvanceCommit n
             in if nextIndex n (ir_peer r) \<le> lastLogIndex (nd_log n) then replicateToPeer (ir_peer r) n else n)"
    by (rule m | assumption | rule quiet_let quiet_cases quiets | rule quiet_let_value)+
  show ?thesis
    unfolding handleInstallSnapshotResult_def Let_def m_def [symmetric]
    by (rule adoptsI(1) [OF rest [unfolded Let_def]] adoptsI(1) [OF m] adoptsI(2) [OF m]
        adoptsI(1) [OF replicateToPeer_quiet [OF m]] adopts_if)+
qed

lemma node_inv_tick:
  assumes inv: "node_inv ops hard V H p n"
  shows "node_inv ops hard V H p (tick n)"
proof -
  let ?m = "n\<lparr>nd_electionElapsed := nd_electionElapsed n + 1\<rparr>"
  have m: "elect_inv ops hard V H p (sw_done (rl_w (nd_log n))) (resetElectionTimeout ?m)"
    by (rule elect_inv_quiet [OF inv]) (intro quiets)
  have "adopts n ?m" "adopts n (?m\<lparr>nd_electionElapsed := nd_electionTimeout ?m\<rparr>)" by (intro adoptsI(1) quiets)+
  then show ?thesis
    using inv m node_inv_adopts [OF inv adoptsI(1) [OF tick_leader_quiet]]
      node_inv_adopts [OF inv, of ?m] node_inv_adopts [OF inv, of "?m\<lparr>nd_electionElapsed := nd_electionTimeout ?m\<rparr>"]
      elect_inv_becomeCandidate [OF m] elect_inv_becomePreCandidate [OF m]
    by (simp add: tick_def tick_follower_def triggerElection_def Let_def)
qed

lemma node_inv_handleTimeoutNow:
  assumes inv: "node_inv ops hard V H p n"
  shows "node_inv ops hard V H p (handleTimeoutNow req ch n)"
proof -
  define m where "m = (if nd_currentTerm n < tn_Term req then becomeFollower (tn_Term req) [] n else n)"
  have m: "elect_inv ops hard V H p (sw_done (rl_w (nd_log n))) m"
    using inv by (simp add: m_def elect_inv_becomeFollower)
  have d: "sw_done (rl_w (nd_log m)) = sw_done (rl_w (nd_log n))" by (simp add: m_def)
  have reply: "elect_inv ops hard V H p ds (replyWhenDurable ch (PTimeoutNow t) 0 k)"
    if "elect_inv ops hard V H p ds k" for ds k t
    by (rule elect_inv_quiet [OF that]) (auto intro!: quiets)
  show ?thesis
    unfolding handleTimeoutNow_def m_def [symmetric] Let_def
    using reply [OF inv] reply [OF m] reply [OF elect_inv_becomeCandidate [OF m]] d by simp
qed

lemma step_event_inv:
  assumes inv: "node_inv ops hard V H p n" and fixed: "voters_fixed V n" and ok: "event_ok H p ev"
  shows "node_inv ops hard V H p (step_event ev n)"
proof -
  note quietly = node_inv_adopts [OF inv adoptsI(1)]
  show ?thesis
  proof (cases ev)
    case (EvCall req ch)
    then show ?thesis
      using ok elect_inv_handleRequestVote [OF inv] node_inv_handleTimeoutNow [OF inv]
        node_inv_adopts [OF inv handleAppendEntries_adopts] node_inv_adopts [OF inv handleInstallSnapshot_adopts]
        node_inv_adopts [OF inv handleReadIndexRPC_adopts]
      by (cases req) (simp_all add: step_event_def handleCall_def)
  next
    case (EvTransfer target pr)
    have "quiet n (case handleLeadershipTransfer target n of (n, err) \<Rightarrow> emit (OTransfer pr err) n)"
      by (simp add: case_prod_beta, intro quiets) simp
    then show ?thesis using quietly EvTransfer by (simp add: step_event_def)
  next
    case (EvReachability q up)
    have "quiet n (if up then markPeerUp q n else markPeerDown q n)" by (auto intro!: quiets)
    then show ?thesis using quietly EvReachability by (simp add: step_event_def)
  next
    case (EvReadIndex m)
    have "quiet n (handleReadIndex m n)" by (intro quiets)
    then show ?thesis using quietly EvReadIndex by (simp add: step_event_def)
  next
    case (EvVoteResult r)
    then show ?thesis using elect_inv_handleVoteResult [OF inv fixed] ok by (simp add: step_event_def)
  next
    case EvWriteCompletions
    then show ?thesis using elect_inv_handleWriteCompletions [OF inv fixed] by (simp add: step_event_def)
  qed (use quietly [OF handleSnapInstallResult_quiet] quietly [OF handleProposals_quiet] quietly [OF handleApplyResult_quiet]
      quietly [OF handleSnapshotResult_quiet] node_inv_tick [OF inv] node_inv_adopts [OF inv handleAppendResult_adopts]
      node_inv_adopts [OF inv handleInstallSnapshotResult_adopts] in \<open>simp_all add: step_event_def\<close>)
qed

end
