(* ===== verification/Node_New.thy ===== *)
theory Node_New
  imports Node_Loop
begin

text \<open>
  Checking a configuration (\<open>config.go\<close>), building a node from what its store holds
  (\<open>New\<close> of \<open>node.go\<close>) and the calls that propose a change of configuration.
\<close>

section \<open>Configurations\<close>

definition DefaultProposalQueueSize :: int where "DefaultProposalQueueSize = 1024"

definition proposalQueueSize :: "Config \<Rightarrow> int" where
  "proposalQueueSize cfg =
    (if 0 < cfg_ProposalQueueSize cfg then cfg_ProposalQueueSize cfg else DefaultProposalQueueSize)"

abbreviation millisecond :: int where "millisecond \<equiv> 1000000"

definition DefaultConfig :: Config where
  "DefaultConfig = \<lparr>cfg_ID = [], cfg_Voter = True, cfg_Witness = False, cfg_Peers = [],
    cfg_ElectionTimeoutMin = 150 * millisecond, cfg_ElectionTimeoutMax = 300 * millisecond,
    cfg_HeartbeatInterval = 50 * millisecond, cfg_LeaseSafetyMargin = 15 * millisecond,
    cfg_TickInterval = 10 * millisecond, cfg_RPCTimeout = 0, cfg_MaxLogEntriesPerRPC = 64,
    cfg_MaxBytesPerRPC = 2 ^ 20, cfg_MaxProposalBytes = 0, cfg_MaxUnstableLogBytes = 64 * 2 ^ 20,
    cfg_ProposalQueueSize = DefaultProposalQueueSize, cfg_ProposalOverflow = 0, cfg_Zones = [],
    cfg_MinCommitZones = 0, cfg_CommitQuorum = 0, cfg_SnapshotThreshold = 10000, cfg_TrailingLogs = 1024,
    cfg_SnapshotSemaphore = False, cfg_MaxInflightRPCs = 4, cfg_CheckQuorum = True,
    cfg_MaxClientTableSize = 100000, cfg_SnapshotChunkSize = 2 ^ 20, cfg_PreferredLeader = []\<rparr>"

datatype config_error =
    EmptyID | NilStorage | NilStateMachine | WitnessNotVoter | PeerWitnessNotVoter NodeID | OnlyWitnesses
  | PreferredWitness | NilTransport | TimeoutNotPositive | NoSpread | HeartbeatNotPositive | HeartbeatTooSlow
  | MarginNegative | MarginTooLarge | EntriesNotPositive | InflightNotPositive | TableNegative | QueueNegative
  | UnknownOverflow | ChunkNegative | RPCTimeoutNegative | TickNegative | TickTooSlow | ZonesNegative
  | QuorumNegative | QuorumTooLarge int | TooFewZones int | NoVoters

definition config_zones :: "Config \<Rightarrow> ZoneID list" where
  "config_zones c =
    zone_set c ((if cfg_Voter c then [cfg_ID c] else []) @ map pc_ID (filter pc_Voter (cfg_Peers c)))"

definition config_voters :: "Config \<Rightarrow> int" where
  "config_voters c = (if cfg_Voter c then 1 else 0) + int (length (filter pc_Voter (cfg_Peers c)))"

text \<open>The three arguments say whether the interface fields are set.\<close>

definition Validate :: "bool \<Rightarrow> bool \<Rightarrow> bool \<Rightarrow> Config \<Rightarrow> config_error option" where
  "Validate storage stateMachine transport c =
    (if cfg_ID c = [] then Some EmptyID
     else if \<not> storage then Some NilStorage
     else if \<not> stateMachine \<and> \<not> cfg_Witness c then Some NilStateMachine
     else if cfg_Witness c \<and> \<not> cfg_Voter c then Some WitnessNotVoter
     else case find (\<lambda>p. pc_Witness p \<and> \<not> pc_Voter p) (cfg_Peers c) of
            Some p \<Rightarrow> Some (PeerWitnessNotVoter (pc_ID p))
          | None \<Rightarrow>
     if cfg_Witness c \<and> \<not> list_ex (\<lambda>p. pc_Voter p \<and> \<not> pc_Witness p) (cfg_Peers c) then Some OnlyWitnesses
     else if cfg_PreferredLeader c \<noteq> []
          \<and> list_ex (\<lambda>p. pc_ID p = cfg_PreferredLeader c \<and> pc_Witness p) (cfg_Peers c) then Some PreferredWitness
     else if \<not> transport then Some NilTransport
     else if cfg_ElectionTimeoutMin c \<le> 0 \<or> cfg_ElectionTimeoutMax c \<le> 0 then Some TimeoutNotPositive
     else if cfg_ElectionTimeoutMax c \<le> cfg_ElectionTimeoutMin c then Some NoSpread
     else if cfg_HeartbeatInterval c \<le> 0 then Some HeartbeatNotPositive
     else if cfg_ElectionTimeoutMin c < 2 * cfg_HeartbeatInterval c then Some HeartbeatTooSlow
     else if cfg_LeaseSafetyMargin c < 0 then Some MarginNegative
     else if cfg_ElectionTimeoutMin c \<le> cfg_LeaseSafetyMargin c then Some MarginTooLarge
     else if cfg_MaxLogEntriesPerRPC c \<le> 0 then Some EntriesNotPositive
     else if cfg_MaxInflightRPCs c \<le> 0 then Some InflightNotPositive
     else if cfg_MaxClientTableSize c < 0 then Some TableNegative
     else if cfg_ProposalQueueSize c < 0 then Some QueueNegative
     else if 1 < cfg_ProposalOverflow c then Some UnknownOverflow
     else if cfg_SnapshotChunkSize c < 0 then Some ChunkNegative
     else if cfg_RPCTimeout c < 0 then Some RPCTimeoutNegative
     else if cfg_TickInterval c < 0 then Some TickNegative
     else if 0 < cfg_TickInterval c \<and> cfg_HeartbeatInterval c < cfg_TickInterval c then Some TickTooSlow
     else if cfg_MinCommitZones c < 0 then Some ZonesNegative
     else if cfg_CommitQuorum c < 0 then Some QuorumNegative
     else if 0 < cfg_CommitQuorum c \<and> config_voters c < cfg_CommitQuorum c then Some (QuorumTooLarge (config_voters c))
     else if 1 < cfg_MinCommitZones c \<and> int (length (config_zones c)) < cfg_MinCommitZones c
     then Some (TooFewZones (int (length (config_zones c))))
     else if \<not> cfg_Voter c \<and> 0 < length (cfg_Peers c) \<and> \<not> list_ex pc_Voter (cfg_Peers c) then Some NoVoters
     else None)"

section \<open>Building a node\<close>

text \<open>The index a durable state machine reports; \<open>None\<close> when it keeps no state of its own.\<close>

definition durableAppliedIndex :: "Index result option \<Rightarrow> 'st raftLog \<Rightarrow> Index result" where
  "durableAppliedIndex durable rl =
    (case durable of
       None \<Rightarrow> Ok 0
     | Some r \<Rightarrow> obind r (\<lambda>idx. if lastLogIndex rl < idx then Fail (ErrOther ''ahead of the log'') else Ok idx))"

definition ticks :: "Config \<Rightarrow> int \<times> int \<times> int" where
  "ticks cfg =
    (let t = (if cfg_TickInterval cfg \<le> 0 then 10 * millisecond else cfg_TickInterval cfg);
         heartbeat = max 1 (cfg_HeartbeatInterval cfg div t);
         mn = max 2 (cfg_ElectionTimeoutMin cfg div t)
     in (heartbeat, mn, max (mn + 1) (cfg_ElectionTimeoutMax cfg div t)))"

definition fresh_node :: "Config \<Rightarrow> HardState \<Rightarrow> 'st raftLog \<Rightarrow> (nat \<Rightarrow> nat) \<Rightarrow> instant \<Rightarrow> 'st node" where
  "fresh_node cfg hs rl rng now =
    (case ticks cfg of (heartbeat, mn, mx) \<Rightarrow>
    \<lparr>nd_cfg = cfg, nd_currentTerm = hs_CurrentTerm hs, nd_votedFor = hs_VotedFor hs, nd_state = Follower,
     nd_leaderID = [], nd_commitIndex = 0, nd_lastApplied = snap_index rl, nd_durableTerm = 0,
     nd_nextIndex = None, nd_matchIndex = None, nd_inflight = None, nd_snapshotInflight = None,
     nd_departing = None, nd_log = rl, nd_deferredWrites = [], nd_unsafeTermSeq = 0, nd_completedWriteSeq = 0,
     nd_recordedCommit = 0, nd_electionElapsed = 0, nd_heartbeatElapsed = 0, nd_electionTimeout = 0,
     nd_heartbeatTimeout = heartbeat, nd_electionMinTicks = mn, nd_electionMaxTicks = mx,
     nd_pendingConfigIndex = 0, nd_jointOld = None, nd_jointNew = [], nd_jointIncludeSelf = False,
     nd_jointSelfVoter = False, nd_jointSelfVoterOld = False, nd_membershipWitness = False,
     nd_baseMembership = no_membership, nd_configIndex = 0, nd_leaderQuorumElapsed = 0, nd_quorumAcks = None,
     nd_termStartIndex = 0, nd_transferTarget = [], nd_transferElapsed = 0, nd_applyBaseIndex = snap_index rl,
     nd_commitNotifyCh = None, nd_pending = [], nd_receivedVoteSet = None, nd_snapshotTriggerCh = None,
     nd_snapshotting = False, nd_snapInstallAck = None, nd_installingSnap = 0, nd_pendingSnap = None,
     nd_installs = [], nd_initialSnap = None, nd_restoreSnapshotCh = None, nd_leaderNopCommitted = False,
     nd_readBatchGen = 0, nd_readBatchAcks = None, nd_readBatchIndex = 0, nd_pendingReads = [],
     nd_waitingReads = [], nd_leaseExpiry = None, nd_leaseSendTime = None, nd_leaseBase = None,
     nd_clientTable = newClientLRU (cfg_MaxClientTableSize cfg), nd_clientTableCap = cfg_MaxClientTableSize cfg,
     nd_clientTableCapAgreed = False, nd_clientTableCapReplicated = False, nd_baseClientTableCap = 0,
     nd_hasBaseClientTableCap = False, nd_applyStartCap = cfg_MaxClientTableSize cfg,
     nd_commitQuorumApplied = 0, nd_commitQuorumLatest = 0, nd_commitQuorumAgreed = False,
     nd_quorumEntryPending = 0, nd_capEntryPending = 0, nd_clientsForgotten = 0, nd_hbPumps = None,
     nd_rng = rng, nd_draws = 0, nd_peerHealth = None, nd_removedNotified = False, nd_fatalErr = None,
     nd_now = now, nd_permit = True, nd_out = [], nd_panic = False\<rparr>)"

text \<open>The store's own part in recovering the commit index is left to the caller: \<open>recorded\<close> is
  what \<open>LoadCommitIndex\<close> returned, 0 when the store keeps none.\<close>

definition recover_applied :: "Index \<Rightarrow> 'st node \<Rightarrow> 'st node" where
  "recover_applied durableApplied n =
    (let rl = nd_log n;
         n = (if nd_lastApplied n < durableApplied
              then n\<lparr>nd_lastApplied := durableApplied, nd_applyBaseIndex := durableApplied\<rparr> else n);
         n = (if rl_hasSnapClientTableCap rl
              then (adoptClientTableCap (rl_snapClientTableCap rl) n)\<lparr>
                     nd_baseClientTableCap := rl_snapClientTableCap rl, nd_hasBaseClientTableCap := True,
                     nd_applyStartCap := rl_snapClientTableCap rl\<rparr>
              else n)
     in if 0 < snap_index rl \<and> durableApplied < snap_index rl
        then n\<lparr>nd_clientTable := lru_loadFrom (nd_clientTable n) (rl_snapClientTable rl),
               nd_initialSnap := Some \<lparr>si_meta = rl_snapMeta rl, si_r = [], si_clientTable = rl_snapClientTable rl,
                 si_clientTableCap = rl_snapClientTableCap rl, si_hasClientTableCap = rl_hasSnapClientTableCap rl\<rparr>,
               nd_log := rl\<lparr>rl_snapClientTable := []\<rparr>\<rparr>
        else n)"

definition recover_base :: "'st node \<Rightarrow> 'st node" where
  "recover_base n =
    (let rl = nd_log n; cfg = nd_cfg n;
         n = (if rl_hasSnapMembership rl
              then adoptCommitQuorum (ms_commitQuorum (rl_snapMembership rl))
                     (n\<lparr>nd_baseMembership := rl_snapMembership rl\<rparr>)
              else n\<lparr>nd_baseMembership := no_membership\<lparr>ms_members :=
                       withSelf (cfg_Peers cfg) (cfg_ID cfg) True (cfg_Voter cfg) (cfg_Witness cfg)\<rparr>\<rparr>)
     in n\<lparr>nd_log := rl\<lparr>rl_snapMembership := no_membership\<rparr>\<rparr>)"

definition recover_table :: "Index \<Rightarrow> 'st node \<Rightarrow> 'st node" where
  "recover_table durableApplied n =
    (let rl = nd_log n
     in if 0 < durableApplied \<and> 0 < snap_index rl \<and> snap_index rl \<le> durableApplied
        then n\<lparr>nd_clientTable := lru_loadFrom (nd_clientTable n) (rl_snapClientTable rl),
               nd_log := rl\<lparr>rl_snapClientTable := []\<rparr>\<rparr>
        else n)"

definition New :: "'st Storage \<Rightarrow> 'st \<Rightarrow> Index result option \<Rightarrow> Index \<Rightarrow> (nat \<Rightarrow> nat) \<Rightarrow> instant \<Rightarrow> Config
    \<Rightarrow> 'st node result" where
  "New ops s durable recorded rng now cfg =
    (case Validate True True True cfg of
       Some _ \<Rightarrow> Fail (ErrOther ''invalid configuration'')
     | None \<Rightarrow>
         obind (newRaftLog (newStorageWriter ops s)) (\<lambda>rl.
         obind (st_LoadHardState ops s) (\<lambda>hs.
           let n = (fresh_node cfg hs rl rng now)\<lparr>nd_recordedCommit := recorded\<rparr>
           in obind (durableAppliedIndex durable (nd_log n)) (\<lambda>durableApplied.
                case rebuildMembership (recover_base (recover_applied durableApplied n)) of
                  (n, Ok _) \<Rightarrow>
                    if nd_membershipWitness n \<noteq> cfg_Witness (nd_cfg n) then Fail ErrWitnessMismatch
                    else let n = recover_table durableApplied n
                         in Ok (resetElectionTimeout (n\<lparr>nd_durableTerm := nd_currentTerm n\<rparr>))
                | (_, Fail e) \<Rightarrow> Fail e
                | (_, Panic) \<Rightarrow> Panic))))"

section \<open>Changes of configuration\<close>

text \<open>What each call proposes; \<open>None\<close> when it refuses without proposing anything.\<close>

definition AddServer :: "PeerConfig \<Rightarrow> bytes" where
  "AddServer p = encodeConfigEntry configOpAdd p"

definition RemoveServer :: "NodeID \<Rightarrow> bytes" where
  "RemoveServer i = encodeConfigEntry configOpRemove \<lparr>pc_ID = i, pc_Voter = False, pc_Witness = False\<rparr>"

definition AddWitness :: "NodeID \<Rightarrow> bytes option" where
  "AddWitness i = (if i = [] then None else Some (AddServer \<lparr>pc_ID = i, pc_Voter = True, pc_Witness = True\<rparr>))"

fun has_duplicate :: "NodeID list \<Rightarrow> PeerConfig list \<Rightarrow> bool" where
  "has_duplicate seen [] = False"
| "has_duplicate seen (p # ps) = (if pc_ID p \<in> set seen then True else has_duplicate (pc_ID p # seen) ps)"

definition ReconfigureCluster :: "PeerConfig list \<Rightarrow> 'st node \<Rightarrow> bytes option" where
  "ReconfigureCluster newMembers n =
    (if has_duplicate [] newMembers then None
     else Some (encodeJointConfigEntry (cfg_Peers (nd_cfg n)) newMembers))"

definition SetCommitQuorum :: "int \<Rightarrow> 'st node \<Rightarrow> bytes option" where
  "SetCommitQuorum q n =
    (if q < 0 then None
     else if int (length (filter pc_Voter (Members n))) < q then None
     else Some (encodeCommitQuorumEntry q))"

definition SetMaxClientTableSize :: "int \<Rightarrow> bytes option" where
  "SetMaxClientTableSize sz = (if sz < 0 then None else Some (encodeClientTableCapEntry sz))"

end
