(* ===== verification/Election_Safety.thy ===== *)
theory Election_Safety
  imports Node_Vote Node_New
begin

text \<open>
  A group of nodes with a fixed set of voters, over stores that keep the hard state,
  and the proof that no two of them lead in the same term.  Messages may be lost,
  repeated, delayed and reordered; writes may be slow or fail; a node may stop at any
  moment, also in the middle of a write, and start again from its store.
\<close>

section \<open>Stores that keep the hard state\<close>

text \<open>\<open>SaveHardState\<close> is atomic and on success durable; nothing else touches the hard state.\<close>

locale hard_store =
  fixes ops :: "'st Storage" and hard :: "'st \<Rightarrow> HardState"
  assumes saves: "st_SaveHardState ops s hs = (s', r) \<Longrightarrow> hard s' = hs \<or> hard s' = hard s \<and> r \<noteq> Ok ()"
    and saves_state: "st_SaveState ops = Some save \<Longrightarrow> save s (Some h) es = (s', r) \<Longrightarrow>
      hard s' = h \<or> hard s' = hard s \<and> r \<noteq> Ok ()"
    and append_keeps: "st_AppendLogEntries ops s es = (s', r) \<Longrightarrow> hard s' = hard s"
    and suffix_keeps: "st_TruncateSuffix ops s i = (s', r) \<Longrightarrow> hard s' = hard s"
    and prefix_keeps: "st_TruncatePrefix ops s i = (s', r) \<Longrightarrow> hard s' = hard s"
    and commit_keeps: "st_SaveCommitIndex ops = Some savec \<Longrightarrow> savec s i = (s', r) \<Longrightarrow> hard s' = hard s"
    and snapshot_keeps: "st_SaveSnapshot ops s meta d = (s', r) \<Longrightarrow> hard s' = hard s"
    and loads: "st_LoadHardState ops s = Ok h \<Longrightarrow> h = hard s"
begin

text \<open>A batch writes at most one hard state, its first operation.\<close>

lemma run_hard:
  assumes shape: "batch_shape ops batch" and w: "sw_ops w = ops" and run: "writer_run w batch = (s, r)"
  shows "hard s = hard (sw_storage w) \<and> (r = Ok () \<longrightarrow> (\<forall>op\<in>set batch. wo_kind op \<noteq> writeHardState))
    \<or> (\<exists>op\<in>set batch. wo_kind op = writeHardState \<and> hard s = wo_hs op
        \<and> (\<forall>op'\<in>set batch. wo_kind op' = writeHardState \<longrightarrow> op' = op))"
proof (cases "sw_failed w")
  case None
  from shape consider (one) op where "batch = [op]"
    | (appends) "batch \<noteq> []" "list_all (\<lambda>op. wo_kind op = writeAppend) batch"
    | (paired) op ops' where "batch = op # ops'" "ops' \<noteq> []" "wo_kind op = writeHardState" "st_SaveState ops \<noteq> None"
        "list_all (\<lambda>op. wo_kind op = writeAppend) ops'"
    unfolding batch_shape_def by (cases batch) (auto simp: length_Suc_conv)
  then show ?thesis
  proof cases
    case one
    have "hard s = hard (sw_storage w) \<or> hard s = wo_hs op" if "wo_kind op = writeHardState"
      using run None w that one saves by (fastforce simp: writer_run_def)
    moreover have "hard s = wo_hs op" if "wo_kind op = writeHardState" "r = Ok ()"
      using run None w that one saves by (fastforce simp: writer_run_def)
    moreover have "hard s = hard (sw_storage w)" if "wo_kind op \<noteq> writeHardState"
      using run None w that one append_keeps suffix_keeps prefix_keeps commit_keeps
      by (cases "wo_kind op") (auto simp: writer_run_def Let_def split: if_splits option.splits)
    ultimately show ?thesis using one by auto
  next
    case appends
    then obtain b bs where b: "batch = b # bs" "wo_kind b = writeAppend" by (cases batch) auto
    then have "hard s = hard (sw_storage w)"
      using run None w append_keeps by (auto simp: writer_run_def Let_def split: if_splits)
    then show ?thesis using appends by (auto simp: list_all_iff)
  next
    case paired
    then obtain b bs where b: "ops' = b # bs" "wo_kind b = writeAppend" by (cases ops') auto
    obtain save where save: "st_SaveState ops = Some save" using paired(4) by blast
    then have h: "hard s = wo_hs op \<or> hard s = hard (sw_storage w) \<and> r \<noteq> Ok ()"
      using run None w paired b saves_state by (fastforce simp: writer_run_def Let_def split: if_splits)
    have "\<forall>op'\<in>set batch. wo_kind op' = writeHardState \<longrightarrow> op' = op"
      using paired(1,5) by (auto simp: list_all_iff)
    moreover have "op \<in> set batch" using paired(1) by simp
    ultimately show ?thesis using h paired(3) by blast
  qed
qed (use run in \<open>auto simp: writer_run_def\<close>)

end

interpretation mem_hard: hard_store mem_storage mem_hs
  by unfold_locales (auto simp: mem_storage_def mem_SaveHardState_def mem_LoadHardState_def mem_AppendLogEntries_def
      mem_TruncateSuffix_def mem_TruncatePrefix_def mem_SaveCommitIndex_def mem_SaveSnapshot_def Let_def
      split: if_splits outcome.splits option.splits)

section \<open>Histories grow\<close>

definition hist_le :: "history \<Rightarrow> history \<Rightarrow> bool" where
  "hist_le H H' \<longleftrightarrow> (\<forall>q. H q \<subseteq> H' q)"

lemma hist_leD: "hist_le H H' \<Longrightarrow> h \<in> H q \<Longrightarrow> h \<in> H' q"
  by (auto simp: hist_le_def)

lemma grant_ok_mono: "hist_le H H' \<Longrightarrow> grant_ok H ch r \<Longrightarrow> grant_ok H' ch r"
  by (auto simp: grant_ok_def dest: hist_leD)

lemma work_ok_mono: "hist_le H H' \<Longrightarrow> work_ok H d \<Longrightarrow> work_ok H' d"
  by (induction H d rule: work_ok.induct) (auto intro: grant_ok_mono)

lemma effect_ok_mono: "hist_le H H' \<Longrightarrow> effect_ok H p e \<Longrightarrow> effect_ok H' p e"
  by (induction H p e rule: effect_ok.induct) (auto intro: grant_ok_mono dest: hist_leD)

lemma out_ok_mono: "hist_le H H' \<Longrightarrow> out_ok H p es \<Longrightarrow> out_ok H' p es"
  by (auto simp: out_ok_def intro: effect_ok_mono)

lemma count_ok_mono: "hist_le H H' \<Longrightarrow> count_ok H p n \<Longrightarrow> count_ok H' p n"
  by (auto simp: count_ok_def dest: hist_leD)

lemma elected_mono: "hist_le H H' \<Longrightarrow> elected H V p t \<Longrightarrow> elected H' V p t"
  unfolding elected_def by (meson hist_leD)

lemma deferred_ok_mono: "hist_le H H' \<Longrightarrow> deferred_ok H p ds rl ws \<Longrightarrow> deferred_ok H' p ds rl ws"
  by (auto simp: deferred_ok_def backed_def intro: work_ok_mono dest: hist_leD)

lemma elect_inv_mono:
  assumes "elect_inv ops hard V H q ds n" "hist_le H H'" "H' q = H q"
  shows "elect_inv ops hard V H' q ds n"
  using assms by (auto simp: elect_inv_def chain_ok_def intro: deferred_ok_mono out_ok_mono count_ok_mono elected_mono)

section \<open>The writer's goroutine\<close>

definition set_writer :: "'st storageWriter \<Rightarrow> 'st node \<Rightarrow> 'st node" where
  "set_writer w n = n\<lparr>nd_log := (nd_log n)\<lparr>rl_w := w\<rparr>\<rparr>"

lemma pending_writes_ops: "pending_writes rl = pending_ops (rl_w rl)"
  by (simp add: pending_writes_def pending_ops_def)

lemma node_inv_take:
  assumes "node_inv ops hard V H p n"
  shows "node_inv ops hard V H p (set_writer (loop_take (rl_w (nd_log n))) n)"
proof -
  let ?w = "rl_w (nd_log n)" and ?w' = "loop_take (rl_w (nd_log n))"
  note t = loop_take_spec [OF refl, of ?w]
  have same: "sw_storage ?w' = sw_storage ?w" "sw_done ?w' = sw_done ?w" "pending_ops ?w' = pending_ops ?w"
    "sw_ops ?w' = sw_ops ?w" "sw_closed ?w' = sw_closed ?w" using t by simp_all
  have "batch_shape ops (sw_running ?w')" if "sw_running ?w' \<noteq> []"
    using t that elect_invD(4,11) [OF assms] by (cases "sw_running ?w = []") auto
  then show ?thesis
    using assms by (simp add: elect_inv_def chain_ok_def seq_ok_def count_ok_def deferred_ok_def backed_def node_hs_def
        pending_hs_def pending_writes_ops set_writer_def same)
qed

text \<open>A completion that reports success has its hard state in the store, one that does not is an
  error everything waiting for it sees.\<close>

lemma backed_executed:
  assumes "backed H p ds rl k h" "hist_le H H'"
    and "pending_writes rl = batch @ pending_writes rl'"
    and "\<And>op. op \<in> set batch \<Longrightarrow> wo_kind op = writeHardState \<Longrightarrow> err = None \<Longrightarrow> wo_hs op \<in> H' p"
  shows "backed H' p (ds @ map (completion err) batch) rl' k h"
proof -
  have failed: "\<exists>d\<in>set (ds @ map (completion err) batch). wd_err d \<noteq> None \<and> wd_seq d \<le> k"
    if "op \<in> set batch" "wo_seq op \<le> k" "err \<noteq> None" for op
    using that by (intro bexI [of _ "completion err op"]) (auto simp: completion_def)
  from assms(1) consider "h \<in> H p" | op where "op \<in> set batch" "wo_kind op = writeHardState" "wo_hs op = h" "wo_seq op \<le> k"
    | op where "op \<in> set (pending_writes rl')" "wo_kind op = writeHardState" "wo_hs op = h" "wo_seq op \<le> k"
    | d where "d \<in> set ds" "wd_err d \<noteq> None" "wd_seq d \<le> k"
    unfolding backed_def assms(3) by auto
  then show ?thesis
  proof cases
    case 2
    then show ?thesis using failed assms(4) unfolding backed_def by (cases "err = None") blast+
  qed (use assms(2) in \<open>auto simp: backed_def dest: hist_leD\<close>)
qed

lemma sorted_after_batch:
  assumes "sorted_wrt hs_le (h # xs @ ys)" "h' = h \<or> h' \<in> set xs"
  shows "sorted_wrt hs_le (h' # ys)" "hs_le h h'"
  using assms by (auto simp: sorted_wrt_append)

context hard_store
begin

lemma node_inv_execute:
  assumes inv: "node_inv ops hard V H p n" and run: "loop_execute (rl_w (nd_log n)) = Ok w'"
    and H': "H' = H(p := insert (hard (sw_storage w')) (H p))"
  shows "node_inv ops hard V H' p (set_writer w' n)"
proof (cases "sw_running (rl_w (nd_log n)) = []")
  case True
  then have "w' = rl_w (nd_log n)" using run by (simp add: loop_execute_def)
  then have "set_writer w' n = n" "H' = H"
    using elect_invD(5) [OF inv] by (simp_all add: set_writer_def H' chain_ok_def insert_absorb)
  then show ?thesis using inv by simp
next
  case False
  let ?w = "rl_w (nd_log n)" and ?m = "set_writer w' n"
  let ?batch = "sw_running ?w"
  note d = elect_invD [OF inv]
  obtain s r where sr: "writer_run ?w ?batch = (s, r)" by fastforce
  let ?err = "result_err r"
  have w': "r \<noteq> Panic" "sw_storage w' = s" "sw_running w' = []" "sw_queue w' = sw_queue ?w" "sw_closed w' = sw_closed ?w"
    "sw_ops w' = sw_ops ?w" "sw_done w' = sw_done ?w @ map (completion ?err) ?batch"
    using run False sr by (auto simp: loop_execute_def writer_execute_def Let_def split: if_splits)
  have le: "hist_le H H'" by (auto simp: H' hist_le_def)
  have ok: "r = Ok ()" if "?err = None" using w'(1) that by (cases r) auto
  note h = run_hard [OF d(11) [OF False] d(4) sr]
  have pend: "pending_writes (nd_log n) = ?batch @ pending_writes (nd_log ?m)"
    by (simp add: pending_writes_def set_writer_def w')
  let ?hs = "map wo_hs (filter (\<lambda>op. wo_kind op = writeHardState) ?batch)"
  have phs: "pending_hs (nd_log n) = ?hs @ pending_hs (nd_log ?m)" unfolding pending_hs_def pend by simp
  have store: "store_of ?m = s" "node_hs ?m = node_hs n" by (simp_all add: set_writer_def w' node_hs_def)
  have chain: "sorted_wrt hs_le (hard (store_of n) # ?hs @ (pending_hs (nd_log ?m) @ [node_hs n]))"
    using d(5) unfolding chain_ok_def phs by simp
  have "hard s = hard (store_of n) \<or> hard s \<in> set ?hs" using h by auto
  note new = sorted_after_batch [OF chain this]
  have "chain_ok hard H' p ?m"
    using d(5) new unfolding chain_ok_def store H' w'(2) by (auto intro: hs_le_trans)
  moreover have "seq_ok (sw_done w') ?m"
    using d(6) by (simp add: seq_ok_def w' set_writer_def pending_writes_def completion_def comp_def)
  moreover have "deferred_ok H' p (sw_done w') (nd_log ?m) (nd_deferredWrites ?m)"
  proof -
    have "wo_hs op \<in> H' p" if "op \<in> set ?batch" "wo_kind op = writeHardState" "?err = None" for op
      using h ok that by (auto simp: H' w'(2))
    then show ?thesis
      using d(7) backed_executed [OF _ le pend] work_ok_mono [OF le] unfolding deferred_ok_def w'(7)
      by (simp add: set_writer_def)
  qed
  ultimately show ?thesis
    using d out_ok_mono [OF le] count_ok_mono [OF le] elected_mono [OF le]
    by (simp add: elect_inv_def set_writer_def w' count_ok_def)
qed

end

section \<open>Starting from a store\<close>

lemma loadRuns_loop_same: "loadRuns_loop rl lo = Ok rl' \<Longrightarrow> rl_w rl' = rl_w rl \<and> rl_nextSeq rl' = rl_nextSeq rl"
proof (induction rl lo rule: loadRuns_loop.induct)
  case (1 rl lo)
  from "1.prems" show ?case
    by (subst (asm) loadRuns_loop.simps) (auto simp: obind_eq_Ok extendRuns_def split: if_splits dest!: "1.IH")
qed

lemma newRaftLog_same:
  assumes "newRaftLog w = Ok rl" shows "rl_w rl = w" "rl_nextSeq rl = 0"
proof -
  from assms obtain rl0 f l where a: "load_snapshot_part (empty_log w) = Ok rl0" and
    b: "(let rl = rl0\<lparr>rl_first := f, rl_last := l, rl_durable := l, rl_queuedDurable := l\<rparr>
      in if 0 < l
         then obind (loadRuns rl) (\<lambda>rl. Ok (rl\<lparr>rl_lastTerm := tr_term (rl_runs rl ! (length (rl_runs rl) - 1))\<rparr>))
         else Ok (rl\<lparr>rl_lastTerm := snap_term rl\<rparr>)) = Ok rl"
    unfolding newRaftLog_def by (auto simp: obind_eq_Ok)
  have "rl_w rl0 = w" "rl_nextSeq rl0 = 0"
    using a by (auto simp: load_snapshot_part_def empty_log_def split: outcome.splits prod.splits if_splits)
  then show "rl_w rl = w" "rl_nextSeq rl = 0"
    using b by (auto simp: Let_def loadRuns_def obind_eq_Ok split: if_splits dest!: loadRuns_loop_same)
qed

lemma adopts_log: "nd_log (adoptClientTableCap c n) = nd_log n" "nd_log (adoptCommitQuorum q n) = nd_log n"
  by (simp_all add: adoptClientTableCap_def adoptCommitQuorum_def split: prod.split)

lemma recover_quiet [quiets]:
  "quiet n m \<Longrightarrow> quiet n (recover_applied i m)" "quiet n m \<Longrightarrow> quiet n (recover_base m)"
  "quiet n m \<Longrightarrow> quiet n (recover_table i m)"
  by (auto simp: adopts_log recover_applied_def recover_base_def recover_table_def Let_def intro!: quiets log_quiet_same)

text \<open>What every start of a node needs: the store holds the latest of what it ever held.\<close>

definition latest :: "history \<Rightarrow> NodeID \<Rightarrow> HardState \<Rightarrow> bool" where
  "latest H p h \<longleftrightarrow> h \<in> H p \<and> (\<forall>h'\<in>H p. hs_le h' h) \<and> (\<forall>h\<in>H p. \<forall>h'\<in>H p. hs_le h h' \<or> hs_le h' h)"

lemma fresh_node_inv:
  assumes "rl_w rl = newStorageWriter ops s" "rl_nextSeq rl = 0" "latest H p (hard s)" "cfg_ID cfg = p" "p \<noteq> []"
  shows "elect_inv ops hard V H p [] ((fresh_node cfg (hard s) rl rng now)\<lparr>nd_recordedCommit := r\<rparr>)"
  using assms by (cases "ticks cfg")
    (simp add: elect_inv_def fresh_node_def newStorageWriter_def chain_ok_def latest_def seq_ok_def deferred_ok_def out_ok_def
      count_ok_def pending_hs_def pending_writes_def node_hs_def hs_of_def hs_le_def)

lemma Validate_id: "Validate a b c cfg = None \<Longrightarrow> cfg_ID cfg \<noteq> []"
  by (auto simp: Validate_def)

context hard_store
begin

lemma New_inv:
  assumes new: "New ops s durable recorded rng now cfg = Ok n" and H: "latest H (cfg_ID cfg) (hard s)"
  shows "node_inv ops hard V H (cfg_ID cfg) n" "store_of n = s" "nd_state n = Follower"
proof -
  from new obtain rl hs i where rl: "newRaftLog (newStorageWriter ops s) = Ok rl" and hs: "st_LoadHardState ops s = Ok hs"
    and v: "Validate True True True cfg = None"
    and rest: "(case rebuildMembership (recover_base (recover_applied i
        ((fresh_node cfg hs rl rng now)\<lparr>nd_recordedCommit := recorded\<rparr>))) of
      (n, Ok _) \<Rightarrow>
        if nd_membershipWitness n \<noteq> cfg_Witness (nd_cfg n) then Fail ErrWitnessMismatch
        else let n = recover_table i n in Ok (resetElectionTimeout (n\<lparr>nd_durableTerm := nd_currentTerm n\<rparr>))
    | (_, Fail e) \<Rightarrow> Fail e | (_, Panic) \<Rightarrow> Panic) = Ok n"
    unfolding New_def by (auto simp: obind_eq_Ok Let_def split: option.splits)
  have hard: "hs = hard s" using loads [OF hs] .
  let ?f = "(fresh_node cfg (hard s) rl rng now)\<lparr>nd_recordedCommit := recorded\<rparr>"
  let ?b = "fst (rebuildMembership (recover_base (recover_applied i ?f)))"
  define k where "k = recover_table i ?b"
  have n: "n = resetElectionTimeout (k\<lparr>nd_durableTerm := nd_currentTerm k\<rparr>)"
    using rest by (auto simp: hard k_def Let_def split: prod.splits outcome.splits if_splits)
  have f: "elect_inv ops hard V H (cfg_ID cfg) [] ?f"
    using newRaftLog_same [OF rl] H Validate_id [OF v] by (intro fresh_node_inv) simp_all
  have q: "quiet ?f k" unfolding k_def by (intro quiets)
  have "elect_inv ops hard V H (cfg_ID cfg) [] (k\<lparr>nd_durableTerm := nd_currentTerm k\<rparr>)"
    using elect_inv_quiet [OF f q] by (simp add: elect_inv_def chain_ok_def seq_ok_def count_ok_def node_hs_def)
  then have "elect_inv ops hard V H (cfg_ID cfg) [] n" unfolding n by (rule elect_inv_quiet) (intro quiets)
  moreover have same: "nd_log n = nd_log k" "nd_state n = nd_state k"
    by (simp_all add: n resetElectionTimeout_def Let_def)
  moreover have base: "rl_w (nd_log ?f) = newStorageWriter ops s" "nd_state ?f = Follower"
    using newRaftLog_same(1) [OF rl] by (cases "ticks cfg", simp add: fresh_node_def)+
  ultimately show "node_inv ops hard V H (cfg_ID cfg) n" "store_of n = s" "nd_state n = Follower"
    using q by (simp_all add: quiet_def log_quiet_def newStorageWriter_def)
qed

end

section \<open>The group\<close>

text \<open>The nodes that were started, every message sent so far, and two records of the past: the hard
  states each store has held, and who led in which term.\<close>

record 'st cluster =
  cl_nodes :: "NodeID \<Rightarrow> 'st node option"
  cl_net :: "(NodeID \<times> outEffect) set"
  cl_hist :: history
  cl_led :: "(Term \<times> NodeID) set"

definition empty_cluster :: "'st cluster" where
  "empty_cluster = \<lparr>cl_nodes = (\<lambda>_. None), cl_net = {}, cl_hist = (\<lambda>_. {}), cl_led = {}\<rparr>"

text \<open>Node \<open>p\<close> is now in state \<open>n\<close>.\<close>

definition put_node :: "('st \<Rightarrow> HardState) \<Rightarrow> NodeID \<Rightarrow> 'st node \<Rightarrow> 'st cluster \<Rightarrow> 'st cluster" where
  "put_node hard p n c =
    \<lparr>cl_nodes = (cl_nodes c)(p \<mapsto> n), cl_net = cl_net c \<union> Pair p ` set (nd_out n),
     cl_hist = (cl_hist c)(p := insert (hard (store_of n)) (cl_hist c p)),
     cl_led = cl_led c \<union> (if nd_state n = Leader then {(nd_currentTerm n, p)} else {})\<rparr>"

text \<open>A vote request reaches the peer it was sent to, and the answer the candidate that asked, as
  the goroutines of \<open>broadcastRequestVote\<close> hand it on.  Nothing is said about other events.\<close>

definition deliverable :: "(NodeID \<times> outEffect) set \<Rightarrow> NodeID \<Rightarrow> event \<Rightarrow> bool" where
  "deliverable net p ev = (case ev of
      EvCall (QVote r) ch \<Rightarrow> rc_req ch = QVote r \<and> (rc_from ch, OVote p r) \<in> net
    | EvVoteResult v \<Rightarrow> (\<exists>q req r. (q, OReply \<lparr>rc_from = p, rc_req = QVote req\<rparr> (PVote r) None) \<in> net
        \<and> v = \<lparr>vr_peerID = q, vr_term = rvr_Term r, vr_voteGranted = rvr_VoteGranted r,
                vr_electionTerm = rv_Term req, vr_preVote = rv_PreVote req\<rparr>)
    | _ \<Rightarrow> True)"

text \<open>What a crash leaves: the hard state in the store or the one being written.\<close>

definition crash_store :: "('st \<Rightarrow> HardState) \<Rightarrow> 'st node \<Rightarrow> 'st \<Rightarrow> bool" where
  "crash_store hard n s \<longleftrightarrow> hard s = hard (store_of n)
    \<or> (\<exists>op\<in>set (sw_running (rl_w (nd_log n))). wo_kind op = writeHardState \<and> hard s = wo_hs op)"

inductive cluster_step :: "'st Storage \<Rightarrow> ('st \<Rightarrow> HardState) \<Rightarrow> NodeID set \<Rightarrow> 'st cluster \<Rightarrow> 'st cluster \<Rightarrow> bool"
  for ops hard V where
  boot: "cl_nodes c p = None \<Longrightarrow> New ops s durable recorded rng now cfg = Ok n \<Longrightarrow> cfg_ID cfg = p \<Longrightarrow>
    voters_fixed V n \<Longrightarrow> cluster_step ops hard V c (put_node hard p n c)"
| event: "cl_nodes c p = Some n \<Longrightarrow> deliverable (cl_net c) p ev \<Longrightarrow> voters_fixed V (step_event ev n) \<Longrightarrow>
    cluster_step ops hard V c (put_node hard p (step_event ev n) c)"
| take: "cl_nodes c p = Some n \<Longrightarrow>
    cluster_step ops hard V c (put_node hard p (set_writer (loop_take (rl_w (nd_log n))) n) c)"
| execute: "cl_nodes c p = Some n \<Longrightarrow> loop_execute (rl_w (nd_log n)) = Ok w \<Longrightarrow>
    cluster_step ops hard V c (put_node hard p (set_writer w n) c)"
| snapshot: "cl_nodes c p = Some n \<Longrightarrow> st_SaveSnapshot ops (store_of n) meta d = (s, r) \<Longrightarrow>
    cluster_step ops hard V c (put_node hard p (set_store s n) c)"
| other: "cl_nodes c p = Some n \<Longrightarrow> core n' = core n \<Longrightarrow> voters_fixed V n' \<Longrightarrow>
    cluster_step ops hard V c (put_node hard p n' c)"
| crash: "cl_nodes c p = Some n \<Longrightarrow> crash_store hard n s \<Longrightarrow> New ops s durable recorded rng now cfg = Ok n' \<Longrightarrow>
    cfg_ID cfg = p \<Longrightarrow> voters_fixed V n' \<Longrightarrow> cluster_step ops hard V c (put_node hard p n' c)"

inductive cluster_run :: "'st Storage \<Rightarrow> ('st \<Rightarrow> HardState) \<Rightarrow> NodeID set \<Rightarrow> 'st cluster \<Rightarrow> bool"
  for ops hard V where
  start: "cluster_run ops hard V empty_cluster"
| step: "cluster_run ops hard V c \<Longrightarrow> cluster_step ops hard V c c' \<Longrightarrow> cluster_run ops hard V c'"

section \<open>The invariant of the group\<close>

definition cluster_inv :: "'st Storage \<Rightarrow> ('st \<Rightarrow> HardState) \<Rightarrow> NodeID set \<Rightarrow> 'st cluster \<Rightarrow> bool" where
  "cluster_inv ops hard V c \<longleftrightarrow>
    (\<forall>p n. cl_nodes c p = Some n \<longrightarrow> node_inv ops hard V (cl_hist c) p n \<and> voters_fixed V n)
    \<and> (\<forall>p e. (p, e) \<in> cl_net c \<longrightarrow> p \<noteq> [] \<and> (vote_out e \<longrightarrow> effect_ok (cl_hist c) p e))
    \<and> (\<forall>t p. (t, p) \<in> cl_led c \<longrightarrow> p \<noteq> [] \<and> elected (cl_hist c) V p t)
    \<and> (\<forall>p. cl_nodes c p = None \<longrightarrow> cl_hist c p = {})
    \<and> (\<forall>p. \<forall>h\<in>cl_hist c p. \<forall>h'\<in>cl_hist c p. hs_le h h' \<or> hs_le h' h)"

text \<open>A step of one node: it is enough that its own invariant holds with the history it leaves.\<close>

lemma put_node_inv:
  assumes c: "cluster_inv ops hard V c" and fixed: "voters_fixed V n"
    and n: "node_inv ops hard V ((cl_hist c)(p := insert (hard (store_of n)) (cl_hist c p))) p n"
  shows "cluster_inv ops hard V (put_node hard p n c)"
proof -
  let ?H = "(cl_hist c)(p := insert (hard (store_of n)) (cl_hist c p))"
  have le: "hist_le (cl_hist c) ?H" by (auto simp: hist_le_def)
  note d = elect_invD [OF n]
  have nodes: "node_inv ops hard V ?H q m \<and> voters_fixed V m" if "cl_nodes c q = Some m" "q \<noteq> p" for q m
  proof -
    have m: "node_inv ops hard V (cl_hist c) q m" "voters_fixed V m" using c that by (auto simp: cluster_inv_def)
    show ?thesis using elect_inv_mono [OF m(1) le] m(2) that(2) by simp
  qed
  have net: "q \<noteq> [] \<and> (vote_out e \<longrightarrow> effect_ok ?H q e)" if "(q, e) \<in> cl_net c \<union> Pair p ` set (nd_out n)" for q e
    using that c d(2,8) effect_ok_mono [OF le] unfolding cluster_inv_def out_ok_def by blast
  have led: "q \<noteq> [] \<and> elected ?H V q t"
    if "(t, q) \<in> cl_led c \<union> (if nd_state n = Leader then {(nd_currentTerm n, p)} else {})" for t q
    using that c d(2,10) elected_mono [OF le] unfolding cluster_inv_def by (auto split: if_splits)
  have "\<forall>h\<in>?H p. \<forall>h'\<in>?H p. hs_le h h' \<or> hs_le h' h" using d(5) unfolding chain_ok_def by blast
  moreover have "\<forall>h\<in>cl_hist c q. \<forall>h'\<in>cl_hist c q. hs_le h h' \<or> hs_le h' h" for q
    using c unfolding cluster_inv_def by blast
  ultimately have "hs_le h h' \<or> hs_le h' h" if "h \<in> ?H q" "h' \<in> ?H q" for q h h'
    using that by (cases "q = p") (blast, simp)
  then show ?thesis
    unfolding cluster_inv_def put_node_def using n fixed nodes net led c by (simp add: cluster_inv_def)
qed

lemma cluster_net:
  assumes "cluster_inv ops hard V c" "(p, e) \<in> cl_net c"
  shows "p \<noteq> []" "vote_out e \<Longrightarrow> effect_ok (cl_hist c) p e"
  using assms unfolding cluster_inv_def by blast+

lemma cluster_history:
  "cluster_inv ops hard V c \<Longrightarrow> h \<in> cl_hist c p \<Longrightarrow> h' \<in> cl_hist c p \<Longrightarrow> hs_le h h' \<or> hs_le h' h"
  unfolding cluster_inv_def by blast

lemma deliverable_event_ok:
  assumes "cluster_inv ops hard V c" "deliverable (cl_net c) p ev"
  shows "event_ok (cl_hist c) p ev"
proof (cases ev)
  case (EvCall req ch)
  show ?thesis
  proof (cases req)
    case (QVote r)
    then have r: "rc_req ch = QVote r" "(rc_from ch, OVote p r) \<in> cl_net c"
      using assms(2) EvCall by (simp_all add: deliverable_def)
    then show ?thesis
      using cluster_net [OF assms(1) r(2)] EvCall QVote by (simp add: request_ok_def)
  qed (use EvCall in simp_all)
next
  case (EvVoteResult v)
  then obtain q req r where net: "(q, OReply \<lparr>rc_from = p, rc_req = QVote req\<rparr> (PVote r) None) \<in> cl_net c"
    and v: "v = \<lparr>vr_peerID = q, vr_term = rvr_Term r, vr_voteGranted = rvr_VoteGranted r,
      vr_electionTerm = rv_Term req, vr_preVote = rv_PreVote req\<rparr>"
    using assms(2) by (auto simp: deliverable_def)
  have "effect_ok (cl_hist c) q (OReply \<lparr>rc_from = p, rc_req = QVote req\<rparr> (PVote r) None)"
    if "\<not> rv_PreVote req" "rvr_VoteGranted r"
    using cluster_net(2) [OF assms(1) net] that by (simp add: vote_out_def)
  then show ?thesis by (auto simp: EvVoteResult v vote_result_ok_def grant_ok_def)
qed simp_all

lemma history_same: "hard s \<in> H p \<Longrightarrow> H(p := insert (hard s) (H p)) = H"
  by (simp add: insert_absorb)

lemma latest_insert:
  assumes "chain_ok hard H p n" "crash_store hard n s"
  shows "latest (H(p := insert (hard s) (H p))) p (hard s)"
proof -
  have "hs_le (hard (store_of n)) (hard s)"
    using assms by (auto simp: crash_store_def chain_ok_def pending_hs_def pending_writes_def)
  then show ?thesis using assms(1) by (auto simp: latest_def chain_ok_def intro: hs_le_trans)
qed

context hard_store
begin

lemma cluster_step_inv:
  assumes "cluster_step ops hard V c c'" "cluster_inv ops hard V c"
  shows "cluster_inv ops hard V c'"
  using assms
proof (induction rule: cluster_step.induct)
  case (boot c p s durable recorded rng now cfg n)
  have "cl_hist c p = {}" using boot by (simp add: cluster_inv_def)
  then have l: "latest ((cl_hist c)(p := insert (hard s) (cl_hist c p))) (cfg_ID cfg) (hard s)"
    using boot.hyps(3) by (simp add: latest_def)
  note n = New_inv [OF boot.hyps(2) l]
  show ?case using n boot.hyps(3) by (intro put_node_inv boot) simp_all
next
  case (event c p n ev)
  have n: "node_inv ops hard V (cl_hist c) p n" "voters_fixed V n"
    using event by (simp_all add: cluster_inv_def)
  have m: "node_inv ops hard V (cl_hist c) p (step_event ev n)"
    by (rule step_event_inv [OF n deliverable_event_ok [OF event.prems event.hyps(2)]])
  show ?case
    using m elect_invD(5) [OF m] by (intro put_node_inv event) (simp add: history_same chain_ok_def)
next
  case (take c p n)
  have n: "node_inv ops hard V (cl_hist c) p n" "voters_fixed V n"
    using take by (simp_all add: cluster_inv_def)
  note m = node_inv_take [OF n(1)]
  have "voters_fixed V (set_writer (loop_take (rl_w (nd_log n))) n)"
    using n(2) by (simp add: set_writer_def voters_fixed_def Members_def)
  then show ?case
    using m elect_invD(5) [OF m] by (intro put_node_inv take) (simp_all add: history_same chain_ok_def)
next
  case (execute c p n w)
  have n: "node_inv ops hard V (cl_hist c) p n" "voters_fixed V n"
    using execute by (simp_all add: cluster_inv_def)
  have "voters_fixed V (set_writer w n)" "store_of (set_writer w n) = sw_storage w"
    using n(2) by (simp_all add: set_writer_def voters_fixed_def Members_def)
  then show ?case
    using node_inv_execute [OF n(1) execute.hyps(2) refl] by (intro put_node_inv execute) simp_all
next
  case (snapshot c p n meta d s r)
  have n: "node_inv ops hard V (cl_hist c) p n" "voters_fixed V n"
    using snapshot by (simp_all add: cluster_inv_def)
  have "hard s = hard (store_of n)" using snapshot_keeps snapshot.hyps(2) by blast
  then have m: "node_inv ops hard V (cl_hist c) p (set_store s n)"
    using n(1) by (simp add: set_store_def elect_inv_def chain_ok_def seq_ok_def deferred_ok_def backed_def
        count_ok_def node_hs_def pending_hs_def pending_writes_def)
  have "voters_fixed V (set_store s n)"
    using n(2) by (simp add: set_store_def voters_fixed_def Members_def)
  then show ?case
    using m elect_invD(5) [OF m] by (intro put_node_inv snapshot) (simp_all add: history_same chain_ok_def)
next
  case (other c p n n')
  have n: "node_inv ops hard V (cl_hist c) p n" using other by (simp add: cluster_inv_def)
  have "quiet n n'" using other.hyps(2) by (rule quiet_core)
  then have m: "node_inv ops hard V (cl_hist c) p n'" using elect_inv_quiet [OF n] by (simp add: quiet_done)
  show ?case
    using m elect_invD(5) [OF m] by (intro put_node_inv other) (simp add: history_same chain_ok_def)
next
  case (crash c p n s durable recorded rng now cfg n')
  have n: "node_inv ops hard V (cl_hist c) p n" using crash by (simp add: cluster_inv_def)
  have l: "latest ((cl_hist c)(p := insert (hard s) (cl_hist c p))) (cfg_ID cfg) (hard s)"
    using latest_insert [OF elect_invD(5) [OF n] crash.hyps(2)] crash.hyps(4) by simp
  note n' = New_inv [OF crash.hyps(3) l]
  show ?case using n' crash.hyps(4) by (intro put_node_inv crash) simp_all
qed

lemma cluster_run_inv: "cluster_run ops hard V c \<Longrightarrow> cluster_inv ops hard V c"
proof (induction rule: cluster_run.induct)
  case start
  show ?case by (simp add: cluster_inv_def empty_cluster_def)
qed (rule cluster_step_inv)

lemma one_leader:
  assumes "cluster_run ops hard V c" "(t, p) \<in> cl_led c" "(t, q) \<in> cl_led c"
  shows "p = q"
proof -
  note inv = cluster_run_inv [OF assms(1)]
  have e: "p \<noteq> []" "q \<noteq> []" "elected (cl_hist c) V p t" "elected (cl_hist c) V q t"
    using inv assms(2,3) unfolding cluster_inv_def by blast+
  obtain a l A where A: "quorum_set electionQuorum a l V A" "\<forall>v\<in>A. hs_of t p \<in> cl_hist c v"
    using e(3) unfolding elected_def by blast
  obtain a' l' B where B: "quorum_set electionQuorum a' l' V B" "\<forall>v\<in>B. hs_of t q \<in> cl_hist c v"
    using e(4) unfolding elected_def by blast
  obtain v where "hs_of t p \<in> cl_hist c v" "hs_of t q \<in> cl_hist c v"
    using quorum_set_election_meet [OF A(1) B(1)] A(2) B(2) by blast
  then have "hs_le (hs_of t p) (hs_of t q) \<or> hs_le (hs_of t q) (hs_of t p)"
    by (rule cluster_history [OF inv])
  then show ?thesis using e by auto
qed

lemma one_vote:
  assumes "cluster_run ops hard V c"
    and "(v, OReply \<lparr>rc_from = p, rc_req = QVote a\<rparr> (PVote r) None) \<in> cl_net c" "rvr_VoteGranted r" "\<not> rv_PreVote a"
    and "(v, OReply \<lparr>rc_from = q, rc_req = QVote b\<rparr> (PVote s) None) \<in> cl_net c" "rvr_VoteGranted s" "\<not> rv_PreVote b"
    and "rv_Term a = rv_Term b"
  shows "p = q"
proof -
  note inv = cluster_run_inv [OF assms(1)]
  have "effect_ok (cl_hist c) v (OReply \<lparr>rc_from = p, rc_req = QVote a\<rparr> (PVote r) None)"
    "effect_ok (cl_hist c) v (OReply \<lparr>rc_from = q, rc_req = QVote b\<rparr> (PVote s) None)"
    using cluster_net(2) [OF inv assms(2)] cluster_net(2) [OF inv assms(5)] assms(3,4,6,7) by (simp_all add: vote_out_def)
  then have h: "p \<noteq> []" "q \<noteq> []" "hs_of (rv_Term a) p \<in> cl_hist c v" "hs_of (rv_Term a) q \<in> cl_hist c v"
    using assms(8) by (auto simp: grant_ok_def)
  then have "hs_le (hs_of (rv_Term a) p) (hs_of (rv_Term a) q) \<or> hs_le (hs_of (rv_Term a) q) (hs_of (rv_Term a) p)"
    by (intro cluster_history [OF inv])
  then show ?thesis using h by auto
qed

end

end
