(* ===== verification/Election_Properties.thy ===== *)
theory Election_Properties
  imports Election_Safety
begin

text \<open>
  Election safety as properties of the group, with a run of two nodes on the in-memory
  store in which one asks for a vote, the other grants it, and the first leads.
\<close>

section \<open>A run that elects a leader\<close>

abbreviation voter :: "NodeID \<Rightarrow> PeerConfig" where
  "voter i \<equiv> \<lparr>pc_ID = i, pc_Voter = True, pc_Witness = False\<rparr>"

definition pair_config :: "NodeID \<Rightarrow> NodeID \<Rightarrow> Config" where
  "pair_config i j = DefaultConfig\<lparr>cfg_ID := i, cfg_Peers := [voter j]\<rparr>"

lemma pair_config_fields [simp]:
  "cfg_ID (pair_config i j) = i" "cfg_Peers (pair_config i j) = [voter j]" "cfg_Voter (pair_config i j)"
  "\<not> cfg_Witness (pair_config i j)"
  by (simp_all add: pair_config_def DefaultConfig_def)

lemma pair_config_valid: "i \<noteq> [] \<Longrightarrow> Validate True True True (pair_config i j) = None"
  by (simp add: Validate_def pair_config_def DefaultConfig_def config_voters_def DefaultProposalQueueSize_def)

text \<open>A node that has just started on an empty store.\<close>

definition blank :: "NodeID \<Rightarrow> NodeID \<Rightarrow> MemStore node \<Rightarrow> bool" where
  "blank i j n \<longleftrightarrow> nd_cfg n = pair_config i j \<and> nd_state n = Follower \<and> nd_currentTerm n = 0 \<and> nd_votedFor n = []
    \<and> nd_log n = empty_log (newStorageWriter mem_storage mem_New) \<and> nd_deferredWrites n = []
    \<and> nd_completedWriteSeq n = 0 \<and> nd_jointOld n = None \<and> nd_commitIndex n = 0 \<and> nd_recordedCommit n = 0"

lemma empty_newRaftLog:
  "newRaftLog (newStorageWriter mem_storage mem_New) = Ok (empty_log (newStorageWriter mem_storage mem_New))"
  by (simp add: newRaftLog_def load_snapshot_part_def empty_log_def newStorageWriter_def rl_storage_def mem_storage_def mem_New_def
      mem_LoadSnapshot_def mem_FirstIndex_def mem_LastIndex_def snap_term_def)

lemma empty_LoadHardState: "st_LoadHardState mem_storage mem_New = Ok \<lparr>hs_CurrentTerm = 0, hs_VotedFor = []\<rparr>"
  by (simp add: mem_storage_def mem_New_def mem_LoadHardState_def)

lemma boot_blank:
  assumes "i \<noteq> []" "j \<noteq> i"
  shows "\<exists>n. New mem_storage mem_New None 0 (\<lambda>_. 0) (0, 0) (pair_config i j) = Ok n \<and> blank i j n"
proof -
  let ?rl = "empty_log (newStorageWriter mem_storage mem_New)"
  define f where "f = (fresh_node (pair_config i j) \<lparr>hs_CurrentTerm = 0, hs_VotedFor = []\<rparr> ?rl (\<lambda>_. 0) (0, 0))
    \<lparr>nd_recordedCommit := 0\<rparr>"
  have f: "nd_cfg f = pair_config i j" "nd_log f = ?rl" "nd_lastApplied f = 0" "nd_membershipWitness f = False"
    "nd_state f = Follower" "nd_currentTerm f = 0" "nd_votedFor f = []" "nd_deferredWrites f = []"
    "nd_completedWriteSeq f = 0" "nd_commitIndex f = 0" "nd_recordedCommit f = 0"
    by (cases "ticks (pair_config i j)"; simp add: f_def fresh_node_def empty_log_def snap_index_def)+
  have rl: "rl_first ?rl = 0" "\<not> rl_hasSnapMembership ?rl" "\<not> rl_hasSnapClientTableCap ?rl" "snap_index ?rl = 0"
    "?rl\<lparr>rl_snapMembership := no_membership\<rparr> = ?rl"
    by (simp_all add: empty_log_def snap_index_def)
  define b where "b = recover_base (recover_applied 0 f)"
  have "b = f\<lparr>nd_baseMembership := no_membership\<lparr>ms_members := [voter i, voter j]\<rparr>, nd_log := ?rl\<rparr>"
    using f rl by (simp add: b_def recover_base_def recover_applied_def withSelf_def Let_def)
  then have b: "nd_baseMembership b = no_membership\<lparr>ms_members := [voter i, voter j]\<rparr>" "nd_cfg b = pair_config i j"
    "nd_log b = ?rl" "nd_state b = Follower" "nd_currentTerm b = 0" "nd_votedFor b = []" "nd_deferredWrites b = []"
    "nd_completedWriteSeq b = 0" "nd_commitIndex b = 0" "nd_recordedCommit b = 0"
    using f by simp_all
  define m where "m = fst (rebuildMembership b)"
  have cfg: "(pair_config i j)\<lparr>cfg_Peers := [voter j], cfg_Voter := True\<rparr> = pair_config i j"
    by (simp add: pair_config_def DefaultConfig_def)
  have r: "rebuildMembership b = (m, Ok ())" and m: "blank i j m" "\<not> nd_membershipWitness m"
    using b rl assms cfg
    by (simp_all add: m_def rebuildMembership_def restoreMembership_def no_membership_def blank_def Let_def)
  have "New mem_storage mem_New None 0 (\<lambda>_. 0) (0, 0) (pair_config i j)
      = Ok (resetElectionTimeout (m\<lparr>nd_durableTerm := nd_currentTerm m\<rparr>))"
    using assms m r unfolding New_def pair_config_valid [OF assms(1)] empty_newRaftLog empty_LoadHardState
    by (simp add: Let_def f_def [symmetric] durableAppliedIndex_def b_def [symmetric] recover_table_def blank_def)
  moreover have "blank i j (resetElectionTimeout (m\<lparr>nd_durableTerm := nd_currentTerm m\<rparr>))"
    using m by (simp add: blank_def resetElectionTimeout_def Let_def)
  ultimately show ?thesis by blast
qed

text \<open>One hard state is queued; the writer writes it and the node sees the completion.\<close>

abbreviation blank_log :: "MemStore raftLog" where
  "blank_log \<equiv> empty_log (newStorageWriter mem_storage mem_New)"

definition queued_log :: "HardState \<Rightarrow> MemStore raftLog" where
  "queued_log h = fst (log_saveHardState blank_log h)"

definition written :: "HardState \<Rightarrow> MemStore storageWriter" where
  "written h = (case loop_execute (loop_take (rl_w (queued_log h))) of Ok w \<Rightarrow> w | _ \<Rightarrow> newStorageWriter mem_storage mem_New)"

lemma written_Ok: "loop_execute (loop_take (rl_w (queued_log h))) = Ok (written h)"
  by (simp add: written_def queued_log_def log_saveHardState_def nextWriteSeq_def empty_log_def newStorageWriter_def enqueue_def
      loop_take_def writer_take_def hs_op_def loop_execute_def writer_execute_def writer_run_def mem_storage_def
      mem_SaveHardState_def Let_def)

lemma written_fields: "sw_done (written h) = [\<lparr>wd_seq = 1, wd_kind = writeHardState, wd_durableAfter = 0, wd_err = None\<rparr>]"
  "sw_ops (written h) = mem_storage"
  by (simp_all add: written_def queued_log_def log_saveHardState_def nextWriteSeq_def empty_log_def newStorageWriter_def enqueue_def
      loop_take_def writer_take_def hs_op_def loop_execute_def writer_execute_def writer_run_def mem_storage_def
      mem_SaveHardState_def completion_def Let_def)

definition flushed :: "MemStore node \<Rightarrow> MemStore node" where
  "flushed n = step_event EvWriteCompletions
    (set_writer (written \<lparr>hs_CurrentTerm = nd_currentTerm n, hs_VotedFor = nd_votedFor n\<rparr>) n)"

definition settled_log :: "HardState \<Rightarrow> MemStore raftLog" where
  "settled_log h = stabilize ((queued_log h)\<lparr>rl_w := (written h)\<lparr>sw_done := []\<rparr>\<rparr>)
    \<lparr>wd_seq = 1, wd_kind = writeHardState, wd_durableAfter = 0, wd_err = None\<rparr>"

lemma settled_log_fields: "stableIndex (settled_log h) = 0" "rl_w (settled_log h) = (written h)\<lparr>sw_done := []\<rparr>"
  by (simp_all add: settled_log_def stabilize_def stableIndex_def queued_log_def log_saveHardState_def nextWriteSeq_def
      empty_log_def unstableFirst_def snap_index_def split: prod.split)

lemma flushed_eq:
  assumes "nd_log n = queued_log \<lparr>hs_CurrentTerm = nd_currentTerm n, hs_VotedFor = nd_votedFor n\<rparr>" (is "_ = queued_log ?h")
    and "nd_completedWriteSeq n = 0" "nd_unsafeTermSeq n = 1"
  shows "flushed n = onDurableAdvanced (runDeferredWrites 1 (n\<lparr>nd_log := settled_log ?h, nd_completedWriteSeq := 1,
    nd_unsafeTermSeq := 0, nd_durableTerm := nd_currentTerm n\<rparr>))"
  using assms by (simp add: flushed_def step_event_def handleWriteCompletions_def set_writer_def takeDone_def written_fields
      complete_write_def settled_log_def Let_def)

lemma idle_onDurableAdvanced:
  assumes "nd_log n = settled_log h" "nd_commitIndex n = 0" "nd_recordedCommit n = 0" "nd_state n \<noteq> Leader"
  shows "onDurableAdvanced n = n"
  using assms by (simp add: onDurableAdvanced_def notifyApply_def maybeRecordCommit_def settled_log_fields Let_def
      commitRecordInterval_def)

lemma blank_saveTerm:
  assumes "blank i j n"
  shows "nd_log (fst (saveTerm t v n)) = queued_log \<lparr>hs_CurrentTerm = t, hs_VotedFor = v\<rparr>"
    "snd (saveTerm t v n) = 1" "nd_unsafeTermSeq (fst (saveTerm t v n)) = 1"
    "nd_jointOld (fst (saveTerm t v n)) = None" "nd_recordedCommit (fst (saveTerm t v n)) = 0"
  using assms by (simp_all add: saveTerm_def blank_def queued_log_def log_saveHardState_def nextWriteSeq_def empty_log_def
      Let_def)

text \<open>The first node is told to stand for election.\<close>

abbreviation stand :: "NodeID \<Rightarrow> event" where
  "stand j \<equiv> EvCall (QTimeoutNow \<lparr>tn_Term = 0, tn_LeaderID = j\<rparr>)
    \<lparr>rc_from = j, rc_req = QTimeoutNow \<lparr>tn_Term = 0, tn_LeaderID = j\<rparr>\<rparr>"

abbreviation first_request :: "NodeID \<Rightarrow> RequestVoteRequest" where
  "first_request i \<equiv> \<lparr>rv_Term = 1, rv_CandidateID = i, rv_LastLogIndex = 0, rv_LastLogTerm = 0, rv_PreVote = False\<rparr>"

lemma stand_fields:
  assumes "blank i j n"
  defines "m \<equiv> step_event (stand j) n"
  shows "nd_cfg m = pair_config i j" "nd_state m = Candidate" "nd_currentTerm m = 1" "nd_votedFor m = i"
    "nd_log m = queued_log \<lparr>hs_CurrentTerm = 1, hs_VotedFor = i\<rparr>" "nd_completedWriteSeq m = 0" "nd_unsafeTermSeq m = 1"
    "nd_jointOld m = None" "nd_commitIndex m = 0" "nd_recordedCommit m = 0" "nd_receivedVoteSet m = Some []"
    "nd_deferredWrites m = [\<lparr>dw_seq = 1, dw_work = DCandidate 1\<rparr>,
      \<lparr>dw_seq = 1, dw_work = DReply \<lparr>rc_from = j, rc_req = QTimeoutNow \<lparr>tn_Term = 0, tn_LeaderID = j\<rparr>\<rparr> (PTimeoutNow 1) None\<rparr>]"
proof -
  have n: "nd_currentTerm n = 0" "nd_cfg n = pair_config i j" "nd_completedWriteSeq n = 0" "nd_commitIndex n = 0"
    "nd_deferredWrites n = []"
    using assms(1) by (simp_all add: blank_def)
  define k where "k = fst (saveTerm 1 i n)"
  have sv: "saveTerm 1 i n = (k, 1)" using blank_saveTerm(2) [OF assms(1), of 1 i] by (simp add: k_def prod_eq_iff)
  have k: "nd_cfg k = pair_config i j" "nd_currentTerm k = 1" "nd_votedFor k = i"
    "nd_log k = queued_log \<lparr>hs_CurrentTerm = 1, hs_VotedFor = i\<rparr>" "nd_completedWriteSeq k = 0" "nd_unsafeTermSeq k = 1"
    "nd_jointOld k = None" "nd_commitIndex k = 0" "nd_recordedCommit k = 0" "nd_deferredWrites k = []"
    using n blank_saveTerm [OF assms(1), of 1 i] by (simp_all add: k_def)
  define c where "c = becomeCandidate n"
  have c: "nd_cfg c = pair_config i j" "nd_state c = Candidate" "nd_currentTerm c = 1" "nd_votedFor c = i"
    "nd_log c = queued_log \<lparr>hs_CurrentTerm = 1, hs_VotedFor = i\<rparr>" "nd_completedWriteSeq c = 0" "nd_unsafeTermSeq c = 1"
    "nd_jointOld c = None" "nd_commitIndex c = 0" "nd_recordedCommit c = 0" "nd_receivedVoteSet c = Some []"
    "nd_deferredWrites c = [\<lparr>dw_seq = 1, dw_work = DCandidate 1\<rparr>]"
    using n k sv by (simp_all add: c_def becomeCandidate_def setLeaderID_def setState_def resetElectionTimeout_def
        afterWrite_with_def Let_def)
  have "m = c\<lparr>nd_deferredWrites := nd_deferredWrites c @ [\<lparr>dw_seq = 1,
      dw_work = DReply \<lparr>rc_from = j, rc_req = QTimeoutNow \<lparr>tn_Term = 0, tn_LeaderID = j\<rparr>\<rparr> (PTimeoutNow 1) None\<rparr>]\<rparr>"
    using n c by (simp add: m_def step_event_def handleCall_def handleTimeoutNow_def c_def [symmetric] replyWhenDurable_def
        sendGate_def afterWrite_with_def Let_def)
  then show "nd_cfg m = pair_config i j" "nd_state m = Candidate" "nd_currentTerm m = 1" "nd_votedFor m = i"
    "nd_log m = queued_log \<lparr>hs_CurrentTerm = 1, hs_VotedFor = i\<rparr>" "nd_completedWriteSeq m = 0" "nd_unsafeTermSeq m = 1"
    "nd_jointOld m = None" "nd_commitIndex m = 0" "nd_recordedCommit m = 0" "nd_receivedVoteSet m = Some []"
    "nd_deferredWrites m = [\<lparr>dw_seq = 1, dw_work = DCandidate 1\<rparr>,
      \<lparr>dw_seq = 1, dw_work = DReply \<lparr>rc_from = j, rc_req = QTimeoutNow \<lparr>tn_Term = 0, tn_LeaderID = j\<rparr>\<rparr> (PTimeoutNow 1) None\<rparr>]"
    using c by simp_all
qed

lemma stand_flushed:
  assumes "blank i j n" "j \<noteq> i"
  defines "m \<equiv> flushed (step_event (stand j) n)"
  shows "nd_cfg m = pair_config i j" "nd_state m = Candidate" "nd_currentTerm m = 1" "nd_jointOld m = None"
    "nd_receivedVoteSet m = Some []" "OVote j (first_request i) \<in> set (nd_out m)"
proof -
  note s = stand_fields [OF assms(1)]
  let ?s = "step_event (stand j) n" and ?h = "\<lparr>hs_CurrentTerm = 1, hs_VotedFor = i\<rparr>"
  have l: "lastLogIndex (settled_log ?h) = 0" "lastLogTerm (settled_log ?h) = 0"
    by (simp_all add: settled_log_def stabilize_def queued_log_def log_saveHardState_def nextWriteSeq_def empty_log_def
        lastLogIndex_def lastLogTerm_def snap_index_def split: prod.split)
  define k where "k = ?s\<lparr>nd_log := settled_log ?h, nd_completedWriteSeq := 1, nd_unsafeTermSeq := 0, nd_durableTerm := 1,
    nd_deferredWrites := []\<rparr>"
  have k: "nd_cfg k = pair_config i j" "nd_state k = Candidate" "nd_currentTerm k = 1" "nd_jointOld k = None"
    "nd_receivedVoteSet k = Some []" "nd_log k = settled_log ?h" "nd_commitIndex k = 0" "nd_recordedCommit k = 0"
    "nd_deferredWrites k = []"
    using s by (simp_all add: k_def)
  have "runDeferredWrites 1 (?s\<lparr>nd_log := settled_log ?h, nd_completedWriteSeq := 1, nd_unsafeTermSeq := 0,
      nd_durableTerm := 1\<rparr>) = emit (OReply \<lparr>rc_from = j, rc_req = QTimeoutNow \<lparr>tn_Term = 0, tn_LeaderID = j\<rparr>\<rparr>
        (PTimeoutNow 1) None) (emit (OVote j (first_request i)) k)"
    using s k l by (simp add: runDeferredWrites_def run_released_def k_def [symmetric] isSingleVoter_def
        broadcastRequestVote_def vote_request_def Let_def) (simp add: emit_def k_def)
  moreover have "flushed ?s = onDurableAdvanced (runDeferredWrites 1 (?s\<lparr>nd_log := settled_log ?h,
      nd_completedWriteSeq := 1, nd_unsafeTermSeq := 0, nd_durableTerm := 1\<rparr>))"
    using flushed_eq [of ?s] s by simp
  ultimately have "m = emit (OReply \<lparr>rc_from = j, rc_req = QTimeoutNow \<lparr>tn_Term = 0, tn_LeaderID = j\<rparr>\<rparr>
        (PTimeoutNow 1) None) (emit (OVote j (first_request i)) k)"
    using k unfolding m_def by (simp add: idle_onDurableAdvanced emit_def)
  then show "nd_cfg m = pair_config i j" "nd_state m = Candidate" "nd_currentTerm m = 1" "nd_jointOld m = None"
    "nd_receivedVoteSet m = Some []" "OVote j (first_request i) \<in> set (nd_out m)"
    using k by (simp_all add: emit_def)
qed

text \<open>The second node grants its vote.\<close>

abbreviation ask :: "NodeID \<Rightarrow> respCh" where
  "ask i \<equiv> \<lparr>rc_from = i, rc_req = QVote (first_request i)\<rparr>"

definition durables :: "'st node \<Rightarrow> 'st raftLog \<times> Index \<times> Index \<times> deferredWrite list \<times> Config \<times> PeerConfig list option" where
  "durables n = (nd_log n, nd_recordedCommit n, nd_commitIndex n, nd_deferredWrites n, nd_cfg n, nd_jointOld n)"

lemma durables_let:
  "durables m = c \<Longrightarrow> (\<And>x. durables x = c \<Longrightarrow> durables (f x) = c) \<Longrightarrow> durables (let x = m in f x) = c"
  "(\<And>x. durables (g x) = c) \<Longrightarrow> durables (let x = v in g x) = c"
  by simp_all

lemma durables_applyFollowerTransition: "durables (applyFollowerTransition l n) = durables n"
  unfolding applyFollowerTransition_def
  by (rule durables_let(1) | rule durables_let(2) | simp add: durables_def setLeaderID_def setState_def reject_pending_def
      drainPendingReads_def stopHBPumps_def resetElectionTimeout_def Let_def)+

lemma grant_flushed:
  assumes "blank j i n" "i \<noteq> []"
  defines "g \<equiv> step_event (EvCall (QVote (first_request i)) (ask i)) n"
  shows "OReply (ask i) (PVote \<lparr>rvr_Term = 1, rvr_VoteGranted = True\<rparr>) None \<in> set (nd_out (flushed g))"
    "nd_log g = queued_log \<lparr>hs_CurrentTerm = nd_currentTerm g, hs_VotedFor = nd_votedFor g\<rparr>"
    "nd_cfg g = pair_config j i" "nd_jointOld g = None" "nd_cfg (flushed g) = pair_config j i" "nd_jointOld (flushed g) = None"
proof -
  have n: "nd_currentTerm n = 0" "nd_cfg n = pair_config j i" "nd_completedWriteSeq n = 0" "nd_commitIndex n = 0"
    "nd_deferredWrites n = []" "nd_log n = blank_log"
    using assms(1) by (simp_all add: blank_def)
  let ?h = "\<lparr>hs_CurrentTerm = 1, hs_VotedFor = i\<rparr>"
  define k where "k = applyFollowerTransition [] (fst (saveTerm 1 i n))"
  have q: "quiet ((fst (saveTerm 1 i n))\<lparr>nd_state := Follower\<rparr>) k" unfolding k_def by (rule applyFollowerTransition_from)
  have logs: "nd_log k = queued_log ?h" "nd_recordedCommit k = 0" "nd_commitIndex k = 0" "nd_deferredWrites k = []"
    "nd_cfg k = pair_config j i" "nd_jointOld k = None"
    using blank_saveTerm [OF assms(1), of 1 i] n durables_applyFollowerTransition [of "[]" "fst (saveTerm 1 i n)"]
    by (simp_all add: k_def durables_def)
  have k: "nd_currentTerm k = 1" "nd_votedFor k = i" "nd_unsafeTermSeq k = 1" "nd_completedWriteSeq k = 0" "nd_state k = Follower"
    using q blank_saveTerm [OF assms(1), of 1 i] n by (auto simp: quiet_def)
  have up: "isUpToDate blank_log 0 0"
    by (simp add: isUpToDate_def empty_log_def lastLogIndex_def lastLogTerm_def snap_index_def)
  have g: "g = k\<lparr>nd_deferredWrites := [\<lparr>dw_seq = 1, dw_work = DReply (ask i)
    (PVote \<lparr>rvr_Term = 1, rvr_VoteGranted = True\<rparr>) None\<rparr>]\<rparr>"
    using n k up logs by (simp add: step_event_def handleCall_def handleRequestVote_def k_def [symmetric, simplified]
        replyWhenDurable_def sendGate_def afterWrite_with_def vote_response_def g_def Let_def)
  have "flushed g = onDurableAdvanced (runDeferredWrites 1 (g\<lparr>nd_log := settled_log ?h, nd_completedWriteSeq := 1,
      nd_unsafeTermSeq := 0, nd_durableTerm := 1\<rparr>))"
    using flushed_eq [of g] k logs by (simp add: g)
  also have "runDeferredWrites 1 (g\<lparr>nd_log := settled_log ?h, nd_completedWriteSeq := 1, nd_unsafeTermSeq := 0,
      nd_durableTerm := 1\<rparr>) = emit (OReply (ask i) (PVote \<lparr>rvr_Term = 1, rvr_VoteGranted = True\<rparr>) None)
        (g\<lparr>nd_log := settled_log ?h, nd_completedWriteSeq := 1, nd_unsafeTermSeq := 0, nd_durableTerm := 1,
          nd_deferredWrites := []\<rparr>)" (is "_ = ?e")
    by (simp add: runDeferredWrites_def run_released_def g emit_def Let_def)
  also have "onDurableAdvanced ?e = ?e"
    using k logs by (intro idle_onDurableAdvanced) (simp_all add: emit_def g)
  finally show "OReply (ask i) (PVote \<lparr>rvr_Term = 1, rvr_VoteGranted = True\<rparr>) None \<in> set (nd_out (flushed g))"
    "nd_cfg (flushed g) = pair_config j i" "nd_jointOld (flushed g) = None"
    using logs by (simp_all add: emit_def g)
  show "nd_log g = queued_log \<lparr>hs_CurrentTerm = nd_currentTerm g, hs_VotedFor = nd_votedFor g\<rparr>"
    "nd_cfg g = pair_config j i" "nd_jointOld g = None"
    using logs k by (simp_all add: g)
qed

text \<open>The vote counted, the first node leads.\<close>

lemma state_sets [simp]:
  "nd_state (emit e n) = nd_state n" "nd_state (set_nextIndex p i n) = nd_state n"
  "nd_state (set_matchIndex p i n) = nd_state n" "nd_state (startHBPumps n) = nd_state n"
  "nd_state (heartbeatPeer p n) = nd_state n" "nd_state (notifyApply n) = nd_state n"
  "nd_state (maybeRecordCommit n) = nd_state n" "nd_state (setCommitIndex i n) = nd_state n"
  "nd_state (resolve_batch n) = nd_state n"
  by (simp_all add: emit_def set_nextIndex_def set_matchIndex_def startHBPumps_def heartbeatPeer_def
      notifyApply_def maybeRecordCommit_def setCommitIndex_def resolve_batch_def Let_def)

lemma state_fold: "(\<And>x m. nd_state (f x m) = nd_state m) \<Longrightarrow> nd_state (fold f xs n) = nd_state n"
  by (induction xs arbitrary: n) simp_all

lemma state_broadcasts [simp]:
  "nd_state (broadcastReadBarrier n) = nd_state n" "nd_state (broadcastHeartbeat n) = nd_state n"
  by (simp_all add: broadcastReadBarrier_def broadcastHeartbeat_def state_fold Let_def)

lemma state_read_batch [simp]:
  fixes n m :: "'st node"
  shows "nd_state (startReadBatch n) = nd_state n" "nd_state (confirmReadBatch m) = nd_state m"
proof (induction n and m rule: startReadBatch_confirmReadBatch.induct)
  case (1 n)
  then show ?case by (subst startReadBatch.simps) (simp add: Let_def)
next
  case (2 m)
  then show ?case by (subst confirmReadBatch.simps) (simp add: Let_def)
qed

lemma state_maybeAdvanceCommit [simp]: "nd_state (maybeAdvanceCommit n) = nd_state n"
  by (simp add: maybeAdvanceCommit_def Let_def split: option.split)

lemma leads_let:
  "nd_state m = Leader \<and> nd_jointOld m = None \<Longrightarrow>
    (\<And>x. nd_state x = Leader \<and> nd_jointOld x = None \<Longrightarrow> nd_state (f x) = Leader) \<Longrightarrow> nd_state (let x = m in f x) = Leader"
  "(\<And>x. nd_state (g x) = Leader) \<Longrightarrow> nd_state (let x = v in g x) = Leader"
  "(\<And>x y. nd_state (h x y) = Leader) \<Longrightarrow> nd_state (case w of (x, y) \<Rightarrow> h x y) = Leader"
  by (simp_all split: prod.split)

lemma becomeLeader_leads:
  assumes "nd_jointOld n = None" shows "nd_state (becomeLeader n) = Leader"
proof -
  have j: "nd_jointOld m = nd_jointOld k" if "membership_of m = membership_of k" for m k :: "'a node"
    using that by (simp add: membership_of_def)
  note same = j [OF membership_fold] j [OF membership_sets(4)] j [OF membership_broadcasts(2)]
    j [OF membership_maybeAdvanceCommit]
  show ?thesis
    unfolding becomeLeader_def setLeaderID_def setState_def
    by (rule leads_let(1) | rule leads_let(3) | simp add: state_fold same assms | rule leads_let(2))+
qed

lemma count_leads:
  assumes "nd_cfg n = pair_config i j" "nd_state n = Candidate" "nd_currentTerm n = 1" "nd_jointOld n = None"
    "nd_receivedVoteSet n = Some []" "j \<noteq> i"
  defines "m \<equiv> step_event (EvVoteResult \<lparr>vr_peerID = j, vr_term = 1, vr_voteGranted = True, vr_electionTerm = 1,
      vr_preVote = False\<rparr>) n"
  shows "nd_state m = Leader" "nd_currentTerm m = 1" "membership_of m = membership_of n"
proof -
  let ?k = "set_receivedVote j n"
  have k: "nd_cfg ?k = pair_config i j" "nd_jointOld ?k = None" "gm_get False (nd_receivedVoteSet ?k) j"
    "nd_currentTerm ?k = 1" "membership_of ?k = membership_of n"
    using assms(1-5) by (simp_all add: set_receivedVote_def membership_of_def gm_put_def gm_get_def)
  then have "electionWon ?k"
    using quorumNeeded_bounds [of 2 electionQuorum "nd_commitQuorumApplied ?k" "nd_commitQuorumLatest ?k"]
    by (simp add: electionWon_def hasQuorumAck_def)
  then have m: "m = becomeLeader ?k" using assms(2,3) by (simp add: m_def step_event_def handleVoteResult_def Let_def)
  have q: "quiet (?k\<lparr>nd_state := Leader\<rparr>) m" unfolding m by (rule becomeLeader_from)
  show "nd_currentTerm m = 1" using q k by (simp add: quiet_def)
  show "membership_of m = membership_of n" unfolding m using membership_becomeLeader k by metis
  show "nd_state m = Leader" unfolding m using k(2) by (rule becomeLeader_leads)
qed

lemma pair_fixed:
  "nd_cfg n = pair_config i j \<Longrightarrow> nd_jointOld n = None \<Longrightarrow> i \<noteq> j \<Longrightarrow> voters_fixed {i, j} n"
  by (simp add: voters_fixed_def Members_def)

lemma put_node_fields [simp]:
  "cl_nodes (put_node hard p n c) = (cl_nodes c)(p \<mapsto> n)" "cl_net (put_node hard p n c) = cl_net c \<union> Pair p ` set (nd_out n)"
  "cl_led (put_node hard p n c) = cl_led c \<union> (if nd_state n = Leader then {(nd_currentTerm n, p)} else {})"
  by (simp_all add: put_node_def)

text \<open>The writer's two steps and the completion, as steps of the group.\<close>

lemma run_flush:
  assumes "cluster_run mem_storage mem_hs V c" "cl_nodes c p = Some n" "voters_fixed V (flushed n)"
    and "nd_log n = queued_log \<lparr>hs_CurrentTerm = nd_currentTerm n, hs_VotedFor = nd_votedFor n\<rparr>"
  shows "\<exists>c'. cluster_run mem_storage mem_hs V c' \<and> cl_nodes c' = (cl_nodes c)(p \<mapsto> flushed n)
    \<and> cl_net c \<union> Pair p ` set (nd_out (flushed n)) \<subseteq> cl_net c' \<and> cl_led c \<subseteq> cl_led c'"
proof -
  let ?h = "\<lparr>hs_CurrentTerm = nd_currentTerm n, hs_VotedFor = nd_votedFor n\<rparr>"
  let ?a = "set_writer (loop_take (rl_w (nd_log n))) n" and ?b = "set_writer (written ?h) n"
  let ?ca = "put_node mem_hs p ?a c"
  let ?cb = "put_node mem_hs p ?b ?ca"
  let ?cc = "put_node mem_hs p (flushed n) ?cb"
  have b: "set_writer (written ?h) ?a = ?b" by (simp add: set_writer_def)
  have ex: "loop_execute (rl_w (nd_log ?a)) = Ok (written ?h)" using written_Ok [of ?h] assms(4) by (simp add: set_writer_def)
  have 1: "cluster_run mem_storage mem_hs V ?ca"
    by (rule cluster_run.step [OF assms(1) cluster_step.take [OF assms(2)]])
  have "cluster_step mem_storage mem_hs V ?ca ?cb"
    using cluster_step.execute [of ?ca p ?a, OF _ ex, where hard = mem_hs and ops = mem_storage and V = V] b by simp
  then have 2: "cluster_run mem_storage mem_hs V ?cb" by (rule cluster_run.step [OF 1])
  have "cluster_step mem_storage mem_hs V ?cb (put_node mem_hs p (step_event EvWriteCompletions ?b) ?cb)"
    by (rule cluster_step.event) (use assms(3) in \<open>simp_all add: deliverable_def flushed_def\<close>)
  then have "cluster_step mem_storage mem_hs V ?cb ?cc" by (simp add: flushed_def)
  then have "cluster_run mem_storage mem_hs V ?cc" by (rule cluster_run.step [OF 2])
  then show ?thesis by (intro exI [of _ ?cc]) auto
qed

lemma run_elects:
  "\<exists>c. cluster_run mem_storage mem_hs {[1], [2]} c \<and> (1, [1]) \<in> cl_led c
    \<and> ([2], OReply (ask [1]) (PVote \<lparr>rvr_Term = 1, rvr_VoteGranted = True\<rparr>) None) \<in> cl_net c"
proof -
  let ?V = "{[1], [2]} :: NodeID set"
  obtain a b where a: "New mem_storage mem_New None 0 (\<lambda>_. 0) (0, 0) (pair_config [1] [2]) = Ok a" "blank [1] [2] a"
    and b: "New mem_storage mem_New None 0 (\<lambda>_. 0) (0, 0) (pair_config [2] [1]) = Ok b" "blank [2] [1] b"
    using boot_blank [of "[1]" "[2]"] boot_blank [of "[2]" "[1]"] by auto
  have fix1: "voters_fixed ?V n" if "nd_cfg n = pair_config [1] [2]" "nd_jointOld n = None" for n :: "MemStore node"
    using pair_fixed [OF that] by simp
  have fix2: "voters_fixed ?V n" if "nd_cfg n = pair_config [2] [1]" "nd_jointOld n = None" for n :: "MemStore node"
    using pair_fixed [OF that] by (simp add: insert_commute)
  let ?run = "cluster_run mem_storage mem_hs ?V"
  let ?c1 = "put_node mem_hs [1] a empty_cluster"
  let ?c2 = "put_node mem_hs [2] b ?c1"
  let ?s = "step_event (stand [2]) a"
  let ?c3 = "put_node mem_hs [1] ?s ?c2"
  have "?run ?c1"
    by (rule cluster_run.step [OF cluster_run.start], rule cluster_step.boot [OF _ a(1)])
      (use a(2) in \<open>simp_all add: empty_cluster_def blank_def fix1\<close>)
  then have "?run ?c2"
    by (rule cluster_run.step, intro cluster_step.boot [OF _ b(1)])
      (use b(2) in \<open>simp_all add: empty_cluster_def blank_def fix2\<close>)
  then have "?run ?c3"
    by (rule cluster_run.step, intro cluster_step.event)
      (use stand_fields [OF a(2)] in \<open>simp_all add: deliverable_def fix1\<close>)
  then obtain c4 where c4: "?run c4" "cl_nodes c4 = (cl_nodes ?c3)([1] \<mapsto> flushed ?s)"
    "Pair [1] ` set (nd_out (flushed ?s)) \<subseteq> cl_net c4"
    using run_flush [of ?V ?c3 "[1]" ?s] stand_fields [OF a(2)] stand_flushed [OF a(2)] fix1 by auto
  have v: "([1], OVote [2] (first_request [1])) \<in> cl_net c4" using c4(3) stand_flushed(6) [OF a(2)] by auto
  let ?g = "step_event (EvCall (QVote (first_request [1])) (ask [1])) b"
  note g = grant_flushed [OF b(2)]
  let ?c5 = "put_node mem_hs [2] ?g c4"
  have "?run ?c5"
    by (rule cluster_run.step [OF c4(1)], intro cluster_step.event) (use v g fix2 c4(2) in \<open>simp_all add: deliverable_def\<close>)
  then obtain c6 where c6: "?run c6" "cl_nodes c6 = (cl_nodes ?c5)([2] \<mapsto> flushed ?g)"
    "Pair [2] ` set (nd_out (flushed ?g)) \<subseteq> cl_net c6"
    using run_flush [of ?V ?c5 "[2]" ?g] g fix2 by auto
  let ?e = "EvVoteResult \<lparr>vr_peerID = [2], vr_term = 1, vr_voteGranted = True, vr_electionTerm = 1, vr_preVote = False\<rparr>"
  have r: "([2], OReply (ask [1]) (PVote \<lparr>rvr_Term = 1, rvr_VoteGranted = True\<rparr>) None) \<in> cl_net c6" using c6(3) g(1) by auto
  let ?l = "step_event ?e (flushed ?s)"
  note s = stand_flushed [OF a(2)]
  have l: "nd_state ?l = Leader" "nd_currentTerm ?l = 1" "membership_of ?l = membership_of (flushed ?s)"
    using count_leads [OF s(1-5)] by simp_all
  have "deliverable (cl_net c6) [1] ?e" using r unfolding deliverable_def by fastforce
  then have "?run (put_node mem_hs [1] ?l c6)"
    by (intro cluster_run.step [OF c6(1)] cluster_step.event)
      (use l(3) s c6(2) c4(2) fix1 in \<open>simp_all add: membership_of_def\<close>)
  then show ?thesis using l r by (intro exI [of _ "put_node mem_hs [1] ?l c6"]) simp
qed

section \<open>The properties\<close>

text \<open>C1.  Election safety.  In every run of a group with a fixed set of voters
  \<open>V\<close> - nodes start, handle any event the messages sent so far can cause (in any order,
  lost, repeated or delayed), write in the background, fail to write, take snapshots,
  crash losing every write that is not stored and start again from their store, while the
  quorum policies of the nodes change at will - at most one node ever leads in a term.
  The store only has to return the hard state it last accepted.\<close>

theorem election_safety:
  assumes "hard_store ops hard" "cluster_run ops hard V c"
    and "(t, p) \<in> cl_led c" "(t, q) \<in> cl_led c"
  shows "p = q"
  using assms(2-4) by (rule hard_store.one_leader [OF assms(1)])

theorem election_safety_witness:
  "\<exists>c. cluster_run mem_storage mem_hs {[1], [2]} c \<and> {q. (1, q) \<in> cl_led c} = {[1]}"
proof -
  obtain c where c: "cluster_run mem_storage mem_hs {[1], [2]} c" "(1, [1]) \<in> cl_led c" using run_elects by blast
  have "q = [1]" if "(1, q) \<in> cl_led c" for q
    by (rule election_safety [OF mem_hard.hard_store_axioms c(1) that c(2)])
  then have "{q. (1, q) \<in> cl_led c} = {[1]}" using c(2) by blast
  then show ?thesis using c(1) by blast
qed

text \<open>C2.  A voter answers at most one candidate of a term with its vote, over all
  the answers it ever sends, crashes and restarts included: a granted vote is sent only after
  the hard state that records it is in the store.\<close>

theorem one_vote_per_term:
  assumes "hard_store ops hard" "cluster_run ops hard V c"
    and "(v, OReply \<lparr>rc_from = p, rc_req = QVote a\<rparr> (PVote r) None) \<in> cl_net c" "rvr_VoteGranted r" "\<not> rv_PreVote a"
    and "(v, OReply \<lparr>rc_from = q, rc_req = QVote b\<rparr> (PVote s) None) \<in> cl_net c" "rvr_VoteGranted s" "\<not> rv_PreVote b"
    and "rv_Term a = rv_Term b"
  shows "p = q"
  using assms(2-9) by (rule hard_store.one_vote [OF assms(1)])

theorem one_vote_per_term_witness:
  "\<exists>c. cluster_run mem_storage mem_hs {[1], [2]} c
    \<and> ([2], OReply (ask [1]) (PVote \<lparr>rvr_Term = 1, rvr_VoteGranted = True\<rparr>) None) \<in> cl_net c
    \<and> ([2], OReply (ask [2]) (PVote \<lparr>rvr_Term = 1, rvr_VoteGranted = True\<rparr>) None) \<notin> cl_net c"
proof -
  let ?r = "\<lparr>rvr_Term = 1, rvr_VoteGranted = True\<rparr>"
  obtain c where c: "cluster_run mem_storage mem_hs {[1], [2]} c" "([2], OReply (ask [1]) (PVote ?r) None) \<in> cl_net c"
    using run_elects by blast
  have "[1] = [2 :: byte]" if "([2], OReply (ask [2]) (PVote ?r) None) \<in> cl_net c"
    by (rule one_vote_per_term [OF mem_hard.hard_store_axioms c(1), of "[2]" "[1]" "first_request [1]" ?r "[2]" "first_request [2]" ?r])
      (use c(2) that in simp_all)
  then show ?thesis using c by auto
qed

end
