(* ===== verification/Node_Properties.thy ===== *)
theory Node_Properties
  imports Election_Properties
begin

text \<open>
  Properties of single handlers of a node: what no event undoes, when a leader commits, what fits
  into one message, how a snapshot is cut into messages, and what a follower learns from one.
\<close>

section \<open>What no event undoes\<close>

definition later :: "'st node \<Rightarrow> 'st node \<Rightarrow> bool" where
  "later n n' \<longleftrightarrow> hs_le (node_hs n) (node_hs n') \<and> nd_commitIndex n \<le> nd_commitIndex n'"

lemma later_refl [simp]: "later n n"
  by (simp add: later_def)

lemma later_trans [trans]: "later a b \<Longrightarrow> later b c \<Longrightarrow> later a c"
  by (auto simp: later_def intro: hs_le_trans)

lemma quiet_later: "quiet n m \<Longrightarrow> later n m"
  by (simp add: quiet_def later_def node_hs_def)

lemma later_quiet: "later n m \<Longrightarrow> quiet m k \<Longrightarrow> later n k"
  by (blast intro: later_trans quiet_later)

text \<open>The fields that count.\<close>

definition mark :: "'st node \<Rightarrow> Term \<times> NodeID \<times> Index" where
  "mark n = (nd_currentTerm n, nd_votedFor n, nd_commitIndex n)"

lemma mark_later: "mark m = mark n \<Longrightarrow> later n m"
  by (simp add: mark_def later_def node_hs_def)

lemma mark_simps [simp]:
  "mark (emit e n) = mark n" "mark (n\<lparr>nd_deferredWrites := ws\<rparr>) = mark n" "mark (n\<lparr>nd_log := rl\<rparr>) = mark n"
  "mark (n\<lparr>nd_completedWriteSeq := s\<rparr>) = mark n" "mark (n\<lparr>nd_state := st\<rparr>) = mark n"
  "mark (n\<lparr>nd_unsafeTermSeq := s\<rparr>) = mark n" "mark (n\<lparr>nd_durableTerm := t\<rparr>) = mark n"
  "mark (n\<lparr>nd_electionElapsed := k\<rparr>) = mark n" "mark (set_receivedVote q n) = mark n"
  "mark (resetElectionTimeout n) = mark n" "mark (setLeaderID l n) = mark n" "mark (setState st n) = mark n"
  "mark (n\<lparr>nd_nextIndex := a, nd_matchIndex := b, nd_receivedVoteSet := c\<rparr>) = mark n"
  by (simp_all add: mark_def emit_def set_receivedVote_def resetElectionTimeout_def setLeaderID_def setState_def Let_def)

lemma mark_fold: "(\<And>x m. mark (f x m) = mark m) \<Longrightarrow> mark (fold f xs n) = mark n"
  by (induction xs arbitrary: n) simp_all

lemma mark_broadcast [simp]: "mark (broadcastRequestVote b n) = mark n"
  unfolding broadcastRequestVote_def by (rule mark_fold) simp

lemma saveTerm_later: "nd_currentTerm n < t \<or> t = nd_currentTerm n \<and> nd_votedFor n \<in> {[], v} \<Longrightarrow> later n (fst (saveTerm t v n))"
  by (auto simp: saveTerm_def later_def node_hs_def split: prod.splits)

lemma becomeFollower_later: "later n (becomeFollower t l n)"
proof -
  have "later n (if nd_currentTerm n < t then fst (saveTerm t [] n) else n)" using saveTerm_later [of n t "[]"] by simp
  then show ?thesis unfolding becomeFollower_def Let_def by (rule later_quiet) (intro quiets quiet_refl)
qed

lemma adopts_later: "adopts n m \<Longrightarrow> later n m"
  unfolding adopts_def by (blast intro: quiet_later later_trans becomeFollower_later)

lemma becomeLeader_later: "later n (becomeLeader n)"
  by (rule later_quiet [OF mark_later becomeLeader_from]) simp

lemma mark_reply [simp]: "mark (run_simple d n) = mark n" "mark (replyWhenDurable ch r s n) = mark n"
proof -
  show m: "mark (run_simple d n) = mark n" for d by (cases d) simp_all
  show "mark (replyWhenDurable ch r s n) = mark n" by (simp add: replyWhenDurable_def afterWrite_with_def)
qed

lemma run_deferred_later: "later n (run_deferred d n)"
  by (cases d) (auto intro: becomeLeader_later mark_later simp del: run_simple.simps)

lemma afterWrite_later: "later n m \<Longrightarrow> later n (afterWrite_with run_deferred k d m)"
  using later_trans [OF _ run_deferred_later, of n m d] later_trans [OF _ mark_later [OF mark_simps(2)], of n m]
  by (simp add: afterWrite_with_def)

lemma becomeCandidate_later: "later n (becomeCandidate n)"
proof -
  let ?t = "nd_currentTerm n + 1" and ?i = "cfg_ID (nd_cfg n)"
  let ?m = "resetElectionTimeout ((setLeaderID [] (setState Candidate (fst (saveTerm ?t ?i n))))\<lparr>nd_nextIndex := None,
    nd_matchIndex := None, nd_receivedVoteSet := Some []\<rparr>)"
  have "becomeCandidate n = afterWrite_with run_deferred (snd (saveTerm ?t ?i n)) (DCandidate ?t) ?m"
    by (simp add: becomeCandidate_def case_prod_unfold Let_def)
  moreover have "later n (fst (saveTerm ?t ?i n))" by (rule saveTerm_later) simp
  then have "later n ?m" by (rule later_trans [OF _ mark_later]) (simp only: mark_simps)
  from afterWrite_later [OF this] have "later n (afterWrite_with run_deferred (snd (saveTerm ?t ?i n)) (DCandidate ?t) ?m)" .
  ultimately show ?thesis by (simp only:)
qed

lemma triggerElection_later: "later n (triggerElection n)"
proof -
  let ?m = "resetElectionTimeout ((setLeaderID [] (setState PreCandidate n))\<lparr>nd_nextIndex := None, nd_matchIndex := None,
    nd_receivedVoteSet := Some []\<rparr>)"
  have m: "later n ?m" by (rule mark_later) simp
  have "later n (becomePreCandidate n)"
    using later_trans [OF m becomeCandidate_later] later_trans [OF m mark_later [OF mark_broadcast]]
    by (simp add: becomePreCandidate_def Let_def)
  then show ?thesis using becomeCandidate_later [of n] by (simp add: triggerElection_def)
qed

lemma tick_later: "later n (tick n)"
proof -
  have "later n (tick_follower n)"
    using later_trans [OF mark_later triggerElection_later, of "resetElectionTimeout (n\<lparr>nd_electionElapsed := nd_electionElapsed n + 1\<rparr>)" n]
    by (auto simp: tick_follower_def Let_def intro: mark_later)
  then show ?thesis using quiet_later [OF tick_leader_quiet [of n]] by (simp add: tick_def)
qed

lemma handleRequestVote_later: "later n (handleRequestVote req ch n)"
proof -
  have follow: "later n (applyFollowerTransition [] (fst (saveTerm t v n)))" if "nd_currentTerm n < t" for t v
  proof -
    have "later n (fst (saveTerm t v n))" using that by (intro saveTerm_later) simp
    then show ?thesis by (rule later_quiet) (intro quiets quiet_refl)
  qed
  have grant: "later n (resetElectionTimeout (fst (saveTerm (nd_currentTerm n) v n)))" if "nd_votedFor n \<in> {[], v}" for v
    by (rule later_trans [OF saveTerm_later [of n "nd_currentTerm n" v] mark_later]) (use that in auto)
  note reply = mark_later [OF mark_reply(2)]
  show ?thesis
    using later_trans [OF follow reply] later_trans [OF grant reply] reply
    by (auto simp: handleRequestVote_def handle_pre_vote_def Let_def intro: mark_later)
qed

lemma handleVoteResult_later: "later n (handleVoteResult r n)"
  using becomeFollower_later [of n "vr_term r" "[]"]
    later_trans [OF mark_later becomeCandidate_later, of "set_receivedVote (vr_peerID r) n" n]
    later_trans [OF mark_later becomeLeader_later, of "set_receivedVote (vr_peerID r) n" n]
  by (auto simp: handleVoteResult_def Let_def intro: mark_later)

lemma handleTimeoutNow_later: "later n (handleTimeoutNow req ch n)"
proof -
  let ?m = "if nd_currentTerm n < tn_Term req then becomeFollower (tn_Term req) [] n else n"
  have m: "later n ?m" using becomeFollower_later [of n "tn_Term req" "[]"] by simp
  have r: "later n (replyWhenDurable ch p s k)" if "later n k" for p s k using that by (rule later_trans [OF _ mark_later]) simp
  show ?thesis
  proof (cases "tn_Term req < nd_currentTerm n")
    case True
    then show ?thesis using r [OF later_refl] by (simp add: handleTimeoutNow_def)
  next
    case False
    then have "handleTimeoutNow req ch n = (if cfg_Witness (nd_cfg ?m) then replyWhenDurable ch (PTimeoutNow (nd_currentTerm ?m)) 0 ?m
      else replyWhenDurable ch (PTimeoutNow (nd_currentTerm (becomeCandidate ?m))) 0 (becomeCandidate ?m))"
      by (simp only: handleTimeoutNow_def Let_def if_False)
    then show ?thesis using r [OF m] r [OF later_trans [OF m becomeCandidate_later]] by presburger
  qed
qed

lemma complete_write_later: "later n (complete_write d n)"
proof -
  have rel: "later n (run_released s ds n)" for n :: "'st node" and s ds
    unfolding run_released_def by (induction ds arbitrary: n) (auto intro: later_trans run_deferred_later)
  have run: "later n (runDeferredWrites s n)" for n :: "'st node" and s
  proof -
    have "later n (n\<lparr>nd_deferredWrites := []\<rparr>)" by (rule mark_later) simp
    then have "later n (run_released s (nd_deferredWrites n) (n\<lparr>nd_deferredWrites := []\<rparr>))" by (rule later_trans [OF _ rel])
    then show ?thesis unfolding runDeferredWrites_def Let_def by (rule later_trans [OF _ mark_later]) simp
  qed
  have fail: "later n (failDeferredWrites e n)" for n :: "'st node" and e
    unfolding failDeferredWrites_def by (rule later_quiet [OF mark_later [OF mark_simps(2) [of "[]" n]]]) (intro quiets quiet_refl)
  let ?bump = "\<lambda>n :: 'st node. if nd_completedWriteSeq n < wd_seq d then n\<lparr>nd_completedWriteSeq := wd_seq d\<rparr> else n"
  have b: "mark (?bump k) = mark k" for k :: "'st node" by simp
  show ?thesis
  proof (cases "wd_err d")
    case None
    let ?k = "?bump (n\<lparr>nd_log := stabilize (nd_log n) d\<rparr>)"
    let ?l = "if nd_unsafeTermSeq ?k \<noteq> 0 \<and> nd_unsafeTermSeq ?k \<le> wd_seq d
      then ?k\<lparr>nd_unsafeTermSeq := 0, nd_durableTerm := nd_currentTerm ?k\<rparr> else ?k"
    have "later n ?l" by (rule mark_later) (simp add: mark_def)
    then show ?thesis using later_trans [OF _ run] None by (simp only: complete_write_def Let_def option.case)
  next
    case (Some e)
    have "later n (node_fail e (?bump n))" by (rule later_quiet [OF mark_later [OF b]]) (intro quiets quiet_refl)
    then show ?thesis using later_trans [OF _ fail] Some by (simp only: complete_write_def Let_def option.case)
  qed
qed

lemma handleWriteCompletions_later: "later n (handleWriteCompletions n)"
proof -
  have f: "later n (fold complete_write ds n)" for n :: "'st node" and ds
    by (induction ds arbitrary: n) (auto intro: later_trans complete_write_later)
  have "later n (onDurableAdvanced (fold complete_write ds (n\<lparr>nd_log := rl\<rparr>)))" for ds rl
  proof -
    have "later n (fold complete_write ds (n\<lparr>nd_log := rl\<rparr>))" by (rule later_trans [OF mark_later f]) simp
    then show ?thesis by (rule later_quiet) (intro quiets quiet_refl)
  qed
  then show ?thesis by (simp add: handleWriteCompletions_def split: prod.split)
qed

text \<open>C29. Nothing a node is told, by a peer, a client, its disk, its state machine or its clock, in
  whatever order, takes it back: no event lowers its term, changes a vote it has cast in its
  term, or lowers its commit index.\<close>

theorem events_are_monotone:
  "hs_le (node_hs n) (node_hs (step_event ev n)) \<and> nd_commitIndex n \<le> nd_commitIndex (step_event ev n)"
proof -
  have "later n (step_event ev n)"
  proof (cases ev)
    case (EvCall req ch)
    then show ?thesis
      using adopts_later [OF handleAppendEntries_adopts] adopts_later [OF handleInstallSnapshot_adopts]
        adopts_later [OF handleReadIndexRPC_adopts] handleRequestVote_later handleTimeoutNow_later
      by (cases req) (simp_all add: step_event_def handleCall_def)
  next
    case (EvTransfer target pr)
    have "quiet n (case handleLeadershipTransfer target n of (n, err) \<Rightarrow> emit (OTransfer pr err) n)"
      by (simp add: case_prod_beta, intro quiets) simp
    from quiet_later [OF this] show ?thesis unfolding EvTransfer by (simp add: step_event_def)
  next
    case (EvReachability q up)
    have "quiet n (if up then markPeerUp q n else markPeerDown q n)" by (auto intro!: quiets)
    from quiet_later [OF this] show ?thesis unfolding EvReachability by (simp add: step_event_def)
  next
    case (EvReadIndex m)
    have "quiet n (handleReadIndex m n)" by (intro quiets quiet_refl)
    from quiet_later [OF this] show ?thesis unfolding EvReadIndex by (simp add: step_event_def)
  qed (use quiet_later [OF handleSnapInstallResult_quiet] quiet_later [OF handleProposals_quiet] quiet_later [OF handleApplyResult_quiet]
      quiet_later [OF handleSnapshotResult_quiet] tick_later adopts_later [OF handleAppendResult_adopts]
      adopts_later [OF handleInstallSnapshotResult_adopts] handleVoteResult_later handleWriteCompletions_later
      in \<open>simp_all add: step_event_def\<close>)
  then show ?thesis by (simp add: later_def)
qed

section \<open>When a leader commits\<close>

lemma mark_reads [simp]:
  fixes n m :: "'st node"
  shows "mark (startReadBatch n) = mark n" "mark (confirmReadBatch m) = mark m"
proof -
  have b: "mark (broadcastReadBarrier n) = mark n" for n :: "'st node"
    unfolding broadcastReadBarrier_def by (subst mark_fold) (simp_all add: mark_def emit_def)
  have r: "mark (resolve_batch n) = mark n" for n :: "'st node" by (simp add: resolve_batch_def mark_def Let_def)
  show "mark (startReadBatch n) = mark n" "mark (confirmReadBatch m) = mark m"
  proof (induction n and m rule: startReadBatch_confirmReadBatch.induct)
    case (1 n)
    then show ?case by (subst startReadBatch.simps) (simp add: Let_def b, simp add: mark_def)
  next
    case (2 m)
    then show ?case using r [of m] by (subst confirmReadBatch.simps) (simp add: Let_def, simp add: mark_def)
  qed
qed

lemma commit_reads [simp]: "nd_commitIndex (startReadBatch n) = nd_commitIndex n"
  using mark_reads(1) [of n] by (simp add: mark_def)

lemma commit_set [simp]: "nd_commitIndex (notifyApply (setCommitIndex i n)) = max (nd_commitIndex n) i"
  by (simp add: notifyApply_def setCommitIndex_def maybeRecordCommit_def Let_def)

lemma commit_scan_None: "commit_scan ok lo h = None \<Longrightarrow> lo \<le> i \<Longrightarrow> 0 < i \<Longrightarrow> i \<le> h \<Longrightarrow> \<not> ok i"
  by (induction h) (auto simp: le_Suc_eq split: if_splits)

lemma commit_scan_Some: "commit_scan ok lo h = Some i \<Longrightarrow> lo \<le> i \<and> 0 < i \<and> i \<le> h \<and> ok i \<and> (\<forall>j. i < j \<and> j \<le> h \<longrightarrow> \<not> ok j)"
  by (induction h) (auto simp: le_Suc_eq split: if_splits)

definition committable :: "'st node \<Rightarrow> Index set" where
  "committable n = {i. nd_commitIndex n < i \<and> nd_termStartIndex n \<le> i \<and> i \<le> lastLogIndex (nd_log n) \<and> committed_at n i}"

lemma commit_scan_Max:
  "commit_scan (committed_at n) (max (nd_commitIndex n + 1) (nd_termStartIndex n)) (lastLogIndex (nd_log n))
    = (if committable n = {} then None else Some (Max (committable n)))"
proof (cases "commit_scan (committed_at n) (max (nd_commitIndex n + 1) (nd_termStartIndex n)) (lastLogIndex (nd_log n))")
  case None
  then have "committable n = {}" using commit_scan_None [OF None] by (force simp: committable_def)
  then show ?thesis using None by simp
next
  case (Some i)
  note s = commit_scan_Some [OF Some]
  have i: "i \<in> committable n" using s by (auto simp: committable_def)
  moreover have "j \<le> i" if "j \<in> committable n" for j using s that by (force simp: committable_def not_le)
  moreover have "finite (committable n)" by (rule finite_subset [of _ "{..lastLogIndex (nd_log n)}"]) (auto simp: committable_def)
  ultimately have "Max (committable n) = i" by (intro Max_eqI)
  then show ?thesis using Some i by auto
qed

lemma leader_commit:
  "nd_commitIndex (maybeAdvanceCommit n) =
    (if nd_state n = Leader \<and> nd_termStartIndex n \<noteq> 0 \<and> committable n \<noteq> {} then Max (committable n) else nd_commitIndex n)"
proof -
  have lo: "(if nd_commitIndex n + 1 < nd_termStartIndex n then nd_termStartIndex n else nd_commitIndex n + 1) =
    max (nd_commitIndex n + 1) (nd_termStartIndex n)" by simp
  have "max (nd_commitIndex n) (Max (committable n)) = Max (committable n)" if "committable n \<noteq> {}"
  proof -
    have "finite (committable n)" by (rule finite_subset [of _ "{..lastLogIndex (nd_log n)}"]) (auto simp: committable_def)
    then have "Max (committable n) \<in> committable n" using that by (rule Max_in)
    then show ?thesis by (simp add: committable_def)
  qed
  then show ?thesis unfolding maybeAdvanceCommit_def Let_def lo commit_scan_Max by simp
qed


text \<open>The configurations a leader counts by, and the voters of one that hold an index: the peers that
  acknowledged it, and the leader itself once its own store has it.\<close>

definition counted :: "'st node \<Rightarrow> (PeerConfig list \<times> bool \<times> bool) list" where
  "counted n = (case nd_jointOld n of
     None \<Rightarrow> [(cfg_Peers (nd_cfg n), True, cfg_Voter (nd_cfg n))]
   | Some old \<Rightarrow> [(old, True, nd_jointSelfVoterOld n), (nd_jointNew n, nd_jointIncludeSelf n, nd_jointSelfVoter n)])"

definition holders :: "'st node \<Rightarrow> Index \<Rightarrow> PeerConfig list \<times> bool \<times> bool \<Rightarrow> nat" where
  "holders n idx = (\<lambda>(ms, incl, sv). length (filter (\<lambda>p. pc_Voter p \<and> idx \<le> matchIndex n (pc_ID p)) ms)
     + (if incl \<and> sv \<and> idx \<le> stableIndex (nd_log n) then 1 else 0))"

definition voters_in :: "PeerConfig list \<times> bool \<times> bool \<Rightarrow> nat" where
  "voters_in = (\<lambda>(ms, incl, sv). length (filter pc_Voter ms) + (if incl \<and> sv then 1 else 0))"

lemma majority_holders:
  assumes "replicatedOnMajority n idx ms incl sv"
  shows "quorumNeeded commitQuorum (nd_commitQuorumApplied n) (nd_commitQuorumLatest n) (int (voters_in (ms, incl, sv)))
    \<le> int (holders n idx (ms, incl, sv))"
proof -
  let ?has = "\<lambda>p. idx \<le> matchIndex n (pc_ID p)"
  have "length (filter (\<lambda>p. pc_Voter p \<and> \<not> pc_Witness p \<and> ?has p) ms) + length (filter (\<lambda>p. pc_Voter p \<and> pc_Witness p \<and> ?has p) ms)
      = length (filter (\<lambda>p. pc_Voter p \<and> ?has p) ms)"
    by (induction ms) auto
  then show ?thesis using assms
    by (auto simp: replicatedOnMajority_def holders_def voters_in_def Let_def not_less split: if_splits)
qed

lemma committed_holders:
  "committed_at n idx \<Longrightarrow> list_all (\<lambda>c. quorumNeeded commitQuorum (nd_commitQuorumApplied n) (nd_commitQuorumLatest n) (int (voters_in c))
    \<le> int (holders n idx c)) (counted n)"
  by (auto simp: committed_at_def counted_def dest: majority_holders split: option.splits)

text \<open>C31. When a leader's commit index advances, a commit quorum of every configuration in force
  holds the new index: followers that acknowledged it, and the leader only if the index is in its
  own store. Witnesses may make up the numbers, never exceed them.\<close>

theorem commit_needs_a_quorum:
  assumes "nd_commitIndex n < nd_commitIndex (maybeAdvanceCommit n)" "c \<in> set (counted n)"
  shows "quorumNeeded commitQuorum (nd_commitQuorumApplied n) (nd_commitQuorumLatest n) (int (voters_in c))
    \<le> int (holders n (nd_commitIndex (maybeAdvanceCommit n)) c)"
proof -
  have "nd_commitIndex (maybeAdvanceCommit n) \<in> committable n"
  proof -
    have "finite (committable n)" by (rule finite_subset [of _ "{..lastLogIndex (nd_log n)}"]) (auto simp: committable_def)
    then show ?thesis using assms(1) Max_in [of "committable n"] unfolding leader_commit by (auto split: if_splits)
  qed
  then show ?thesis using committed_holders [of n] assms(2) by (auto simp: committable_def list_all_iff)
qed

text \<open>A leader of two voters with one entry in its store and acknowledged by the other.\<close>

definition demo_leader :: "MemStore node" where
  "demo_leader = (fresh_node (pair_config [1] [2]) \<lparr>hs_CurrentTerm = 1, hs_VotedFor = [1]\<rparr>
      (blank_log\<lparr>rl_first := 1, rl_last := 1, rl_lastTerm := 1, rl_durable := 1\<rparr>) (\<lambda>_. 0) (0, 0))
    \<lparr>nd_state := Leader, nd_termStartIndex := 1, nd_matchIndex := Some [([2], 1)]\<rparr>"

lemma demo_leader_fields:
  "nd_cfg demo_leader = pair_config [1] [2]" "nd_state demo_leader = Leader" "nd_commitIndex demo_leader = 0"
  "nd_termStartIndex demo_leader = 1" "nd_jointOld demo_leader = None" "matchIndex demo_leader [2] = 1"
  "lastLogIndex (nd_log demo_leader) = 1" "stableIndex (nd_log demo_leader) = 1"
  "nd_commitQuorumApplied demo_leader = 0" "nd_commitQuorumLatest demo_leader = 0"
  "cfg_MinCommitZones (pair_config [1] [2]) \<le> 1"
  by (simp_all add: demo_leader_def fresh_node_def empty_log_def lastLogIndex_def stableIndex_def unstableFirst_def snap_index_def
      gm_get_def pair_config_def DefaultConfig_def split: prod.split)

theorem commit_needs_a_quorum_witness:
  "nd_commitIndex demo_leader < nd_commitIndex (maybeAdvanceCommit demo_leader)
    \<and> quorumNeeded commitQuorum 0 0 (int (voters_in ([voter [2]], True, True))) \<le> int (holders demo_leader 1 ([voter [2]], True, True))"
proof -
  have "committed_at demo_leader 1"
    by (simp add: committed_at_def demo_leader_fields replicatedOnMajority_def spansEnoughZones_def quorumNeeded.simps
        commitQuorumFor_def Let_def)
  then have "committable demo_leader = {1}" by (auto simp: committable_def demo_leader_fields)
  then have c: "nd_commitIndex (maybeAdvanceCommit demo_leader) = 1" by (simp add: leader_commit demo_leader_fields)
  show ?thesis using commit_needs_a_quorum [of demo_leader "([voter [2]], True, True)"] c
    by (simp add: counted_def demo_leader_fields)
qed

section \<open>What fits into one message\<close>

definition payload :: "LogEntry list \<Rightarrow> nat" where
  "payload es = sum_list (map (\<lambda>e. length (e_Command e)) es)"

lemma cap_scan_Some: "cap_scan b t i es = Some k \<Longrightarrow>
    i \<le> k \<and> k - i < length es \<and> (k = i \<or> t + payload (take (k - i) es) \<le> b) \<and> b < t + payload (take (Suc (k - i)) es)"
proof (induction es arbitrary: t i)
  case (Cons e es)
  show ?case
  proof (cases "b < t + length (e_Command e)")
    case True
    then show ?thesis using Cons.prems by (simp add: payload_def)
  next
    case False
    then have "cap_scan b (t + length (e_Command e)) (Suc i) es = Some k" using Cons.prems by simp
    note h = Cons.IH [OF this]
    obtain d where "k = Suc (i + d)" using h by (metis add_Suc le_Suc_ex)
    then show ?thesis using h False by (cases d) (auto simp: payload_def add.assoc)
  qed
qed simp

lemma cap_scan_None: "cap_scan b t i es = None \<Longrightarrow> es = [] \<or> t + payload es \<le> b"
proof (induction es arbitrary: t i)
  case (Cons e es)
  then have "\<not> b < t + length (e_Command e)" "cap_scan b (t + length (e_Command e)) (Suc i) es = None" by (auto simp: Let_def split: if_splits)
  then show ?case using Cons.IH [of "t + length (e_Command e)" "Suc i"] by (auto simp: payload_def add.assoc)
qed simp

text \<open>C34. The entries of one message are the longest beginning of what there is to send that fits
  the budget, but never none: an entry that alone is over the budget goes alone, so replication
  never stalls; without a budget everything goes.\<close>

theorem capped_entries:
  "\<exists>k. capByBytes es b = take k es \<and> min 1 (length es) \<le> k
    \<and> (b = 0 \<and> k = length es \<or> k = 1 \<or> payload (take k es) \<le> b)
    \<and> (k = length es \<or> b < payload (take (k + 1) es) \<or> k = 1 \<and> b < payload (take 1 es))"
proof (cases "b = 0 \<or> es = []")
  case True
  then show ?thesis by (intro exI [of _ "length es"]) (auto simp: capByBytes_def payload_def)
next
  case False
  show ?thesis
  proof (cases "cap_scan b 0 0 es")
    case None
    then show ?thesis using cap_scan_None [OF None] False by (intro exI [of _ "length es"]) (auto simp: capByBytes_def)
  next
    case (Some i)
    then show ?thesis using cap_scan_Some [OF Some] False
      by (intro exI [of _ "if i = 0 then 1 else i"]) (auto simp: capByBytes_def)
  qed
qed

section \<open>A snapshot in messages\<close>

definition chunks :: "nat \<Rightarrow> Term \<Rightarrow> NodeID \<Rightarrow> SnapshotMeta \<Rightarrow> nat \<Rightarrow> bytes \<Rightarrow> InstallSnapshotRequest list" where
  "chunks cs t leader m off r = map (\<lambda>i. chunk_request t leader m (off + i * cs) (take cs (drop (i * cs) r)) (i = length r div cs))
    [0..<Suc (length r div cs)]"

lemma chunks_short: "length r < cs \<Longrightarrow> chunks cs t leader m off r = [chunk_request t leader m off r True]"
  by (simp add: chunks_def)

lemma chunks_long:
  assumes "0 < cs" "cs \<le> length r"
  shows "chunks cs t leader m off r = chunk_request t leader m off (take cs r) False # chunks cs t leader m (off + cs) (drop cs r)"
proof -
  have q: "length r div cs = Suc (length (drop cs r) div cs)" using assms by (simp add: le_div_geq)
  have "[0..<Suc (length r div cs)] = 0 # map Suc [0..<Suc (length (drop cs r) div cs)]"
    unfolding q map_Suc_upt by (rule upt_conv_Cons) simp
  then show ?thesis using assms(1) by (simp add: chunks_def q comp_def add_ac del: upt_Suc)
qed

lemma send_loop_chunks:
  assumes "0 < cs" "\<And>j. \<exists>a\<le>t. answer j = Some a" "length r div cs < fuel"
  shows "send_loop fuel answer cs t leader m p k off r sent = (sent @ chunks cs t leader m off r,
    Some \<lparr>ir_peer = p, ir_term = the (answer (k + length r div cs)), ir_meta = m, ir_dropped = False\<rparr>)"
  using assms(3)
proof (induction fuel arbitrary: k off r sent)
  case (Suc fuel)
  obtain a where a: "answer k = Some a" "a \<le> t" using assms(2) by blast
  show ?case
  proof (cases "cs \<le> length r")
    case True
    then have q: "length r div cs = Suc (length (drop cs r) div cs)" using assms(1) by (simp add: le_div_geq)
    then have "length (drop cs r) div cs < fuel" using Suc.prems by simp
    from Suc.IH [OF this, of "k + 1" "off + cs" "sent @ [chunk_request t leader m off (take cs r) False]"]
    show ?thesis using True a q chunks_long [OF assms(1) True] by (simp add: next_chunk_def)
  next
    case False
    then show ?thesis using a chunks_short [of r cs] by (simp add: next_chunk_def)
  qed
qed simp

lemma chunks_data: "0 < cs \<Longrightarrow> concat (map is_Data (chunks cs t leader m off r)) = r"
proof (induction "length r" arbitrary: off r rule: less_induct)
  case less
  then show ?case using less.hyps [of "drop cs r" "off + cs"]
    by (cases "cs \<le> length r") (simp_all add: chunks_long chunks_short chunk_request_def)
qed

text \<open>C35. A snapshot of any length reaches a follower that answers every call in the sender's term or
  an earlier one: the transfer ends after the calls it takes, their data put together are the
  snapshot, the offsets follow one another, each carries at most a chunk, and only the last says
  that it is the last.\<close>

theorem snapshot_is_sent_in_chunks:
  assumes "0 < cs" "\<And>j. \<exists>a\<le>t. answer j = Some a" "length r div cs < fuel"
  shows "\<exists>sent res. send_loop fuel answer cs t leader m p 0 0 r [] = (sent, Some res)
    \<and> ir_peer res = p \<and> \<not> ir_dropped res \<and> concat (map is_Data sent) = r \<and> length sent = length r div cs + 1
    \<and> map is_Offset sent = map (\<lambda>i. int (i * cs)) [0..<length sent]
    \<and> map is_Done sent = replicate (length r div cs) False @ [True] \<and> list_all (\<lambda>c. length (is_Data c) \<le> cs) sent"
proof -
  let ?c = "chunks cs t leader m 0 r"
  have "map is_Done ?c = replicate (length r div cs) False @ [True]"
    by (rule nth_equalityI) (auto simp: chunks_def chunk_request_def nth_append less_Suc_eq simp del: upt_Suc)
  then show ?thesis using send_loop_chunks [OF assms, where leader = leader and m = m and p = p and k = 0 and off = 0 and sent = "[]"]
      chunks_data [OF assms(1), of t leader m 0 r]
    by (auto simp: chunks_def chunk_request_def list_all_iff comp_def)
qed

theorem snapshot_is_sent_in_chunks_witness:
  "\<exists>sent res. send_loop 9 (\<lambda>_. Some 1) 4 1 [1] \<lparr>sm_LastIncludedIndex = 5, sm_LastIncludedTerm = 1\<rparr> [2] 0 0 (replicate 10 7) [] = (sent, Some res)
    \<and> ir_peer res = [2] \<and> \<not> ir_dropped res \<and> concat (map is_Data sent) = replicate 10 7 \<and> length sent = 3
    \<and> map is_Offset sent = map (\<lambda>i. int (i * 4)) [0..<length sent]
    \<and> map is_Done sent = [False, False, True] \<and> list_all (\<lambda>c. length (is_Data c) \<le> 4) sent"
  using snapshot_is_sent_in_chunks [where cs = 4 and t = 1 and answer = "\<lambda>_. Some 1" and r = "replicate 10 7" and fuel = 9
      and leader = "[1]" and m = "\<lparr>sm_LastIncludedIndex = 5, sm_LastIncludedTerm = 1\<rparr>" and p = "[2]"]
  by (simp add: numeral_2_eq_2 numeral_3_eq_3)

text \<open>C36. With a chunk size of 0, which the configuration accepts and documents as sending the whole
  snapshot in one message, the transfer to a follower that answers every call never ends: it sends
  empty messages, none of them the last, for ever.\<close>

theorem chunk_size_zero_never_ends:
  "send_loop fuel (\<lambda>_. Some t) 0 t leader m p k off r sent = (sent @ replicate fuel (chunk_request t leader m off [] False), None)"
  by (induction fuel arbitrary: k sent) (simp_all add: next_chunk_def replicate_append_same)

section \<open>What a follower learns\<close>

lemma commit_notes [simp]: "nd_commitIndex (noteAppendedConfig es n) = nd_commitIndex (n :: 'st node)"
proof -
  have "nd_commitIndex (note_entry e n) = nd_commitIndex n" for e and n :: "'st node"
    by (simp add: note_entry_def Let_def split: outcome.split)
  then show ?thesis unfolding noteAppendedConfig_def by (induction es arbitrary: n) simp_all
qed















section \<open>Two entries in one place\<close>

text \<open>C37. A batch of proposals that makes a leader propose both the bound of the client table and the
  commit quorum of its configuration gives the two entries the same index, the one after the end
  of its log.\<close>

theorem two_entries_at_one_index:
  assumes "\<not> nd_clientTableCapReplicated n" "nd_capEntryPending n = 0" "list_ex (\<lambda>p. isDedupCmd (pm_cmd p)) props"
    and "cfg_CommitQuorum (nd_cfg n) \<noteq> 0" "\<not> nd_commitQuorumAgreed n" "nd_commitQuorumLatest n = 0"
    and "nd_quorumEntryPending n = 0" "nd_pendingConfigIndex n = 0"
  shows "map e_Index (case propose_cap props [] n of (n', es) \<Rightarrow> snd (propose_quorum es n'))
    = [lastLogIndex (nd_log n) + 1, lastLogIndex (nd_log n) + 1]"
  using assms by (simp add: propose_cap_def propose_quorum_def Let_def)

theorem two_entries_at_one_index_witness:
  "map e_Index (case propose_cap [\<lparr>pm_cmd = encodeDedupCmd [3] 1 [4], pm_promise = 0\<rparr>] []
      (demo_leader\<lparr>nd_cfg := (pair_config [1] [2])\<lparr>cfg_CommitQuorum := 2\<rparr>\<rparr>) of (n', es) \<Rightarrow> snd (propose_quorum es n')) = [2, 2]"
proof -
  let ?n = "demo_leader\<lparr>nd_cfg := (pair_config [1] [2])\<lparr>cfg_CommitQuorum := 2\<rparr>\<rparr>"
  have "\<not> nd_clientTableCapReplicated ?n" "nd_capEntryPending ?n = 0" "\<not> nd_commitQuorumAgreed ?n" "nd_commitQuorumLatest ?n = 0"
    "nd_quorumEntryPending ?n = 0" "nd_pendingConfigIndex ?n = 0" "lastLogIndex (nd_log ?n) + 1 = 2"
    using demo_leader_fields by (simp_all add: demo_leader_def fresh_node_def split: prod.split)
  then show ?thesis
    using two_entries_at_one_index [of ?n "[\<lparr>pm_cmd = encodeDedupCmd [3] 1 [4], pm_promise = 0\<rparr>]"]
    by (simp add: encodeDedupCmd_recognised)
qed

end
