(* ===== verification/Term_Runs.thy ===== *)
theory Term_Runs
  imports Raft_Log
begin

text \<open>
  The run index of the log: \<open>runs_of es\<close> is what \<open>extendRuns\<close> builds from the entries
  \<open>es\<close>, and the lemmas say that every operation on the runs is the corresponding
  question about, or change of, the entries.  Nothing assumes that terms increase.
\<close>

definition runs_of :: "LogEntry list \<Rightarrow> termRun list" where
  "runs_of es = extend_runs [] es"

lemma extend_runs_append: "extend_runs rs (xs @ ys) = extend_runs (extend_runs rs xs) ys"
  by (induction xs arbitrary: rs) simp_all

lemma runs_of_append [log_simps]: "extend_runs (runs_of xs) ys = runs_of (xs @ ys)"
  by (simp add: runs_of_def extend_runs_append)

lemma runs_of_Nil [simp]: "runs_of [] = []"
  by (simp add: runs_of_def)

lemma runs_of_single [simp]: "runs_of [e] = [\<lparr>tr_start = e_Index e, tr_term = e_Term e\<rparr>]"
  by (simp add: runs_of_def)

lemma runs_of_snoc:
  "runs_of (es @ [e]) =
    (if runs_of es \<noteq> [] \<and> tr_term (last (runs_of es)) = e_Term e then runs_of es
     else runs_of es @ [\<lparr>tr_start = e_Index e, tr_term = e_Term e\<rparr>])"
  by (auto simp: runs_of_def extend_runs_append last_conv_nth)

lemma runs_of_last:
  "es \<noteq> [] \<Longrightarrow> runs_of es \<noteq> [] \<and> tr_term (last (runs_of es)) = e_Term (last es)"
  by (induction es rule: rev_induct) (auto simp: runs_of_snoc)

lemma runs_of_Nil_iff [simp]: "runs_of es = [] \<longleftrightarrow> es = []"
  using runs_of_last by auto

lemma runs_of_snoc_same:
  "es \<noteq> [] \<Longrightarrow> e_Term (last es) = e_Term e \<Longrightarrow> runs_of (es @ [e]) = runs_of es"
  using runs_of_last [of es] by (simp add: runs_of_snoc)

lemma runs_of_snoc_new:
  "es = [] \<or> e_Term (last es) \<noteq> e_Term e \<Longrightarrow>
    runs_of (es @ [e]) = runs_of es @ [\<lparr>tr_start = e_Index e, tr_term = e_Term e\<rparr>]"
  using runs_of_last [of es] by (auto simp: runs_of_snoc)

lemma contig_snoc:
  "contig (es @ [e]) \<Longrightarrow> es \<noteq> [] \<Longrightarrow> contig es \<and> e_Index e = Suc (last_index es)"
  using contig_append_first [of es "[e]"] by (auto simp: first_index_def dest: contig_prefix)

lemma runs_of_starts: "contig es \<Longrightarrow> r \<in> set (runs_of es) \<Longrightarrow> tr_start r \<le> last_index es"
proof (induction es rule: rev_induct)
  case (snoc e es)
  show ?case
  proof (cases "es = []")
    case True
    then show ?thesis using snoc.prems by (simp add: runs_of_snoc_new)
  next
    case False
    with snoc show ?thesis
      using contig_snoc [OF snoc.prems(1) False] by (force simp: runs_of_snoc split: if_splits)
  qed
qed simp

section \<open>The run of an index\<close>

lemma run_scan_append: "n \<le> length rs \<Longrightarrow> run_scan (rs @ rs') i n = run_scan rs i n"
  by (induction n) (simp_all add: nth_append)

lemma run_scan_less: "run_scan rs i n = Some k \<Longrightarrow> k < n"
  by (induction n) (auto split: if_splits)

lemma run_scan_all:
  "rs \<noteq> [] \<Longrightarrow> tr_start (last rs) \<le> i \<Longrightarrow> run_scan rs i (length rs) = Some (length rs - 1)"
  by (cases rs rule: rev_exhaust) auto

lemma run_scan_snoc:
  "run_scan (rs @ [r]) i (length (rs @ [r])) =
    (if tr_start r \<le> i then Some (length rs) else run_scan rs i (length rs))"
  by (simp add: run_scan_append)

lemma run_scan_runs_of:
  assumes "contig es" "first_index es \<le> i" "i \<le> last_index es" "es \<noteq> []"
  shows "\<exists>k. run_scan (runs_of es) i (length (runs_of es)) = Some k
    \<and> tr_term (runs_of es ! k) = e_Term (es ! (i - first_index es))"
  using assms
proof (induction es rule: rev_induct)
  case (snoc e es)
  show ?case
  proof (cases "es = []")
    case True
    then show ?thesis using snoc.prems by (simp add: runs_of_snoc_new first_index_def)
  next
    case ne: False
    note c = contig_snoc [OF snoc.prems(1) ne]
    show ?thesis
    proof (cases "i = e_Index e")
      case True
      have "(es @ [e]) ! (i - first_index (es @ [e])) = e"
        using contig_last [of es] c ne True by (simp add: nth_append)
      moreover have "tr_start (last (runs_of (es @ [e]))) \<le> i"
        using runs_of_starts [OF snoc.prems(1)] True runs_of_last [of "es @ [e]"] by auto
      ultimately show ?thesis
        using run_scan_all [of "runs_of (es @ [e])" i] runs_of_last [of "es @ [e]"]
        by (simp add: last_conv_nth)
    next
      case False
      then have i: "first_index es \<le> i" "i \<le> last_index es" using snoc.prems ne c by auto
      obtain k where k: "run_scan (runs_of es) i (length (runs_of es)) = Some k"
        "tr_term (runs_of es ! k) = e_Term (es ! (i - first_index es))"
        using snoc.IH c i ne by blast
      have "i - first_index es < length es" using contig_last [of es] c ne i by simp
      then have "(es @ [e]) ! (i - first_index (es @ [e])) = es ! (i - first_index es)"
        using ne by (simp add: nth_append)
      moreover have "k < length (runs_of es)" using k(1) by (rule run_scan_less)
      ultimately show ?thesis
        using k i c
        by (intro exI [of _ k], cases "e_Term (last es) = e_Term e")
          (simp_all add: runs_of_snoc_same runs_of_snoc_new ne nth_append run_scan_append)
    qed
  qed
qed simp

section \<open>Truncation\<close>

lemma runs_of_take:
  "contig es \<Longrightarrow> rev (dropWhile (\<lambda>r. i \<le> tr_start r) (rev (runs_of es)))
    = runs_of (take (i - first_index es) es)"
proof (induction es rule: rev_induct)
  case (snoc e es)
  show ?case
  proof (cases "es = []")
    case True
    then show ?thesis by (cases "i \<le> e_Index e") (simp_all add: runs_of_snoc_new first_index_def)
  next
    case ne: False
    note c = contig_snoc [OF snoc.prems(1) ne]
    show ?thesis
    proof (cases "i \<le> e_Index e")
      case True
      have t: "take (i - first_index (es @ [e])) (es @ [e]) = take (i - first_index es) es"
        using contig_last [of es] c ne True by simp
      show ?thesis
        unfolding t using snoc.IH c True
        by (cases "e_Term (last es) = e_Term e") (simp_all add: runs_of_snoc_same runs_of_snoc_new ne)
    next
      case False
      have "dropWhile (\<lambda>r. i \<le> tr_start r) (rev (runs_of (es @ [e]))) = rev (runs_of (es @ [e]))"
        using runs_of_starts [OF snoc.prems(1)] False
        by (metis dropWhile_eq_self_iff hd_in_set last_index_snoc order_trans set_rev)
      moreover have "take (i - first_index (es @ [e])) (es @ [e]) = es @ [e]"
        using contig_last [of es] c ne False by simp
      ultimately show ?thesis by simp
    qed
  qed
qed simp

definition runs_below :: "termRun list \<Rightarrow> Index \<Rightarrow> termRun list" where
  "runs_below rs i =
    (case run_scan rs i (length rs) of
       None \<Rightarrow> []
     | Some k \<Rightarrow> (drop k rs)[0 := (rs ! k)\<lparr>tr_start := i\<rparr>])"

lemma truncateRunsBelow_runs: "truncateRunsBelow rl i = rl\<lparr>rl_runs := runs_below (rl_runs rl) i\<rparr>"
  by (simp add: truncateRunsBelow_def runs_below_def runIndexFor_def split: option.splits)

lemma runs_below_single:
  "es \<noteq> [] \<Longrightarrow> contig es \<Longrightarrow> runs_below (runs_of es) (last_index es)
    = [\<lparr>tr_start = last_index es, tr_term = e_Term (last es)\<rparr>]"
proof -
  assume a: "es \<noteq> []" "contig es"
  have "tr_start (last (runs_of es)) \<le> last_index es"
    using runs_of_starts [OF a(2)] a(1) by simp
  moreover obtain rs r where r: "runs_of es = rs @ [r]"
    using a(1) by (cases "runs_of es" rule: rev_exhaust) auto
  ultimately show ?thesis
    using runs_of_last [OF a(1)] by (simp add: runs_below_def run_scan_all r)
qed

lemma runs_below_snoc:
  "i < tr_start r \<Longrightarrow> run_scan rs i (length rs) = Some k \<Longrightarrow> runs_below (rs @ [r]) i = runs_below rs i @ [r]"
  using run_scan_less [of rs i "length rs" k]
  by (simp add: runs_below_def run_scan_append nth_append list_update_append)

lemma runs_of_drop:
  assumes "contig es" "first_index es \<le> i" "i \<le> last_index es" "es \<noteq> []"
  shows "runs_below (runs_of es) i = runs_of (drop (i - first_index es) es)"
  using assms
proof (induction es rule: rev_induct)
  case (snoc e es)
  show ?case
  proof (cases "i = e_Index e")
    case True
    have "drop (i - first_index (es @ [e])) (es @ [e]) = [e]"
      using contig_last [OF snoc.prems(1)] True by simp
    then show ?thesis
      using runs_below_single [OF _ snoc.prems(1)] True runs_of_snoc_new [of "[]" e] by simp
  next
    case False
    then have ne: "es \<noteq> []" using snoc.prems(2,3) by (auto simp: first_index_def)
    note c = contig_snoc [OF snoc.prems(1) ne]
    have i: "first_index es \<le> i" "i \<le> last_index es" using snoc.prems ne False c by auto
    have d: "drop (i - first_index (es @ [e])) (es @ [e]) = drop (i - first_index es) es @ [e]"
      using contig_last [of es] c ne i by simp
    have dn: "drop (i - first_index es) es \<noteq> []" "last (drop (i - first_index es) es) = last es"
      using contig_last [of es] c ne i by simp_all
    have IH: "runs_below (runs_of es) i = runs_of (drop (i - first_index es) es)"
      using snoc.IH c i ne by blast
    obtain k where k: "run_scan (runs_of es) i (length (runs_of es)) = Some k"
      using run_scan_runs_of c i ne by blast
    show ?thesis
      unfolding d using IH dn ne c i k
      by (cases "e_Term (last es) = e_Term e")
        (simp_all add: runs_of_snoc_same runs_of_snoc_new runs_below_snoc)
  qed
qed simp

section \<open>The last index of a term\<close>

lemma term_scan_append:
  "n \<le> length rs \<Longrightarrow> term_scan (rs @ [r]) l t n = term_scan rs (tr_start r - 1) t n"
  by (induction n) (auto simp: nth_append)

lemma term_scan_other_last:
  "n < length rs \<Longrightarrow> term_scan rs l t n = term_scan rs l' t n"
  by (induction n) auto

definition max_index_of_term :: "LogEntry list \<Rightarrow> Term \<Rightarrow> Index option" where
  "max_index_of_term es t = map_option e_Index (find (\<lambda>e. e_Term e = t) (rev es))"

lemma term_scan_runs_of:
  "contig es \<Longrightarrow> term_scan (runs_of es) (last_index es) t (length (runs_of es)) = max_index_of_term es t"
proof (induction es rule: rev_induct)
  case Nil
  then show ?case by (simp add: max_index_of_term_def)
next
  case (snoc e es)
  show ?case
  proof (cases "es = []")
    case True
    then show ?thesis by (simp add: runs_of_snoc_new max_index_of_term_def)
  next
    case ne: False
    note c = contig_snoc [OF snoc.prems ne]
    have IH: "term_scan (runs_of es) (last_index es) t (length (runs_of es)) = max_index_of_term es t"
      using snoc.IH c by blast
    have m: "max_index_of_term (es @ [e]) t = (if e_Term e = t then Some (e_Index e) else max_index_of_term es t)"
      by (simp add: max_index_of_term_def)
    show ?thesis
    proof (cases "e_Term (last es) = e_Term e")
      case False
      then show ?thesis
        using IH c by (simp add: runs_of_snoc_new m term_scan_append)
    next
      case True
      obtain rs r where r: "runs_of es = rs @ [r]"
        using ne by (cases "runs_of es" rule: rev_exhaust) auto
      have "tr_term r = e_Term e" using runs_of_last [OF ne] True r by simp
      then show ?thesis
        using IH True ne term_scan_other_last [of "length rs" "rs @ [r]" "e_Index e" t "last_index es"]
        by (auto simp: runs_of_snoc_same m r)
    qed
  qed
qed

end
