(* ===== verification/Raft_Log_Inv.thy ===== *)
theory Raft_Log_Inv
  imports Term_Runs
begin

text \<open>
  What the log promises about the disk.  The log as the node sees it is the sequence
  of entries the store will hold once everything queued has been written; the
  unstable segments are a suffix of it.  The invariant \<open>log_inv\<close> ties the cached
  positions, the run index, the segments, the queue and the store together, and every
  operation of the log, every step of the writer and every completion keeps it.  The
  consequences are the facts the rest of the node relies on: what \<open>stableIndex\<close>
  covers is on the store, now and after any crash, and a read returns the log.
\<close>

section \<open>Segments\<close>

definition seg_entries :: "unstableSeg list \<Rightarrow> LogEntry list" where
  "seg_entries ss = concat (map us_entries ss)"

definition segs_full :: "unstableSeg list \<Rightarrow> bool" where
  "segs_full ss \<longleftrightarrow> (\<forall>s\<in>set ss. us_entries s \<noteq> [])"

lemma seg_entries_simps [simp]:
  "seg_entries [] = []" "seg_entries (s # ss) = us_entries s @ seg_entries ss"
  "seg_entries (ss @ ss') = seg_entries ss @ seg_entries ss'"
  by (simp_all add: seg_entries_def)

lemma segs_full_simps [simp]:
  "segs_full []" "segs_full (s # ss) \<longleftrightarrow> us_entries s \<noteq> [] \<and> segs_full ss"
  "segs_full (ss @ ss') \<longleftrightarrow> segs_full ss \<and> segs_full ss'"
  by (auto simp: segs_full_def)

lemma commandBytes_simps [simp]:
  "commandBytes [] = 0" "commandBytes (e # es) = int (length (e_Command e)) + commandBytes es"
  "commandBytes (xs @ ys) = commandBytes xs + commandBytes ys"
  by (simp_all add: commandBytes_def)

lemma segs_full_Nil: "segs_full ss \<Longrightarrow> seg_entries ss = [] \<longleftrightarrow> ss = []"
  by (cases ss) auto

lemma unstable_first_eq: "segs_full ss \<Longrightarrow> unstable_first ss = first_index (seg_entries ss)"
  by (cases ss) (auto simp: nth0_first_index)

text \<open>What a trimmed list of segments is made of: each segment is part of an old one
  with the same sequence number, in the same order.\<close>

definition segs_within :: "unstableSeg list \<Rightarrow> unstableSeg list \<Rightarrow> bool" where
  "segs_within ss' ss \<longleftrightarrow>
    (\<forall>s'\<in>set ss'. \<exists>s\<in>set ss. us_seq s' = us_seq s \<and> set (us_entries s') \<subseteq> set (us_entries s))"

lemma segs_within_refl [simp]: "segs_within ss ss"
  by (auto simp: segs_within_def)

lemma filter_less_all: "(\<forall>e\<in>set es. e_Index e < i) \<Longrightarrow> filter (\<lambda>e. e_Index e < i) es = es"
  by simp

lemma contig_before:
  "contig (xs @ ys) \<Longrightarrow> ys \<noteq> [] \<Longrightarrow> e \<in> set xs \<Longrightarrow> e_Index e < first_index ys"
  using contig_append_first [of xs ys] contig_bounds [of xs e] contig_prefix [of xs ys]
  by (cases "xs = []") auto

lemma drop_from_spec:
  assumes "contig (seg_entries ss)" "segs_full ss" "drop_from i (rev ss) b = (ss', b')"
  shows "seg_entries (rev ss') = filter (\<lambda>e. e_Index e < i) (seg_entries ss) \<and> segs_full (rev ss')
    \<and> b' = b - commandBytes (seg_entries ss) + commandBytes (seg_entries (rev ss'))
    \<and> segs_within (rev ss') ss \<and> map us_seq (rev ss') = take (length ss') (map us_seq ss)"
  using assms
proof (induction ss arbitrary: b rule: rev_induct)
  case (snoc s ss)
  let ?es = "us_entries s"
  have ne: "?es \<noteq> []" and full: "segs_full ss" using snoc.prems(2) by simp_all
  have c: "contig ?es" "contig (seg_entries ss)"
    using snoc.prems(1) by (auto dest: contig_prefix contig_suffix)
  have before: "e_Index e < first_index ?es" if "e \<in> set (seg_entries ss)" for e
    using contig_before [of "seg_entries ss" ?es] snoc.prems(1) ne that by simp
  consider (all) "i \<le> first_index ?es" | (part) "first_index ?es < i" "i \<le> last_index ?es"
    | (none) "first_index ?es < i" "last_index ?es < i" by linarith
  then show ?case
  proof cases
    case all
    have "drop_from i (rev ss) (b - commandBytes ?es) = (ss', b')"
      using snoc.prems(3) all ne by (simp add: Let_def nth0_first_index)
    note IH = snoc.IH [OF c(2) full this]
    have "filter (\<lambda>e. e_Index e < i) ?es = []"
      using contig_bounds [OF c(1)] all by (fastforce simp: filter_empty_conv)
    then show ?thesis
      using IH by (auto simp: segs_within_def dest: arg_cong [of _ _ length])
  next
    case part
    let ?k = "i - first_index ?es"
    have r: "ss' = s\<lparr>us_entries := take ?k ?es\<rparr> # rev ss" "b' = b - commandBytes (drop ?k ?es)"
      using snoc.prems(3) part ne nth_last_index [OF ne] by (auto simp: Let_def nth0_first_index)
    have f: "filter (\<lambda>e. e_Index e < i) ?es = take ?k ?es" using c(1) by (rule contig_filter_less)
    have g: "filter (\<lambda>e. e_Index e < i) (seg_entries ss) = seg_entries ss"
      using before part by (intro filter_less_all) force
    have "commandBytes ?es = commandBytes (take ?k ?es) + commandBytes (drop ?k ?es)"
      by (metis append_take_drop_id commandBytes_simps(3))
    then show ?thesis
      using r f g ne full part by (auto simp: segs_within_def dest: in_set_takeD)
  next
    case none
    have r: "ss' = s # rev ss" "b' = b"
      using snoc.prems(3) none ne nth_last_index [OF ne] by (auto simp: Let_def nth0_first_index)
    have "filter (\<lambda>e. e_Index e < i) (seg_entries (ss @ [s])) = seg_entries (ss @ [s])"
      using before contig_bounds [OF c(1)] none by (intro filter_less_all) force
    then show ?thesis using r snoc.prems(2) by simp
  qed
qed simp

lemma drop_below_spec:
  assumes "contig (seg_entries ss)" "segs_full ss" "drop_below i ss b = (ss', b')"
  shows "seg_entries ss' = filter (\<lambda>e. i \<le> e_Index e) (seg_entries ss) \<and> segs_full ss'
    \<and> b' = b - commandBytes (seg_entries ss) + commandBytes (seg_entries ss')
    \<and> segs_within ss' ss \<and> map us_seq ss' = drop (length ss - length ss') (map us_seq ss)
    \<and> length ss' \<le> length ss"
  using assms
proof (induction ss arbitrary: b)
  case (Cons s ss)
  let ?es = "us_entries s"
  have ne: "?es \<noteq> []" and full: "segs_full ss" using Cons.prems(2) by simp_all
  have c: "contig ?es" "contig (seg_entries ss)"
    using Cons.prems(1) by (auto dest: contig_prefix contig_suffix)
  have after: "last_index ?es < e_Index e" if "e \<in> set (seg_entries ss)" for e
  proof -
    have "seg_entries ss \<noteq> []" using that by auto
    then show ?thesis
      using contig_append_first [of ?es "seg_entries ss"] Cons.prems(1) ne contig_bounds [OF c(2) that] by simp
  qed
  consider (all) "last_index ?es < i" | (part) "first_index ?es < i" "i \<le> last_index ?es"
    | (none) "i \<le> first_index ?es" "i \<le> last_index ?es"
    using contig_first_le_last [OF c(1)] by linarith
  then show ?case
  proof cases
    case all
    have "drop_below i ss (b - commandBytes ?es) = (ss', b')"
      using Cons.prems(3) all ne nth_last_index [OF ne] by (simp add: Let_def)
    note IH = Cons.IH [OF c(2) full this]
    have "filter (\<lambda>e. i \<le> e_Index e) ?es = []"
      using contig_bounds [OF c(1)] all by (fastforce simp: filter_empty_conv)
    then show ?thesis
      using IH by (auto simp: segs_within_def Suc_diff_le)
  next
    case part
    let ?k = "i - first_index ?es"
    have r: "ss' = s\<lparr>us_entries := drop ?k ?es\<rparr> # ss" "b' = b - commandBytes (take ?k ?es)"
      using Cons.prems(3) part ne nth_last_index [OF ne] by (auto simp: Let_def nth0_first_index)
    have f: "filter (\<lambda>e. i \<le> e_Index e) ?es = drop ?k ?es" using c(1) by (rule contig_filter_ge)
    have g: "filter (\<lambda>e. i \<le> e_Index e) (seg_entries ss) = seg_entries ss"
      using after part by (intro filter_True) force
    have "commandBytes ?es = commandBytes (take ?k ?es) + commandBytes (drop ?k ?es)"
      by (metis append_take_drop_id commandBytes_simps(3))
    moreover have "drop ?k ?es \<noteq> []" using part contig_last [OF c(1) ne] by simp
    ultimately show ?thesis
      using r f g full by (auto simp: segs_within_def dest: in_set_dropD)
  next
    case none
    have r: "ss' = s # ss" "b' = b"
      using Cons.prems(3) none ne nth_last_index [OF ne] by (auto simp: Let_def nth0_first_index)
    have "filter (\<lambda>e. i \<le> e_Index e) (seg_entries (s # ss)) = seg_entries (s # ss)"
      using after contig_bounds [OF c(1)] none by (intro filter_True) force
    then show ?thesis using r Cons.prems(2) by simp
  qed
qed simp

lemma release_segs_spec:
  "release_segs n ss b = (dropWhile (\<lambda>s. us_seq s \<le> n) ss,
    b - commandBytes (seg_entries (takeWhile (\<lambda>s. us_seq s \<le> n) ss)))"
  by (induction ss arbitrary: b) simp_all

lemma unstable_slice_spec:
  assumes "contig (seg_entries ss)" "segs_full ss" "lo < hi"
  shows "unstable_slice lo hi ss = between lo hi (seg_entries ss)"
  using assms
proof (induction ss)
  case Nil
  then show ?case by (simp add: between_def)
next
  case (Cons s ss)
  let ?es = "us_entries s"
  have ne: "?es \<noteq> []" and full: "segs_full ss" using Cons.prems(2) by simp_all
  have c: "contig ?es" "contig (seg_entries ss)"
    using Cons.prems(1) by (auto dest: contig_prefix contig_suffix)
  have IH: "unstable_slice lo hi ss = between lo hi (seg_entries ss)"
    using Cons.IH c full Cons.prems(3) by simp
  have app: "between lo hi (seg_entries (s # ss)) = between lo hi ?es @ between lo hi (seg_entries ss)"
    by (simp add: between_def)
  consider (before) "last_index ?es < lo" | (after) "lo \<le> last_index ?es" "hi \<le> first_index ?es"
    | (meet) "lo \<le> last_index ?es" "first_index ?es < hi" by linarith
  then show ?case
  proof cases
    case before
    then have "between lo hi ?es = []"
      using contig_bounds [OF c(1)] by (fastforce simp: between_def filter_empty_conv)
    then show ?thesis using before ne nth_last_index [OF ne] IH app by (simp add: Let_def)
  next
    case after
    have "between lo hi (seg_entries (s # ss)) = []"
      using contig_bounds [OF Cons.prems(1)] after ne by (fastforce simp: between_def filter_empty_conv)
    then show ?thesis using after ne nth_last_index [OF ne] by (simp add: Let_def nth0_first_index)
  next
    case meet
    let ?f = "max lo (first_index ?es)" and ?t = "min hi (Suc (last_index ?es))"
    have "between lo hi ?es = between ?f ?t ?es"
      using contig_bounds [OF c(1)] unfolding between_def by (intro filter_cong) force+
    also have "\<dots> = take (?t - ?f) (drop (?f - first_index ?es) ?es)"
      using between_slice [OF c(1) ne, of ?f ?t] meet Cons.prems(3) contig_first_le_last [OF c(1)]
      by (auto simp: slice_range_def split: if_splits)
    finally have "between lo hi ?es = take (?t - ?f) (drop (?f - first_index ?es) ?es)" .
    moreover have "?f = (if lo < first_index ?es then first_index ?es else lo)"
      "?t = (if Suc (last_index ?es) < hi then Suc (last_index ?es) else hi)" by auto
    ultimately show ?thesis
      using meet ne nth_last_index [OF ne] IH app by (simp add: Let_def nth0_first_index)
  qed
qed

section \<open>The invariant\<close>

text \<open>The entries that must be on the store once every operation with a sequence
  number up to \<open>t\<close> has been executed: those in no segment, and those in a segment whose
  write is among them.\<close>

definition required :: "LogEntry list \<Rightarrow> unstableSeg list \<Rightarrow> nat \<Rightarrow> LogEntry set" where
  "required P ss t = set P \<union> \<Union> (set ` us_entries ` {s \<in> set ss. us_seq s \<le> t})"

text \<open>At every point of the execution of the operations \<open>ops\<close>, starting from a store
  that holds \<open>es\<close> after operation \<open>t\<close>, the store holds what is required by then.\<close>

fun tracked :: "(nat \<Rightarrow> LogEntry set) \<Rightarrow> nat \<Rightarrow> writeOp list \<Rightarrow> LogEntry list \<Rightarrow> bool" where
  "tracked R t [] es \<longleftrightarrow> R t \<subseteq> set es"
| "tracked R t (op # ops) es \<longleftrightarrow> R t \<subseteq> set es \<and> tracked R (wo_seq op) ops (effect op es)"

text \<open>The sequence number of the last operation that was executed.\<close>

definition executed :: "'st raftLog \<Rightarrow> nat" where
  "executed rl = rl_nextSeq rl - length (pending_ops (rl_w rl))"

text \<open>The caches agree with the entries.\<close>

definition caches_ok :: "'st raftLog \<Rightarrow> LogEntry list \<Rightarrow> bool" where
  "caches_ok rl es \<longleftrightarrow> contig es \<and> rl_first rl = first_index es \<and> rl_last rl = last_index es
    \<and> rl_runs rl = runs_of es"

text \<open>So does the cached last term.  This is not part of \<open>caches_ok\<close>: compaction can break it.\<close>

definition term_ok :: "'st raftLog \<Rightarrow> LogEntry list \<Rightarrow> bool" where
  "term_ok rl es \<longleftrightarrow> rl_lastTerm rl = (if es = [] then snap_term rl else e_Term (last es))"

text \<open>The unstable segments are the end of the entries; \<open>P\<close> is what comes before.\<close>

definition segs_ok :: "'st raftLog \<Rightarrow> LogEntry list \<Rightarrow> LogEntry list \<Rightarrow> bool" where
  "segs_ok rl es P \<longleftrightarrow> es = P @ seg_entries (rl_segs rl) \<and> segs_full (rl_segs rl)
    \<and> sorted_wrt (<) (map us_seq (rl_segs rl)) \<and> (\<forall>s\<in>set (rl_segs rl). us_seq s \<le> rl_nextSeq rl)
    \<and> rl_unstableBytes rl = commandBytes (seg_entries (rl_segs rl))"

text \<open>The queue carries consecutive sequence numbers up to the last one given out, and
  completions that wait to be collected are of executed operations.\<close>

definition queue_ok :: "'st raftLog \<Rightarrow> bool" where
  "queue_ok rl \<longleftrightarrow> length (pending_ops (rl_w rl)) \<le> rl_nextSeq rl
    \<and> map wo_seq (pending_ops (rl_w rl)) = [Suc (executed rl) ..< Suc (rl_nextSeq rl)]
    \<and> (\<forall>d\<in>set (sw_done (rl_w rl)). wd_seq d \<le> executed rl)"

definition log_inv :: "('st \<Rightarrow> LogEntry list) \<Rightarrow> 'st raftLog \<Rightarrow> bool" where
  "log_inv ents rl \<longleftrightarrow> (\<exists>P. caches_ok rl (final_ents ents (rl_w rl)) \<and> segs_ok rl (final_ents ents (rl_w rl)) P
    \<and> queue_ok rl \<and> tracked (required P (rl_segs rl)) (executed rl) (pending_ops (rl_w rl)) (ents (rl_storage rl)))"

text \<open>Requirements that agree on every point the execution passes.\<close>

lemma tracked_cong:
  "tracked R t ops es \<Longrightarrow> (\<And>n. n \<in> set (t # map wo_seq ops) \<Longrightarrow> R' n \<subseteq> R n) \<Longrightarrow> tracked R' t ops es"
proof (induction ops arbitrary: t es)
  case (Cons op ops)
  have "R' t \<subseteq> R t" by (rule Cons.prems(2)) simp
  moreover have "tracked R' (wo_seq op) ops (effect op es)"
    using Cons.prems by (intro Cons.IH) simp_all
  ultimately show ?case using Cons.prems(1) by auto
next
  case Nil
  have "R' t \<subseteq> R t" by (rule Nil.prems(2)) simp
  then show ?case using Nil.prems(1) by auto
qed

lemma tracked_snoc:
  "tracked R t (ops @ [op]) es \<longleftrightarrow> tracked R t ops es \<and> R (wo_seq op) \<subseteq> set (effect op (fold effect ops es))"
  by (induction ops arbitrary: t es) auto

lemma tracked_append:
  "tracked R t (xs @ ys) es \<Longrightarrow> tracked R (last (t # map wo_seq xs)) ys (fold effect xs es)"
proof (induction xs arbitrary: t es)
  case (Cons op xs)
  then show ?case by (cases xs) auto
next
  case Nil
  then show ?case by simp
qed

lemma tracked_now: "tracked R t ops es \<Longrightarrow> R t \<subseteq> set es"
  by (cases ops) auto

lemma required_mono:
  assumes "set P' \<subseteq> set P" "segs_within ss' ss"
  shows "required P' ss' n \<subseteq> required P ss n"
  using assms unfolding required_def segs_within_def by fastforce

section \<open>Queueing an operation\<close>

lemma pending_enqueue: "\<not> sw_closed w \<Longrightarrow> pending_ops (enqueue w op) = pending_ops w @ [op]"
  by (simp add: enqueue_def pending_ops_def)

lemma enqueue_frame [simp]:
  "sw_storage (enqueue w op) = sw_storage w" "sw_done (enqueue w op) = sw_done w"
  "sw_ops (enqueue w op) = sw_ops w" "sw_failed (enqueue w op) = sw_failed w"
  "sw_closed (enqueue w op) = sw_closed w" "sw_running (enqueue w op) = sw_running w"
  by (simp_all add: enqueue_def)

lemma final_ents_enqueue: "\<not> sw_closed w \<Longrightarrow> final_ents ents (enqueue w op) = effect op (final_ents ents w)"
  by (simp add: final_ents_def pending_enqueue)

lemma queue_ok_enqueue:
  assumes "queue_ok rl" "\<not> sw_closed (rl_w rl)" "wo_seq op = Suc (rl_nextSeq rl)"
    and "rl_w rl' = enqueue (rl_w rl) op" "rl_nextSeq rl' = Suc (rl_nextSeq rl)"
  shows "queue_ok rl' \<and> executed rl' = executed rl"
proof -
  have "executed rl' = executed rl"
    using assms by (simp add: executed_def pending_enqueue queue_ok_def Suc_diff_le)
  moreover have "executed rl \<le> rl_nextSeq rl" by (simp add: executed_def)
  ultimately show ?thesis
    using assms by (simp add: queue_ok_def pending_enqueue)
qed

lemma seq_le: "queue_ok rl \<Longrightarrow> op \<in> set (pending_ops (rl_w rl)) \<Longrightarrow> executed rl < wo_seq op \<and> wo_seq op \<le> rl_nextSeq rl"
proof -
  assume q: "queue_ok rl" and "op \<in> set (pending_ops (rl_w rl))"
  then have "wo_seq op \<in> set [Suc (executed rl) ..< Suc (rl_nextSeq rl)]"
    unfolding queue_ok_def by (metis image_eqI set_map)
  then show ?thesis by auto
qed

text \<open>The shape every change of the log shares: one more operation in the queue, whose
  effect is the new log; segments that are part of the old ones, or one new segment.\<close>

lemma log_inv_change:
  assumes "log_inv ents rl" "\<not> sw_closed (rl_w rl)"
    and w': "rl_w rl' = enqueue (rl_w rl) op" "rl_nextSeq rl' = Suc (rl_nextSeq rl)" "wo_seq op = Suc (rl_nextSeq rl)"
    and caches: "caches_ok rl' (effect op (final_ents ents (rl_w rl)))"
    and segs: "\<And>P. segs_ok rl (final_ents ents (rl_w rl)) P \<Longrightarrow>
      segs_ok rl' (effect op (final_ents ents (rl_w rl))) (f P)"
    and req: "\<And>P n. segs_ok rl (final_ents ents (rl_w rl)) P \<Longrightarrow> n \<le> rl_nextSeq rl \<Longrightarrow>
      required (f P) (rl_segs rl') n \<subseteq> required P (rl_segs rl) n"
  shows "log_inv ents rl'"
proof -
  obtain P where P: "segs_ok rl (final_ents ents (rl_w rl)) P" "queue_ok rl"
    "tracked (required P (rl_segs rl)) (executed rl) (pending_ops (rl_w rl)) (ents (rl_storage rl))"
    using assms(1) by (auto simp: log_inv_def)
  note q = queue_ok_enqueue [OF P(2) assms(2) w'(3,1,2)]
  have fe: "final_ents ents (rl_w rl') = effect op (final_ents ents (rl_w rl))"
    using assms(2) w'(1) by (simp add: final_ents_enqueue)
  note s' = segs [OF P(1)]
  have "required (f P) (rl_segs rl') n \<subseteq> set (effect op (final_ents ents (rl_w rl)))" for n
    using s' by (auto simp: required_def segs_ok_def seg_entries_def)
  moreover have "tracked (required (f P) (rl_segs rl')) (executed rl) (pending_ops (rl_w rl)) (ents (rl_storage rl))"
  proof (rule tracked_cong [OF P(3)])
    fix n assume "n \<in> set (executed rl # map wo_seq (pending_ops (rl_w rl)))"
    then have "n \<le> rl_nextSeq rl" using seq_le [OF P(2)] by (auto simp: executed_def)
    then show "required (f P) (rl_segs rl') n \<subseteq> required P (rl_segs rl) n" by (rule req [OF P(1)])
  qed
  ultimately have "tracked (required (f P) (rl_segs rl')) (executed rl') (pending_ops (rl_w rl')) (ents (rl_storage rl'))"
    using q assms(2) w'(1)
    by (simp add: pending_enqueue tracked_snoc rl_storage_def final_ents_def)
  then show ?thesis
    using caches s' q fe by (auto simp: log_inv_def)
qed

section \<open>Every operation keeps the invariant\<close>

definition appendable :: "LogEntry list \<Rightarrow> LogEntry list \<Rightarrow> bool" where
  "appendable es new \<longleftrightarrow> contig new \<and> (es \<noteq> [] \<longrightarrow> new \<noteq> [] \<longrightarrow> first_index new = Suc (last_index es))"

lemma appendable_contig: "contig es \<Longrightarrow> appendable es new \<Longrightarrow> contig (es @ new)"
  by (cases "es = []"; cases "new = []") (auto simp: appendable_def contig_append)

lemma log_append_fields:
  assumes "log_append rl new = (rl', s)" "new \<noteq> []"
  shows "s = Suc (rl_nextSeq rl)" "rl_nextSeq rl' = s"
    "rl_segs rl' = rl_segs rl @ [\<lparr>us_seq = s, us_entries = new\<rparr>]"
    "rl_unstableBytes rl' = rl_unstableBytes rl + commandBytes new"
    "rl_first rl' = (if rl_first rl = 0 then first_index new else rl_first rl)"
    "rl_runs rl' = extend_runs (rl_runs rl) new"
    "rl_last rl' = last_index new" "rl_lastTerm rl' = e_Term (last new)"
    "rl_w rl' = enqueue (rl_w rl) (append_op s new (last_index new))"
    "rl_snapMeta rl' = rl_snapMeta rl" "rl_durable rl' = rl_durable rl"
    "rl_queuedDurable rl' = last_index new"
  using assms nth_last_index [OF assms(2)] last_conv_nth [OF assms(2)]
  by (auto simp: log_append_def nextWriteSeq_def extendRuns_def Let_def nth0_first_index)

lemma effect_append_op [simp]: "effect (append_op s new d) es = es @ new"
  by (simp add: effect.simps append_op_def)

lemma effect_index_op [simp]:
  "effect (index_op s writeTruncateSuffix i d) es = filter (\<lambda>e. e_Index e < i) es"
  "effect (index_op s writeTruncatePrefix i d) es = filter (\<lambda>e. i \<le> e_Index e) es"
  "effect (index_op s writeCommitIndex i d) es = es"
  by (simp_all add: effect.simps index_op_def)

lemma op_seq [simp]: "wo_seq (append_op s new d) = s" "wo_seq (index_op s k i d) = s"
  by (simp_all add: append_op_def index_op_def)

lemma log_append_inv:
  assumes inv: "log_inv ents rl" and open_w: "\<not> sw_closed (rl_w rl)"
    and new: "appendable (final_ents ents (rl_w rl)) new" and r: "log_append rl new = (rl', s)"
  shows "log_inv ents rl'"
proof (cases "new = []")
  case True
  then show ?thesis using r inv by (simp add: log_append_def)
next
  case ne: False
  let ?es = "final_ents ents (rl_w rl)"
  note f = log_append_fields [OF r ne]
  have c: "caches_ok rl ?es" using inv by (auto simp: log_inv_def)
  then have contig: "contig (?es @ new)" using new by (intro appendable_contig) (auto simp: caches_ok_def)
  have z: "rl_first rl = 0 \<longleftrightarrow> ?es = []" using c contig_zero_iff(1) [of ?es] by (auto simp: caches_ok_def)
  show ?thesis
  proof (rule log_inv_change [OF inv open_w f(9), where f = id])
    show "caches_ok rl' (effect (append_op s new (last_index new)) ?es)"
      using c contig ne z by (auto simp: caches_ok_def f runs_of_append)
    show "segs_ok rl' (effect (append_op s new (last_index new)) ?es) (id P)" if "segs_ok rl ?es P" for P
      using that ne by (auto simp: segs_ok_def f sorted_wrt_append less_Suc_eq_le)
    show "required (id P) (rl_segs rl') n \<subseteq> required P (rl_segs rl) n" if "n \<le> rl_nextSeq rl" for P n
      using that by (auto simp: required_def f)
  qed (simp_all add: f)
qed

text \<open>A write that does not touch the log: the hard state or the commit index.\<close>

definition log_enqueue :: "'st raftLog \<Rightarrow> (nat \<Rightarrow> writeOp) \<Rightarrow> 'st raftLog \<times> nat" where
  "log_enqueue rl mk = (case nextWriteSeq rl of (rl, s) \<Rightarrow> (rl\<lparr>rl_w := enqueue (rl_w rl) (mk s)\<rparr>, s))"

lemma log_enqueue_inv:
  assumes inv: "log_inv ents rl" and open_w: "\<not> sw_closed (rl_w rl)"
    and mk: "\<And>s. wo_seq (mk s) = s" "\<And>s es. effect (mk s) es = es"
    and r: "log_enqueue rl mk = (rl', s)"
  shows "log_inv ents rl'"
proof -
  have s: "s = Suc (rl_nextSeq rl)"
    and rl': "rl' = rl\<lparr>rl_nextSeq := s, rl_w := enqueue (rl_w rl) (mk s)\<rparr>"
    using r by (auto simp: log_enqueue_def nextWriteSeq_def Let_def)
  have "caches_ok rl (final_ents ents (rl_w rl))" using inv by (auto simp: log_inv_def)
  then show ?thesis
    using mk
    by (intro log_inv_change [OF inv open_w, where f = id and op = "mk s"])
      (auto simp: rl' s caches_ok_def segs_ok_def required_def snap_term_def intro: le_SucI)
qed

lemma segs_trim:
  assumes "segs_ok rl es P" "contig es"
    and "seg_entries ss' = filter p (seg_entries (rl_segs rl))" "segs_full ss'"
    and "\<exists>a b. map us_seq (rl_segs rl) = a @ map us_seq ss' @ b"
    and "b' = commandBytes (seg_entries ss')"
  shows "segs_ok (rl\<lparr>rl_segs := ss', rl_unstableBytes := b'\<rparr>) (filter p es) (filter p P)"
proof -
  obtain a b where ab: "map us_seq (rl_segs rl) = a @ map us_seq ss' @ b" using assms(5) by blast
  have "sorted_wrt (<) (map us_seq ss')"
    using assms(1) unfolding segs_ok_def ab by (simp add: sorted_wrt_append)
  moreover have "us_seq ` set ss' \<subseteq> us_seq ` set (rl_segs rl)"
    using arg_cong [OF ab, of set] by auto
  then have "\<forall>s\<in>set ss'. us_seq s \<le> rl_nextSeq rl"
    using assms(1) unfolding segs_ok_def by (metis (no_types, lifting) image_iff subset_iff)
  ultimately show ?thesis using assms by (auto simp: segs_ok_def)
qed

text \<open>The snapshot the log starts from: no gap after it, and agreement on the entry it
  ends with when the log still has that entry.\<close>

definition base_ok :: "'st raftLog \<Rightarrow> LogEntry list \<Rightarrow> bool" where
  "base_ok rl es \<longleftrightarrow> (es \<noteq> [] \<longrightarrow> first_index es \<le> Suc (snap_index rl) \<and> snap_index rl \<le> last_index es)
    \<and> (\<forall>e\<in>set es. e_Index e = snap_index rl \<longrightarrow> e_Term e = snap_term rl)"

lemma log_invD:
  assumes "log_inv ents rl"
  shows "caches_ok rl (final_ents ents (rl_w rl))" "queue_ok rl"
  using assms by (auto simp: log_inv_def)

text \<open>Lookups of terms are lookups in the entries.\<close>

lemma termAt_spec:
  assumes "caches_ok rl es" "base_ok rl es" "es \<noteq> []" "first_index es \<le> i" "i \<le> last_index es"
  shows "termAt rl i = Some (e_Term (es ! (i - first_index es)))"
proof -
  have c: "contig es" using assms(1) by (simp add: caches_ok_def)
  note l = contig_lookup [OF c assms(4,5,3)]
  have pos: "0 < first_index es" using c assms(3) by (simp add: contig_iff)
  show ?thesis
  proof (cases "i = snap_index rl")
    case True
    then have "e_Term (es ! (i - first_index es)) = snap_term rl"
      using assms(2) l by (auto simp: base_ok_def)
    then show ?thesis using True pos assms(4) by (simp add: termAt_def)
  next
    case False
    then show ?thesis
      using run_scan_runs_of [OF c assms(4,5,3)] assms(1,4,5) pos
      by (auto simp: termAt_def caches_ok_def runIndexFor_def)
  qed
qed

lemma termAt_none:
  assumes "caches_ok rl es" "i \<noteq> 0" "i \<noteq> snap_index rl" "es = [] \<or> i < first_index es \<or> last_index es < i"
  shows "termAt rl i = None"
  using assms by (auto simp: termAt_def caches_ok_def)

lemma lastIndexOfTerm_spec:
  assumes "caches_ok rl es"
  shows "lastIndexOfTerm rl t = (case max_index_of_term es t of
      Some i \<Rightarrow> Some i
    | None \<Rightarrow> if es = [] \<and> snap_index rl \<noteq> 0 \<and> snap_term rl = t then Some (snap_index rl) else None)"
  using assms contig_zero_iff(1) [of es] term_scan_runs_of [of es t]
  by (auto simp: lastIndexOfTerm_def caches_ok_def split: option.splits)

text \<open>The two truncations.\<close>

lemma dropUnstableFrom_segs:
  assumes "segs_ok rl es P" "contig es" "dropUnstableFrom rl i = rl'"
  shows "segs_ok rl' (filter (\<lambda>e. e_Index e < i) es) (filter (\<lambda>e. e_Index e < i) P)
    \<and> segs_within (rl_segs rl') (rl_segs rl)"
proof -
  obtain ss b where d: "drop_from i (rev (rl_segs rl)) (rl_unstableBytes rl) = (ss, b)" by (metis surj_pair)
  have c: "contig (seg_entries (rl_segs rl))" and full: "segs_full (rl_segs rl)"
    using assms(1,2) by (auto simp: segs_ok_def dest: contig_suffix)
  note sp = drop_from_spec [OF c full d]
  have rl': "rl' = rl\<lparr>rl_segs := rev ss, rl_unstableBytes := b\<rparr>"
    using assms(3) d by (simp add: dropUnstableFrom_def)
  have "map us_seq (rl_segs rl) = [] @ map us_seq (rev ss) @ drop (length ss) (map us_seq (rl_segs rl))"
    using sp by (metis append_Nil append_take_drop_id)
  then have ex: "\<exists>a b. map us_seq (rl_segs rl) = a @ map us_seq (rev ss) @ b" by blast
  have sp': "seg_entries (rev ss) = filter (\<lambda>e. e_Index e < i) (seg_entries (rl_segs rl))" "segs_full (rev ss)"
    "b = commandBytes (seg_entries (rev ss))" "segs_within (rev ss) (rl_segs rl)"
    using sp assms(1) by (simp_all add: segs_ok_def)
  then show ?thesis unfolding rl' using segs_trim [OF assms(1,2) sp'(1,2) ex sp'(3)] by simp
qed

lemma dropUnstableBelow_segs:
  assumes "segs_ok rl es P" "contig es" "dropUnstableBelow rl i = rl'"
  shows "segs_ok rl' (filter (\<lambda>e. i \<le> e_Index e) es) (filter (\<lambda>e. i \<le> e_Index e) P)
    \<and> segs_within (rl_segs rl') (rl_segs rl)"
proof -
  obtain ss b where d: "drop_below i (rl_segs rl) (rl_unstableBytes rl) = (ss, b)" by (metis surj_pair)
  have c: "contig (seg_entries (rl_segs rl))" and full: "segs_full (rl_segs rl)"
    using assms(1,2) by (auto simp: segs_ok_def dest: contig_suffix)
  note sp = drop_below_spec [OF c full d]
  have rl': "rl' = rl\<lparr>rl_segs := ss, rl_unstableBytes := b\<rparr>"
    using assms(3) d by (simp add: dropUnstableBelow_def)
  have "map us_seq (rl_segs rl) =
      take (length (rl_segs rl) - length ss) (map us_seq (rl_segs rl)) @ map us_seq ss @ []"
    using sp by (metis append_Nil2 append_take_drop_id)
  then have ex: "\<exists>a b. map us_seq (rl_segs rl) = a @ map us_seq (ss) @ b" by blast
  have sp': "seg_entries (ss) = filter (\<lambda>e. i \<le> e_Index e) (seg_entries (rl_segs rl))" "segs_full (ss)"
    "b = commandBytes (seg_entries (ss))" "segs_within (ss) (rl_segs rl)"
    using sp assms(1) by (simp_all add: segs_ok_def)
  then show ?thesis unfolding rl' using segs_trim [OF assms(1,2) sp'(1,2) ex sp'(3)] by simp
qed

lemma truncateSuffix_fields:
  assumes "truncateSuffix rl i = Ok rl'"
  obtains t where "(if rl_first rl < i \<and> 0 < i - 1 then termAt rl (i - 1) else Some (snap_term rl)) = Some t"
    "rl_segs rl' = rl_segs (dropUnstableFrom rl i)" "rl_unstableBytes rl' = rl_unstableBytes (dropUnstableFrom rl i)"
    "rl_nextSeq rl' = Suc (rl_nextSeq rl)" "rl_snapMeta rl' = rl_snapMeta rl" "rl_durable rl' = rl_durable rl"
    "rl_w rl' = enqueue (rl_w rl) (index_op (Suc (rl_nextSeq rl)) writeTruncateSuffix i (rl_queuedDurable rl'))"
    "rl_queuedDurable rl' = (if 0 < i \<and> i - 1 < rl_queuedDurable rl then i - 1 else rl_queuedDurable rl)"
    "rl_first rl' = (if i \<le> rl_first rl then 0 else rl_first rl)"
    "rl_last rl' = (if i \<le> rl_first rl then 0 else i - 1)"
    "rl_lastTerm rl' = (if i \<le> rl_first rl then snap_term rl else t)"
    "rl_runs rl' = (if i \<le> rl_first rl then [] else rl_runs (truncateRunsFrom rl i))"
  using assms
  by (auto simp: truncateSuffix_def Let_def nextWriteSeq_def dropUnstableFrom_def truncateRunsFrom_def
      snap_term_def split: option.splits prod.splits if_splits)

lemma required_filter:
  "segs_within ss' ss \<Longrightarrow> required (filter p P) ss' n \<subseteq> required P ss n"
  by (rule required_mono) auto

lemma segs_ok_cong:
  assumes "segs_ok rl es P" "rl_segs rl' = rl_segs rl" "rl_unstableBytes rl' = rl_unstableBytes rl"
    and "rl_nextSeq rl \<le> rl_nextSeq rl'"
  shows "segs_ok rl' es P"
  using assms by (auto simp: segs_ok_def)

lemma dropUnstable_frame [simp]:
  "rl_nextSeq (dropUnstableFrom rl i) = rl_nextSeq rl" "rl_nextSeq (dropUnstableBelow rl i) = rl_nextSeq rl"
  by (simp_all add: dropUnstableFrom_def dropUnstableBelow_def split: prod.splits)

text \<open>The log is cut before \<open>i\<close>, which is one of its indices or one past them.\<close>

lemma truncateSuffix_caches:
  assumes c: "caches_ok rl es" and r: "truncateSuffix rl i = Ok rl'"
    and i: "es \<noteq> []" "first_index es \<le> i" "i \<le> Suc (last_index es)"
  shows "caches_ok rl' (filter (\<lambda>e. e_Index e < i) es)"
  using r
proof (rule truncateSuffix_fields)
  assume g: "rl_first rl' = (if i \<le> rl_first rl then 0 else rl_first rl)"
    "rl_last rl' = (if i \<le> rl_first rl then 0 else i - 1)"
    "rl_runs rl' = (if i \<le> rl_first rl then [] else rl_runs (truncateRunsFrom rl i))"
  have cg: "contig es" and fi: "rl_first rl = first_index es" using c by (simp_all add: caches_ok_def)
  have t: "filter (\<lambda>e. e_Index e < i) es = take (i - first_index es) es" using cg by (rule contig_filter_less)
  show ?thesis
  proof (cases "i \<le> first_index es")
    case True
    then show ?thesis using fi by (simp add: caches_ok_def t g)
  next
    case False
    let ?k = "i - first_index es"
    have k: "0 < ?k" "?k \<le> length es" using False i contig_last [OF cg i(1)] by simp_all
    have ne: "take ?k es \<noteq> []" using k i(1) by simp
    have "last_index (take ?k es) = i - 1"
      using contig_last [OF contig_take [OF cg] ne] k False by simp
    moreover have "rl_runs (truncateRunsFrom rl i) = runs_of (take ?k es)"
      using runs_of_take [OF cg, of i] c by (simp add: truncateRunsFrom_def caches_ok_def)
    ultimately show ?thesis
      using False fi k contig_take [OF cg] by (simp add: caches_ok_def g t)
  qed
qed

lemma truncateSuffix_inv:
  assumes inv: "log_inv ents rl" and open_w: "\<not> sw_closed (rl_w rl)" and r: "truncateSuffix rl i = Ok rl'"
    and i: "final_ents ents (rl_w rl) \<noteq> []" "first_index (final_ents ents (rl_w rl)) \<le> i"
      "i \<le> Suc (last_index (final_ents ents (rl_w rl)))"
  shows "log_inv ents rl'"
  using r
proof (rule truncateSuffix_fields)
  let ?es = "final_ents ents (rl_w rl)"
  assume f: "rl_segs rl' = rl_segs (dropUnstableFrom rl i)" "rl_unstableBytes rl' = rl_unstableBytes (dropUnstableFrom rl i)"
    "rl_nextSeq rl' = Suc (rl_nextSeq rl)"
    "rl_w rl' = enqueue (rl_w rl) (index_op (Suc (rl_nextSeq rl)) writeTruncateSuffix i (rl_queuedDurable rl'))"
  have c: "caches_ok rl ?es" using inv by (rule log_invD)
  then have cg: "contig ?es" by (simp add: caches_ok_def)
  show ?thesis
  proof (rule log_inv_change [OF inv open_w f(4,3), where f = "filter (\<lambda>e. e_Index e < i)"])
    show "segs_ok rl' (effect (index_op (Suc (rl_nextSeq rl)) writeTruncateSuffix i (rl_queuedDurable rl')) ?es)
        (filter (\<lambda>e. e_Index e < i) P)" if "segs_ok rl ?es P" for P
      using dropUnstableFrom_segs [OF that cg refl, of i] by (auto intro: segs_ok_cong simp: f)
    show "required (filter (\<lambda>e. e_Index e < i) P) (rl_segs rl') n \<subseteq> required P (rl_segs rl) n"
      if "segs_ok rl ?es P" for P n
      using dropUnstableFrom_segs [OF that cg refl, of i] by (intro required_filter) (simp add: f)
  qed (simp_all add: truncateSuffix_caches [OF c r i])
qed

lemma truncateSuffix_term_ok:
  assumes c: "caches_ok rl es" and base: "base_ok rl es" and r: "truncateSuffix rl i = Ok rl'"
    and i: "es \<noteq> []" "first_index es \<le> i" "i \<le> Suc (last_index es)"
  shows "term_ok rl' (filter (\<lambda>e. e_Index e < i) es)"
  using r
proof (rule truncateSuffix_fields)
  fix t assume t: "(if rl_first rl < i \<and> 0 < i - 1 then termAt rl (i - 1) else Some (snap_term rl)) = Some t"
    and g: "rl_lastTerm rl' = (if i \<le> rl_first rl then snap_term rl else t)" "rl_snapMeta rl' = rl_snapMeta rl"
  have cg: "contig es" and fi: "rl_first rl = first_index es" using c by (simp_all add: caches_ok_def)
  have f: "filter (\<lambda>e. e_Index e < i) es = take (i - first_index es) es" using cg by (rule contig_filter_less)
  show ?thesis
  proof (cases "i \<le> first_index es")
    case True
    then show ?thesis using fi by (simp add: term_ok_def f g snap_term_def)
  next
    case False
    let ?k = "i - first_index es"
    have pos: "0 < first_index es" using cg i(1) by (simp add: contig_iff)
    have k: "0 < ?k" "?k \<le> length es" using False i contig_last [OF cg i(1)] by simp_all
    have "termAt rl (i - 1) = Some (e_Term (es ! (?k - 1)))"
      using termAt_spec [OF c base i(1), of "i - 1"] False i(3) by (simp add: diff_diff_left)
    moreover have "last (take ?k es) = es ! (?k - 1)" using k i(1) by (simp add: last_conv_nth min_absorb2)
    ultimately have "t = e_Term (last (take ?k es))" using t False pos fi by (auto split: if_splits)
    then show ?thesis using False fi k i(1) by (simp add: term_ok_def g f)
  qed
qed

lemma truncatePrefix_fields:
  assumes "truncatePrefix rl i = rl'" "\<not> (rl_first rl \<noteq> 0 \<and> i \<le> rl_first rl)"
  shows "rl_segs rl' = rl_segs (dropUnstableBelow rl i)" "rl_unstableBytes rl' = rl_unstableBytes (dropUnstableBelow rl i)"
    "rl_nextSeq rl' = Suc (rl_nextSeq rl)" "rl_snapMeta rl' = rl_snapMeta rl" "rl_durable rl' = rl_durable rl"
    "rl_w rl' = enqueue (rl_w rl) (index_op (Suc (rl_nextSeq rl)) writeTruncatePrefix i (rl_queuedDurable rl'))"
    "rl_queuedDurable rl' = (if rl_last rl < i \<and> 0 < i \<and> i - 1 < rl_queuedDurable rl then i - 1 else rl_queuedDurable rl)"
    "rl_first rl' = (if rl_last rl < i then 0 else i)" "rl_last rl' = (if rl_last rl < i then 0 else rl_last rl)"
    "rl_lastTerm rl' = (if rl_last rl < i then snap_term rl else rl_lastTerm rl)"
    "rl_runs rl' = (if rl_last rl < i then [] else runs_below (rl_runs rl) i)"
proof -
  obtain ss b where d: "drop_below i (rl_segs rl) (rl_unstableBytes rl) = (ss, b)" by (metis surj_pair)
  have g: "(rl_first rl \<noteq> 0 \<and> i \<le> rl_first rl) = False" using assms(2) by simp
  note u = assms(1) [symmetric] truncatePrefix_def dropUnstableBelow_def
  show "rl_segs rl' = rl_segs (dropUnstableBelow rl i)" "rl_unstableBytes rl' = rl_unstableBytes (dropUnstableBelow rl i)"
    "rl_nextSeq rl' = Suc (rl_nextSeq rl)" "rl_snapMeta rl' = rl_snapMeta rl" "rl_durable rl' = rl_durable rl"
    "rl_w rl' = enqueue (rl_w rl) (index_op (Suc (rl_nextSeq rl)) writeTruncatePrefix i (rl_queuedDurable rl'))"
    "rl_queuedDurable rl' = (if rl_last rl < i \<and> 0 < i \<and> i - 1 < rl_queuedDurable rl then i - 1 else rl_queuedDurable rl)"
    "rl_first rl' = (if rl_last rl < i then 0 else i)" "rl_last rl' = (if rl_last rl < i then 0 else rl_last rl)"
    "rl_lastTerm rl' = (if rl_last rl < i then snap_term rl else rl_lastTerm rl)"
    "rl_runs rl' = (if rl_last rl < i then [] else runs_below (rl_runs rl) i)"
    unfolding u g if_False d
    by (simp_all add: Let_def nextWriteSeq_def truncateRunsBelow_runs snap_term_def)
qed

lemma truncatePrefix_caches:
  assumes c: "caches_ok rl es" and r: "truncatePrefix rl i = rl'" "\<not> (rl_first rl \<noteq> 0 \<and> i \<le> rl_first rl)"
  shows "caches_ok rl' (filter (\<lambda>e. i \<le> e_Index e) es)"
proof -
  note f = truncatePrefix_fields [OF r]
  have cg: "contig es" and fi: "rl_first rl = first_index es" "rl_last rl = last_index es"
    using c by (simp_all add: caches_ok_def)
  have d: "filter (\<lambda>e. i \<le> e_Index e) es = drop (i - first_index es) es" using cg by (rule contig_filter_ge)
  show ?thesis
  proof (cases "last_index es < i \<or> es = []")
    case True
    then have "drop (i - first_index es) es = []" using contig_last [OF cg] by (cases "es = []") auto
    then show ?thesis using True fi c by (auto simp: caches_ok_def d f snap_term_def runs_below_def)
  next
    case False
    then have ne: "es \<noteq> []" and i: "first_index es < i" "i \<le> last_index es"
      using r(2) fi contig_zero_iff(1) [OF cg] by auto
    let ?k = "i - first_index es"
    have k: "?k < length es" using contig_last [OF cg ne] i by simp
    have "first_index (drop ?k es) = i"
      using k i nth0_first_index [of "drop ?k es"] contig_from_nth [of "first_index es" es ?k] cg ne
      by (simp add: contig_iff)
    moreover have "last_index (drop ?k es) = last_index es" "last (drop ?k es) = last es"
      using k ne by (simp_all add: last_index_def)
    ultimately show ?thesis
      using runs_of_drop [OF cg _ i(2) ne] i k fi c ne contig_drop [OF cg]
      by (auto simp: caches_ok_def d f)
  qed
qed

lemma truncatePrefix_inv:
  assumes inv: "log_inv ents rl" and open_w: "\<not> sw_closed (rl_w rl)" and r: "truncatePrefix rl i = rl'"
  shows "log_inv ents rl' \<and> final_ents ents (rl_w rl') = filter (\<lambda>e. i \<le> e_Index e) (final_ents ents (rl_w rl))"
proof -
  let ?es = "final_ents ents (rl_w rl)"
  have c: "caches_ok rl ?es" using inv by (rule log_invD)
  then have cg: "contig ?es" and fi: "rl_first rl = first_index ?es" by (simp_all add: caches_ok_def)
  show ?thesis
  proof (cases "rl_first rl \<noteq> 0 \<and> i \<le> rl_first rl")
    case True
    then have "filter (\<lambda>e. i \<le> e_Index e) ?es = ?es" using cg fi by (simp add: contig_filter_ge)
    then show ?thesis using True r inv by (auto simp: truncatePrefix_def)
  next
    case False
    note f = truncatePrefix_fields [OF r False]
    have "log_inv ents rl'"
    proof (rule log_inv_change [OF inv open_w f(6,3), where f = "filter (\<lambda>e. i \<le> e_Index e)"])
      show "segs_ok rl' (effect (index_op (Suc (rl_nextSeq rl)) writeTruncatePrefix i (rl_queuedDurable rl')) ?es)
          (filter (\<lambda>e. i \<le> e_Index e) P)" if "segs_ok rl ?es P" for P
        using dropUnstableBelow_segs [OF that cg refl, of i] by (auto intro: segs_ok_cong simp: f)
      show "required (filter (\<lambda>e. i \<le> e_Index e) P) (rl_segs rl') n \<subseteq> required P (rl_segs rl) n"
        if "segs_ok rl ?es P" for P n
        using dropUnstableBelow_segs [OF that cg refl, of i] by (intro required_filter) (simp add: f)
    qed (simp_all add: truncatePrefix_caches [OF c r False])
    then show ?thesis using f(6) open_w by (simp add: final_ents_enqueue)
  qed
qed

text \<open>Fields of the log that the queue and the segments do not depend on.\<close>

lemma log_inv_cong:
  assumes "log_inv ents rl" "rl_w rl' = rl_w rl" "rl_segs rl' = rl_segs rl"
    "rl_unstableBytes rl' = rl_unstableBytes rl" "rl_nextSeq rl' = rl_nextSeq rl"
    and "caches_ok rl (final_ents ents (rl_w rl)) \<Longrightarrow> caches_ok rl' (final_ents ents (rl_w rl))"
  shows "log_inv ents rl'"
  using assms by (auto simp: log_inv_def segs_ok_def queue_ok_def executed_def rl_storage_def)

lemma final_truncateSuffix:
  assumes "truncateSuffix rl i = Ok rl'" "\<not> sw_closed (rl_w rl)"
  shows "final_ents ents (rl_w rl') = filter (\<lambda>e. e_Index e < i) (final_ents ents (rl_w rl))"
  using assms(1) by (rule truncateSuffix_fields) (simp add: final_ents_enqueue assms(2))

text \<open>The last step of \<open>installSnapshot\<close>: the new base.\<close>

lemma rebase_inv:
  assumes inv: "log_inv ents rl"
    and r: "rl' = (if rl_last rl = 0
      then rl\<lparr>rl_snapMeta := meta, rl_first := 0, rl_lastTerm := sm_LastIncludedTerm meta, rl_runs := []\<rparr>
      else rl\<lparr>rl_snapMeta := meta\<rparr>)"
  shows "log_inv ents rl'" "rl_w rl' = rl_w rl" "rl_snapMeta rl' = meta"
proof -
  have c: "caches_ok rl (final_ents ents (rl_w rl))" using inv by (rule log_invD)
  then have z: "rl_last rl = 0 \<longleftrightarrow> final_ents ents (rl_w rl) = []"
    using contig_zero_iff(2) [of "final_ents ents (rl_w rl)"] by (simp add: caches_ok_def)
  have "caches_ok rl' (final_ents ents (rl_w rl))"
    using c z by (auto simp: r caches_ok_def snap_term_def)
  then show "log_inv ents rl'" by (intro log_inv_cong [OF inv]) (simp_all add: r)
qed (simp_all add: r)

lemma installSnapshot_split:
  "log_installSnapshot rl meta =
    obind (if termAt rl (sm_LastIncludedIndex meta) = Some (sm_LastIncludedTerm meta)
           then Ok (truncatePrefix rl (Suc (sm_LastIncludedIndex meta)))
           else if rl_first rl \<noteq> 0 then truncateSuffix rl (rl_first rl) else Ok rl)
      (\<lambda>rl. Ok (if rl_last rl = 0
        then rl\<lparr>rl_snapMeta := meta, rl_first := 0, rl_lastTerm := sm_LastIncludedTerm meta, rl_runs := []\<rparr>
        else rl\<lparr>rl_snapMeta := meta\<rparr>))"
  by (simp add: log_installSnapshot_def Let_def)

lemma truncateSuffix_all: "\<exists>rl'. truncateSuffix rl (rl_first rl) = Ok rl'"
  by (auto simp: truncateSuffix_def Let_def nextWriteSeq_def truncateRunsFrom_def dropUnstableFrom_def
      split: prod.splits)

text \<open>A snapshot the log agrees with leaves a log that starts right after it.\<close>

lemma agree_base:
  assumes c: "caches_ok rl es" and base: "base_ok rl es" and S: "0 < S" "termAt rl S = Some T"
    and ne: "filter (\<lambda>e. Suc S \<le> e_Index e) es \<noteq> []"
  shows "first_index (filter (\<lambda>e. Suc S \<le> e_Index e) es) = Suc S"
proof -
  have cg: "contig es" using c by (simp add: caches_ok_def)
  have es: "es \<noteq> []" using ne by auto
  have d: "filter (\<lambda>e. Suc S \<le> e_Index e) es = drop (Suc S - first_index es) es" using cg by (rule contig_filter_ge)
  have le: "first_index es \<le> Suc S"
  proof (cases "S = snap_index rl")
    case True
    then show ?thesis using base es by (simp add: base_ok_def)
  next
    case False
    then have "first_index es \<le> S" using S c by (auto simp: termAt_def caches_ok_def split: if_splits)
    then show ?thesis by simp
  qed
  have k: "Suc S - first_index es < length es" using ne d by simp
  then have "e_Index (es ! (Suc S - first_index es)) = Suc S"
    using contig_from_nth [of "first_index es" es "Suc S - first_index es"] cg es le by (simp add: contig_iff)
  then show ?thesis using k nth0_first_index [of "drop (Suc S - first_index es) es"] by (simp add: d)
qed

text \<open>Installing a snapshot always succeeds; the log keeps what follows the snapshot when
  it agrees with it and nothing otherwise.\<close>

lemma log_installSnapshot_inv:
  assumes inv: "log_inv ents rl" and open_w: "\<not> sw_closed (rl_w rl)"
    and base: "base_ok rl (final_ents ents (rl_w rl))" and S: "0 < sm_LastIncludedIndex meta"
  obtains rl' where "log_installSnapshot rl meta = Ok rl'" "log_inv ents rl'"
    "final_ents ents (rl_w rl') =
      (if termAt rl (sm_LastIncludedIndex meta) = Some (sm_LastIncludedTerm meta)
       then filter (\<lambda>e. Suc (sm_LastIncludedIndex meta) \<le> e_Index e) (final_ents ents (rl_w rl)) else [])"
    "rl_snapMeta rl' = meta" "base_ok rl' (final_ents ents (rl_w rl'))"
proof -
  let ?es = "final_ents ents (rl_w rl)" and ?S = "sm_LastIncludedIndex meta"
  let ?keep = "termAt rl ?S = Some (sm_LastIncludedTerm meta)"
  have c: "caches_ok rl ?es" using inv by (rule log_invD)
  then have cg: "contig ?es" and fi: "rl_first rl = first_index ?es" by (simp_all add: caches_ok_def)
  have nil: "rl_first rl = 0 \<longleftrightarrow> ?es = []" using contig_zero_iff(1) [OF cg] fi by simp
  let ?r = "if ?keep then Ok (truncatePrefix rl (Suc ?S))
    else if rl_first rl \<noteq> 0 then truncateSuffix rl (rl_first rl) else Ok rl"
  obtain rl1 where rl1: "?r = Ok rl1" "log_inv ents rl1"
    "final_ents ents (rl_w rl1) = (if ?keep then filter (\<lambda>e. Suc ?S \<le> e_Index e) ?es else [])"
  proof (cases ?keep)
    case True
    then show thesis using that truncatePrefix_inv [OF inv open_w refl, of "Suc ?S"] by simp
  next
    case False
    obtain rl2 where t: "truncateSuffix rl (rl_first rl) = Ok rl2" using truncateSuffix_all by blast
    have "log_inv ents rl2" "final_ents ents (rl_w rl2) = []" if "?es \<noteq> []"
      using truncateSuffix_inv [OF inv open_w t that] final_truncateSuffix [OF t open_w]
        contig_first_le_last [OF cg] fi contig_filter_less [OF cg] by simp_all
    then show thesis using that False t nil inv by (cases "?es = []") auto
  qed
  define rl' where "rl' = (if rl_last rl1 = 0
      then rl1\<lparr>rl_snapMeta := meta, rl_first := 0, rl_lastTerm := sm_LastIncludedTerm meta, rl_runs := []\<rparr>
      else rl1\<lparr>rl_snapMeta := meta\<rparr>)"
  note rb = rebase_inv [OF rl1(2) rl'_def]
  have sn: "snap_index rl' = ?S" using rb(3) by (simp add: snap_index_def)
  have "base_ok rl' (final_ents ents (rl_w rl1))"
  proof (cases "final_ents ents (rl_w rl1) = []")
    case False
    then have k: ?keep and fe: "final_ents ents (rl_w rl1) = filter (\<lambda>e. Suc ?S \<le> e_Index e) ?es"
      using rl1(3) by (auto split: if_splits)
    have "contig (final_ents ents (rl_w rl1))" using log_invD(1) [OF rl1(2)] by (simp add: caches_ok_def)
    then show ?thesis
      using agree_base [OF c base S k] False contig_first_le_last unfolding base_ok_def sn fe by fastforce
  qed (simp add: base_ok_def)
  then show thesis
    using that [of rl'] rl1 rb by (simp add: installSnapshot_split rl'_def [symmetric])
qed

section \<open>Completions and the writer's steps\<close>

lemma release_required:
  assumes "m \<le> n"
  shows "required (P @ seg_entries (takeWhile (\<lambda>s. us_seq s \<le> m) ss)) (dropWhile (\<lambda>s. us_seq s \<le> m) ss) n
    \<subseteq> required P ss n"
proof -
  have "us_seq s \<le> n \<and> s \<in> set ss" if "s \<in> set (takeWhile (\<lambda>s. us_seq s \<le> m) ss)" for s
    using set_takeWhileD [OF that] assms by simp
  moreover have "s \<in> set ss" if "s \<in> set (dropWhile (\<lambda>s. us_seq s \<le> m) ss)" for s
    using set_dropWhileD [OF that] .
  ultimately show ?thesis by (fastforce simp: required_def seg_entries_def)
qed

lemma stabilize_inv:
  assumes inv: "log_inv ents rl" and d: "wd_seq d \<le> executed rl"
  shows "log_inv ents (stabilize rl d) \<and> rl_w (stabilize rl d) = rl_w rl"
proof (cases "wd_err d = None")
  case False
  then show ?thesis using inv by (simp add: stabilize_def)
next
  case True
  let ?ss = "dropWhile (\<lambda>s. us_seq s \<le> wd_seq d) (rl_segs rl)"
  let ?rel = "takeWhile (\<lambda>s. us_seq s \<le> wd_seq d) (rl_segs rl)"
  obtain P where P: "segs_ok rl (final_ents ents (rl_w rl)) P"
    "tracked (required P (rl_segs rl)) (executed rl) (pending_ops (rl_w rl)) (ents (rl_storage rl))"
    and q: "queue_ok rl" and c: "caches_ok rl (final_ents ents (rl_w rl))"
    using inv by (auto simp: log_inv_def)
  have st: "stabilize rl d = rl\<lparr>rl_durable := wd_durableAfter d, rl_segs := ?ss,
      rl_unstableBytes := rl_unstableBytes rl - commandBytes (seg_entries ?rel)\<rparr>"
    using True by (simp add: stabilize_def release_segs_spec)
  have split: "seg_entries (rl_segs rl) = seg_entries ?rel @ seg_entries ?ss"
    by (simp add: seg_entries_simps(3) [symmetric])
  have "sorted_wrt (<) (map us_seq (?rel @ ?ss))" using P(1) by (simp add: segs_ok_def)
  then have sorted: "sorted_wrt (<) (map us_seq ?ss)" unfolding map_append sorted_wrt_append by blast
  have full: "segs_full ?ss"
    using P(1) by (auto simp: segs_ok_def segs_full_def dest: set_dropWhileD)
  have "segs_ok (stabilize rl d) (final_ents ents (rl_w rl)) (P @ seg_entries ?rel)"
    using P(1) split sorted full by (auto simp: segs_ok_def st dest: set_dropWhileD)
  moreover have "tracked (required (P @ seg_entries ?rel) ?ss) (executed rl) (pending_ops (rl_w rl)) (ents (rl_storage rl))"
  proof (rule tracked_cong [OF P(2)])
    fix n assume "n \<in> set (executed rl # map wo_seq (pending_ops (rl_w rl)))"
    then have "wd_seq d \<le> n" using d seq_le [OF q] by force
    then show "required (P @ seg_entries ?rel) ?ss n \<subseteq> required P (rl_segs rl) n" by (rule release_required)
  qed
  moreover have "caches_ok (stabilize rl d) (final_ents ents (rl_w rl))" "queue_ok (stabilize rl d)"
    "executed (stabilize rl d) = executed rl" "rl_storage (stabilize rl d) = rl_storage rl"
    "rl_w (stabilize rl d) = rl_w rl" "rl_segs (stabilize rl d) = ?ss"
    using c q by (simp_all add: st caches_ok_def queue_ok_def executed_def rl_storage_def snap_term_def)
  ultimately show ?thesis unfolding log_inv_def by metis
qed

text \<open>A change of the writer that moves no operation and no entry.\<close>

lemma log_inv_writer_cong:
  assumes "log_inv ents rl" "pending_ops w = pending_ops (rl_w rl)" "sw_storage w = sw_storage (rl_w rl)"
    and "set (sw_done w) \<subseteq> set (sw_done (rl_w rl))"
  shows "log_inv ents (rl\<lparr>rl_w := w\<rparr>)"
proof -
  have "final_ents ents w = final_ents ents (rl_w rl)" using assms by (simp add: final_ents_def)
  moreover have "queue_ok (rl\<lparr>rl_w := w\<rparr>)"
    using log_invD(2) [OF assms(1)] assms(2) subsetD [OF assms(4)] by (simp add: queue_ok_def executed_def)
  ultimately show ?thesis
    using assms(1-3) by (auto simp: log_inv_def caches_ok_def segs_ok_def executed_def rl_storage_def snap_term_def)
qed

lemma takeDone_inv:
  assumes "log_inv ents rl" "takeDone (rl_w rl) = (done, w)"
  shows "log_inv ents (rl\<lparr>rl_w := w\<rparr>) \<and> (\<forall>d\<in>set done. wd_seq d \<le> executed (rl\<lparr>rl_w := w\<rparr>))"
proof -
  have w: "w = (rl_w rl)\<lparr>sw_done := []\<rparr>" "done = sw_done (rl_w rl)" using assms(2) by (auto simp: takeDone_def)
  have "pending_ops w = pending_ops (rl_w rl)" by (simp add: w pending_ops_def)
  then show ?thesis
    using log_inv_writer_cong [OF assms(1), of w] log_invD(2) [OF assms(1)]
    by (auto simp: w queue_ok_def executed_def)
qed

lemma loop_take_log_inv:
  assumes "log_inv ents rl"
  shows "log_inv ents (rl\<lparr>rl_w := loop_take (rl_w rl)\<rparr>)"
  using loop_take_spec [OF refl, of "rl_w rl"] by (intro log_inv_writer_cong [OF assms]) auto

lemma last_consecutive: "last (n # [Suc n ..< Suc (n + k)]) = n + k"
  by (cases k) simp_all

context storage_contract
begin

lemma loop_execute_log_inv:
  assumes inv: "log_inv ents rl" and wi: "writer_inv ops inv ents (rl_w rl)"
    and ex: "loop_execute (rl_w rl) = Ok w'" and ok: "sw_failed w' = None"
  shows "log_inv ents (rl\<lparr>rl_w := w'\<rparr>)"
proof -
  let ?w = "rl_w rl" and ?rl = "rl\<lparr>rl_w := w'\<rparr>"
  note v = loop_execute_result [OF wi ex]
  have en: "ents (sw_storage w') = fold effect (sw_running ?w) (ents (sw_storage ?w))"
    and dn: "sw_done w' = sw_done ?w @ map (completion None) (sw_running ?w)"
    using v(5) [OF ok] by blast+
  obtain P where P: "segs_ok rl (final_ents ents ?w) P"
    "tracked (required P (rl_segs rl)) (executed rl) (pending_ops ?w) (ents (rl_storage rl))"
    and q: "queue_ok rl" and c: "caches_ok rl (final_ents ents ?w)"
    using inv by (auto simp: log_inv_def)
  let ?k = "length (sw_running ?w)"
  have p: "pending_ops ?w = sw_running ?w @ pending_ops w'" using v(2,3) by (simp add: pending_ops_def)
  have fe: "final_ents ents w' = final_ents ents ?w" by (simp add: final_ents_def p en)
  have e: "executed ?rl = executed rl + ?k" using q by (simp add: executed_def p queue_ok_def)
  have "map wo_seq (sw_running ?w) @ map wo_seq (pending_ops w') = [Suc (executed rl) ..< Suc (rl_nextSeq rl)]"
    using q by (simp add: queue_ok_def p)
  moreover have "[Suc (executed rl) ..< Suc (rl_nextSeq rl)]
      = [Suc (executed rl) ..< Suc (executed rl + ?k)] @ [Suc (executed rl + ?k) ..< Suc (rl_nextSeq rl)]"
  proof -
    have "executed rl + ?k \<le> rl_nextSeq rl" using q by (auto simp: queue_ok_def p executed_def)
    then obtain m where m: "Suc (rl_nextSeq rl) = Suc (executed rl + ?k) + m" by (metis add_Suc le_Suc_ex)
    show ?thesis unfolding m by (rule upt_add_eq_append) simp
  qed
  ultimately have r: "map wo_seq (sw_running ?w) = [Suc (executed rl) ..< Suc (executed rl + ?k)]"
    "map wo_seq (pending_ops w') = [Suc (executed rl + ?k) ..< Suc (rl_nextSeq rl)]"
    by (simp_all add: append_eq_append_conv del: upt_Suc)
  have "queue_ok ?rl"
  proof -
    have "wd_seq d \<le> executed rl + ?k" if "d \<in> set (sw_done w')" for d
    proof (cases "d \<in> set (sw_done ?w)")
      case True
      then show ?thesis using q by (auto simp: queue_ok_def)
    next
      case False
      then have "wd_seq d \<in> set (map wo_seq (sw_running ?w))" using that dn by (auto simp: completion_def)
      then show ?thesis unfolding r(1) by auto
    qed
    then show ?thesis using q r(2) by (auto simp: queue_ok_def e p)
  qed
  moreover have "tracked (required P (rl_segs rl)) (executed ?rl) (pending_ops w') (ents (sw_storage w'))"
    using tracked_append [of _ "executed rl" "sw_running ?w"] P(2) r(1)
    by (simp add: p en e last_consecutive rl_storage_def del: upt_Suc last.simps)
  ultimately show ?thesis
    using P(1) c by (auto simp: log_inv_def fe caches_ok_def segs_ok_def rl_storage_def snap_term_def)
qed

end

end
