(* ===== verification/Raft_Log_Correct.thy ===== *)
theory Raft_Log_Correct
  imports Raft_Log_Inv
begin

text \<open>
  What the log promises its caller over any store that keeps the contract: reading
  gives the entries, whether they are in the store or still queued; an entry at or
  below \<open>stableIndex\<close> is in the store; a node that starts on that store has it.  The
  operations and the writer's own steps are one step relation, \<open>log_step\<close>, and
  \<open>log_state\<close> is its invariant.
\<close>

definition writer_open :: "'st Storage \<Rightarrow> ('st \<Rightarrow> bool) \<Rightarrow> ('st \<Rightarrow> LogEntry list) \<Rightarrow> 'st raftLog \<Rightarrow> bool" where
  "writer_open ops J ents rl \<longleftrightarrow>
    writer_inv ops J ents (rl_w rl) \<and> \<not> sw_closed (rl_w rl) \<and> sw_failed (rl_w rl) = None"

definition log_state :: "'st Storage \<Rightarrow> ('st \<Rightarrow> bool) \<Rightarrow> ('st \<Rightarrow> LogEntry list) \<Rightarrow> 'st raftLog \<Rightarrow> bool" where
  "log_state ops J ents rl \<longleftrightarrow> writer_inv ops J ents (rl_w rl) \<and> log_inv ents rl
    \<and> base_ok rl (final_ents ents (rl_w rl)) \<and> \<not> sw_closed (rl_w rl) \<and> sw_failed (rl_w rl) = None"

lemma log_stateI:
  "log_inv ents rl \<Longrightarrow> writer_open ops J ents rl \<Longrightarrow> base_ok rl (final_ents ents (rl_w rl)) \<Longrightarrow> log_state ops J ents rl"
  by (simp add: log_state_def writer_open_def)

lemma log_stateD:
  assumes "log_state ops J ents rl"
  shows "log_inv ents rl" "writer_open ops J ents rl" "base_ok rl (final_ents ents (rl_w rl))"
    "caches_ok rl (final_ents ents (rl_w rl))" "\<not> sw_closed (rl_w rl)"
  using assms log_invD(1) by (auto simp: log_state_def writer_open_def)

section \<open>Reading entries\<close>

lemma between_eq:
  assumes "contig A" "contig B" "A \<noteq> []" "B \<noteq> []" "lo < hi"
    and "first_index A \<le> lo" "hi \<le> Suc (last_index A)" "first_index B \<le> lo" "hi \<le> Suc (last_index B)"
    and sub: "\<And>e. e \<in> set A \<Longrightarrow> lo \<le> e_Index e \<Longrightarrow> e_Index e < hi \<Longrightarrow> e \<in> set B"
  shows "between lo hi A = between lo hi B"
proof (rule nth_equalityI)
  have s: "between lo hi X = take (hi - lo) (drop (lo - first_index X) X)"
    if "contig X" "X \<noteq> []" "first_index X \<le> lo" "hi \<le> Suc (last_index X)" for X
    using between_slice [OF that(1,2,3) assms(5) that(4)] that contig_last [OF that(1,2)]
    by (auto simp: slice_range_def split: if_splits)
  note sA = s [OF assms(1,3,6,7)] and sB = s [OF assms(2,4,8,9)]
  show "length (between lo hi A) = length (between lo hi B)"
    using assms contig_last [OF assms(1,3)] contig_last [OF assms(2,4)] by (simp add: sA sB)
  fix i assume "i < length (between lo hi A)"
  then have i: "i < hi - lo" "lo - first_index A + i < length A" by (auto simp: sA)
  have at: "X ! (lo - first_index X + i) \<in> set X \<and> e_Index (X ! (lo - first_index X + i)) = lo + i"
    if "contig X" "X \<noteq> []" "first_index X \<le> lo" "hi \<le> Suc (last_index X)" for X
    using contig_lookup [OF that(1), of "lo + i"] that i(1) by simp
  have "A ! (lo - first_index A + i) \<in> set B"
    using at [OF assms(1,3,6,7)] i(1) by (intro sub) auto
  then have "A ! (lo - first_index A + i) = B ! (lo - first_index B + i)"
    using at [OF assms(1,3,6,7)] at [OF assms(2,4,8,9)] by (intro contig_inj [OF assms(2)]) auto
  moreover have "lo - first_index B + i < length B"
    using i(1) assms(4,8,9) contig_last [OF assms(2,4)] by simp
  ultimately show "between lo hi A ! i = between lo hi B ! i"
    using i by (simp add: sA sB)
qed

lemma contig_within:
  assumes "contig D" "set P \<subseteq> set D" "P \<noteq> []"
  shows "first_index D \<le> first_index P \<and> last_index P \<le> last_index D \<and> D \<noteq> []"
proof -
  have "hd P \<in> set D" "last P \<in> set D" using assms(2,3) hd_in_set last_in_set by blast+
  moreover have "e_Index (hd P) = first_index P" "e_Index (last P) = last_index P"
    using assms(3) by (simp_all add: hd_conv_nth nth0_first_index last_index_def)
  ultimately show ?thesis
    using contig_bounds [OF assms(1), of "hd P"] contig_bounds [OF assms(1), of "last P"] by auto
qed

lemma unstable_first_spec:
  "segs_full ss \<Longrightarrow> unstable_first ss = first_index (seg_entries ss)"
  by (cases ss) (auto simp: segs_full_def seg_entries_def nth0_first_index)

text \<open>The entries that are not queued any more are in the store.\<close>

lemma log_inv_parts:
  assumes "log_inv ents rl"
  obtains P where "final_ents ents (rl_w rl) = P @ seg_entries (rl_segs rl)" "segs_full (rl_segs rl)"
    "set P \<subseteq> set (ents (rl_storage rl))" "unstableFirst rl = first_index (seg_entries (rl_segs rl))"
proof -
  obtain P where P: "segs_ok rl (final_ents ents (rl_w rl)) P"
    "tracked (required P (rl_segs rl)) (executed rl) (pending_ops (rl_w rl)) (ents (rl_storage rl))"
    using assms by (auto simp: log_inv_def)
  have "required P (rl_segs rl) (executed rl) \<subseteq> set (ents (rl_storage rl))"
    using P(2) by (cases "pending_ops (rl_w rl)") auto
  then show thesis
    using that P(1) by (auto simp: segs_ok_def required_def unstableFirst_def unstable_first_spec)
qed

text \<open>Entries below the first unstable one are before the segments.\<close>

lemma below_unstable:
  assumes "contig (P @ U)" "e \<in> set (P @ U)" "U = [] \<or> e_Index e < first_index U"
  shows "e \<in> set P"
  using assms contig_bounds [of U e] contig_suffix [of P U] by fastforce

lemma stable_below_unstable:
  assumes "unstableFirst rl \<noteq> 0"
  shows "stableIndex rl < unstableFirst rl"
  using assms by (auto simp: stableIndex_def Let_def)

lemma stable_stored:
  assumes "log_inv ents rl" "e \<in> set (final_ents ents (rl_w rl))" "e_Index e \<le> stableIndex rl"
  shows "e \<in> set (ents (rl_storage rl))"
proof -
  obtain P where P: "final_ents ents (rl_w rl) = P @ seg_entries (rl_segs rl)" "segs_full (rl_segs rl)"
    "set P \<subseteq> set (ents (rl_storage rl))" "unstableFirst rl = first_index (seg_entries (rl_segs rl))"
    using assms(1) by (rule log_inv_parts)
  have cg: "contig (P @ seg_entries (rl_segs rl))"
    using log_invD(1) [OF assms(1)] P(1) by (simp add: caches_ok_def)
  have "seg_entries (rl_segs rl) = [] \<or> e_Index e < first_index (seg_entries (rl_segs rl))"
    using stable_below_unstable [of rl] contig_zero_iff(1) [OF contig_suffix [OF cg]] assms(3) by (auto simp: P(4))
  then show ?thesis using below_unstable [OF cg] assms(2) P by auto
qed

lemma unstable_read:
  assumes "contig (P @ U)" "U \<noteq> []" "first_index U \<le> lo"
  shows "between lo hi (P @ U) = between lo hi U"
proof -
  have "e_Index e < lo" if "e \<in> set P" for e
    using that contig_append_first [OF assms(1)] contig_bounds [OF contig_prefix [OF assms(1)] that] assms(2,3)
    by fastforce
  then have "between lo hi P = []" by (force simp: between_def filter_empty_conv)
  then show ?thesis by (simp add: between_def)
qed

lemma between_split: "contig es \<Longrightarrow> lo \<le> m \<Longrightarrow> m \<le> hi \<Longrightarrow> between lo m es @ between m hi es = between lo hi es"
proof (induction es rule: rev_induct)
  case (snoc e es)
  have "between lo m es @ between m hi es = between lo hi es" using snoc contig_prefix by blast
  moreover have "between m hi es = []" if m: "e_Index e < m"
  proof -
    have "e_Index x < m" if "x \<in> set es" for x
      using contig_bounds [OF contig_prefix [OF snoc.prems(1)] that] contig_append_first [OF snoc.prems(1)] that m
      by (cases "es = []") auto
    then show ?thesis by (force simp: between_def filter_empty_conv)
  qed
  ultimately show ?case using snoc.prems(2,3) by (auto simp: between_def)
qed (simp add: between_def)

context reliable_storage
begin

lemma log_entries_spec:
  assumes inv: "log_inv ents rl" and J: "inv (rl_storage rl)" and o: "sw_ops (rl_w rl) = ops"
    and es: "es = final_ents ents (rl_w rl)" "es \<noteq> []" and r: "first_index es \<le> lo" "lo < hi" "hi \<le> Suc (last_index es)"
  shows "log_entries rl lo hi = Ok (between lo hi es)"
proof -
  obtain P where P: "es = P @ seg_entries (rl_segs rl)" "segs_full (rl_segs rl)"
    "set P \<subseteq> set (ents (rl_storage rl))" "unstableFirst rl = first_index (seg_entries (rl_segs rl))"
    using log_inv_parts [OF inv] es(1) by metis
  let ?U = "seg_entries (rl_segs rl)" and ?D = "ents (rl_storage rl)"
  have cg: "contig es" and c: "rl_first rl = first_index es" "rl_last rl = last_index es"
    using log_invD(1) [OF inv] es(1) by (simp_all add: caches_ok_def)
  have cPU: "contig (P @ ?U)" using cg unfolding P(1) .
  have cU: "contig ?U" and cD: "contig ?D" using contig_suffix [OF cPU] inv_contig [OF J] by simp_all
  have z: "first_index es \<noteq> 0" "first_index ?U = 0 \<longleftrightarrow> ?U = []"
    using contig_zero_iff(1) [OF cg] contig_zero_iff(1) [OF cU] es(2) by simp_all
  have un: "unstableSlice rl a b = between a b ?U" if "a < b" for a b
    using unstable_slice_spec [OF cU P(2) that] by (simp add: unstableSlice_def)
  have rd: "st_GetLogEntries ops (rl_storage rl) lo m = Ok (between lo m es)"
    if m: "lo < m" "m \<le> hi" "?U = [] \<or> m \<le> first_index ?U" for m
  proof -
    have inP: "e \<in> set P" if "e \<in> set es" "e_Index e < m" for e
      using below_unstable [OF cPU] that m(3) unfolding P(1) by fastforce
    have ends: "P \<noteq> []" "first_index P = first_index es" "m \<le> Suc (last_index P)"
    proof -
      have "es ! (lo - first_index es) \<in> set P"
        using contig_lookup [OF cg r(1) _ es(2)] r m by (intro inP) auto
      then show ne: "P \<noteq> []" by auto
      then show "first_index P = first_index es" by (simp add: P(1))
      show "m \<le> Suc (last_index P)"
        using m contig_append_first [OF cPU ne] r by (cases "?U = []") (simp_all add: P(1))
    qed
    have "first_index ?D \<le> first_index P" "last_index P \<le> last_index ?D" "?D \<noteq> []"
      using contig_within [OF cD P(3) ends(1)] by simp_all
    moreover from this have "between lo m es = between lo m ?D"
      using ends r m inP P(3) by (intro between_eq [OF cg cD es(2)]) auto
    ultimately show ?thesis using get_ok [OF J, of lo m] ends r m by simp
  qed
  show ?thesis
  proof (cases "?U = []")
    case True
    then show ?thesis using rd [of hi] r z c o P(4) by (simp add: log_entries_def)
  next
    case U: False
    have hi: "\<not> Suc (last_index es) < hi" using r by simp
    consider "first_index ?U \<le> lo" | "lo < first_index ?U" "first_index ?U < hi" | "hi \<le> first_index ?U"
      by linarith
    then show ?thesis
    proof cases
      case 1
      then show ?thesis
        using U r z c un P(4) unstable_read [OF cPU U 1] hi by (simp add: log_entries_def P(1))
    next
      case 2
      have "between lo hi es = between lo (first_index ?U) es @ between (first_index ?U) hi ?U"
        using between_split [OF cg, of lo "first_index ?U" hi] 2 unstable_read [OF cPU U order_refl]
        by (simp add: P(1))
      then show ?thesis
        using 2 U r z c un P(4) rd [of "first_index ?U"] hi o by (simp add: log_entries_def Let_def)
    next
      case 3
      then show ?thesis using r z c un P(4) rd [of hi] hi o U by (auto simp: log_entries_def Let_def)
    qed
  qed
qed

text \<open>Starting on a store reads it back: the entries are the store's and every cache agrees
  with them.\<close>

lemma loadRuns_loop_spec:
  assumes "inv (rl_storage rl)" "sw_ops (rl_w rl) = ops" "es = ents (rl_storage rl)" "es \<noteq> []"
    and "rl_last rl = last_index es" "first_index es \<le> lo" "rl_runs rl = runs_of (take (lo - first_index es) es)"
  shows "loadRuns_loop rl lo = Ok (rl\<lparr>rl_runs := runs_of es\<rparr>)"
  using assms
proof (induction rl lo rule: loadRuns_loop.induct)
  case (1 rl lo)
  have cg: "contig es" using inv_contig [OF 1(2)] 1(4) by simp
  note l = contig_last [OF cg 1(5)]
  show ?case
  proof (cases "lo \<le> rl_last rl")
    case True
    define hi where "hi = min (lo + loadRuns_batch) (rl_last rl + 1)"
    have hi: "lo < hi" "hi \<le> Suc (last_index es)" using True 1(6) by (auto simp: loadRuns_batch_def hi_def)
    have g: "st_GetLogEntries (sw_ops (rl_w rl)) (rl_storage rl) lo hi = Ok (between lo hi es)"
      using get_ok [OF 1(2), of lo hi] 1 hi by simp
    have b: "between lo hi es = take (hi - lo) (drop (lo - first_index es) es)"
      using between_slice [OF cg 1(5,7) hi] hi l 1(7) by (auto simp: slice_range_def split: if_splits)
    have ne: "length (between lo hi es) \<noteq> 0" using hi l 1(6,7) True by (simp add: b)
    have "take (lo - first_index es) es @ between lo hi es = take (lo + loadRuns_batch - first_index es) es"
    proof -
      have "take (lo - first_index es) es @ between lo hi es = take (hi - first_index es) es"
        using hi(1) 1(7) by (simp add: b take_add [symmetric])
      also have "\<dots> = take (lo + loadRuns_batch - first_index es) es"
        using l 1(6) by (cases "lo + loadRuns_batch \<le> rl_last rl + 1") (simp_all add: hi_def min_def)
      finally show ?thesis .
    qed
    then have "rl_runs (extendRuns rl (between lo hi es)) = runs_of (take (lo + loadRuns_batch - first_index es) es)"
      using 1(8) by (simp add: extendRuns_def runs_of_append)
    then have "loadRuns_loop (extendRuns rl (between lo hi es)) (lo + loadRuns_batch)
        = Ok ((extendRuns rl (between lo hi es))\<lparr>rl_runs := runs_of es\<rparr>)"
      using 1(2-7) ne by (intro 1(1) [OF True]) (simp_all add: extendRuns_def rl_storage_def hi_def)
    then show ?thesis
      using True g ne by (subst loadRuns_loop.simps) (simp add: extendRuns_def hi_def)
  next
    case False
    then have "take (lo - first_index es) es = es" using l 1(6) by simp
    then show ?thesis using False 1(8) by (subst loadRuns_loop.simps) simp
  qed
qed

lemma newRaftLog_spec:
  assumes J: "inv s" and w: "w = newStorageWriter ops s" and sn: "load_snapshot_part (empty_log w) = Ok rl0"
  obtains rl where "newRaftLog w = Ok rl" "log_inv ents rl" "writer_open ops inv ents rl" "final_ents ents (rl_w rl) = ents s"
    "term_ok rl (ents s)" "rl_snapMeta rl = rl_snapMeta rl0" "rl_w rl = w" "rl_durable rl = last_index (ents s)"
proof -
  define l where "l = last_index (ents s)"
  define rl1 where "rl1 = rl0\<lparr>rl_first := first_index (ents s), rl_last := l, rl_durable := l, rl_queuedDurable := l\<rparr>"
  have f: "rl_w rl0 = w" "rl_runs rl0 = []" "rl_segs rl0 = []" "rl_unstableBytes rl0 = 0" "rl_nextSeq rl0 = 0"
    using sn by (auto simp: load_snapshot_part_def empty_log_def split: outcome.splits if_splits prod.splits)
  have cg: "contig (ents s)" using J by (rule inv_contig)
  have wf: "sw_ops w = ops" "sw_storage w = s" "pending_ops w = []" "\<not> sw_closed w" "sw_failed w = None" "sw_done w = []"
    "sw_running w = []"
    by (simp_all add: w newStorageWriter_def pending_ops_def)
  have st: "rl_storage rl0 = s" "rl_storage rl1 = s" using f wf by (simp_all add: rl_storage_def rl1_def)
  define rl where "rl = rl1\<lparr>rl_runs := runs_of (ents s),
    rl_lastTerm := (if ents s = [] then snap_term rl0 else e_Term (last (ents s)))\<rparr>"
  have "newRaftLog w = Ok rl"
  proof (cases "ents s = []")
    case True
    then show ?thesis
      using sn idx_ok [OF J] wf f by (simp add: newRaftLog_def rl_def rl1_def l_def snap_term_def)
  next
    case False
    have "loadRuns_loop rl1 (first_index (ents s)) = Ok (rl1\<lparr>rl_runs := runs_of (ents s)\<rparr>)"
      using J wf f st False by (intro loadRuns_loop_spec) (simp_all add: rl1_def l_def)
    moreover have "0 < l" using contig_zero_iff(2) [OF cg] False by (simp add: l_def)
    ultimately show ?thesis
      using sn idx_ok [OF J] wf f False runs_of_last [OF False]
      by (simp add: newRaftLog_def rl_def rl1_def [symmetric] l_def [symmetric] loadRuns_def last_conv_nth Let_def)
  qed
  moreover have "caches_ok rl (ents s)" "segs_ok rl (ents s) (ents s)" "queue_ok rl" "executed rl = 0" "rl_w rl = w"
    using cg f wf by (simp_all add: rl_def rl1_def l_def caches_ok_def segs_ok_def queue_ok_def executed_def
      seg_entries_def segs_full_def commandBytes_def)
  moreover have "final_ents ents w = ents s" using wf by (simp add: final_ents_def)
  moreover have "term_ok rl (ents s)" "rl_snapMeta rl = rl_snapMeta rl0"
    by (simp_all add: term_ok_def rl_def rl1_def snap_term_def)
  moreover have "rl_segs rl = []" "rl_storage rl = s" "rl_durable rl = last_index (ents s)"
    using f st by (simp_all add: rl_def rl1_def rl_storage_def l_def)
  ultimately show thesis
    using that [of rl] J wf by (auto simp: writer_open_def log_inv_def writer_inv_def required_def)
qed

lemma newRaftLog_Ok:
  assumes "inv s" "newRaftLog (newStorageWriter ops s) = Ok rl"
  shows "log_inv ents rl" "writer_open ops inv ents rl" "final_ents ents (rl_w rl) = ents s" "term_ok rl (ents s)"
    "rl_w rl = newStorageWriter ops s"
proof -
  obtain rl0 where "load_snapshot_part (empty_log (newStorageWriter ops s)) = Ok rl0"
    using assms(2) by (auto simp: newRaftLog_def obind_eq_Ok)
  then obtain rl' where "newRaftLog (newStorageWriter ops s) = Ok rl'" "log_inv ents rl'" "writer_open ops inv ents rl'"
    "final_ents ents (rl_w rl') = ents s" "term_ok rl' (ents s)" "rl_w rl' = newStorageWriter ops s"
    using newRaftLog_spec [OF assms(1) refl] by metis
  then show "log_inv ents rl" "writer_open ops inv ents rl" "final_ents ents (rl_w rl) = ents s" "term_ok rl (ents s)"
    "rl_w rl = newStorageWriter ops s"
    using assms(2) by simp_all
qed

lemma log_entries_one:
  assumes "log_inv ents rl" "writer_open ops inv ents rl"
  shows "log_entries rl i (Suc i) = Ok [e] \<longleftrightarrow> e \<in> set (final_ents ents (rl_w rl)) \<and> e_Index e = i"
proof -
  let ?es = "final_ents ents (rl_w rl)"
  have c: "contig ?es" "rl_first rl = first_index ?es" "rl_last rl = last_index ?es"
    using log_invD(1) [OF assms(1)] by (simp_all add: caches_ok_def)
  show ?thesis
  proof (cases "?es \<noteq> [] \<and> first_index ?es \<le> i \<and> i \<le> last_index ?es")
    case True
    have "log_entries rl i (Suc i) = Ok (between i (Suc i) ?es)"
      using True assms by (intro log_entries_spec) (auto simp: writer_open_def writer_inv_def rl_storage_def)
    moreover have l: "?es ! (i - first_index ?es) \<in> set ?es" "e_Index (?es ! (i - first_index ?es)) = i"
      using contig_lookup [OF c(1), of i] True by auto
    have "between i (Suc i) ?es = [?es ! (i - first_index ?es)]"
    proof -
      have "slice_range ?es (i - first_index ?es) (Suc i - first_index ?es) = Ok (between i (Suc i) ?es)"
        using True c(1) by (intro between_slice) auto
      then show ?thesis
        using True contig_lookup [OF c(1), of i]
        by (auto simp: slice_range_def Suc_diff_le take_Suc_conv_app_nth split: if_splits)
    qed
    ultimately show ?thesis using contig_inj [OF c(1) l(1), of e] l by auto
  next
    case False
    then have "log_entries rl i (Suc i) \<noteq> Ok [e]"
      using c contig_zero_iff [OF c(1)] by (auto simp: log_entries_def Let_def)
    then show ?thesis using False contig_bounds [OF c(1)] by auto
  qed
qed

end

section \<open>The steps of a log\<close>

text \<open>Everything that happens to a log while the node runs, with what each caller makes sure
  of first: entries are appended after the last one, cut after the snapshot and inside
  the log (\<open>handleAppendEntries\<close>), compacted at an index whose term the log knows
  (\<open>maybeSnapshot\<close>), replaced by a received snapshot, and the writer takes and
  executes a batch or has its completions collected.\<close>

inductive log_step :: "'st raftLog \<Rightarrow> 'st raftLog \<Rightarrow> bool" where
  step_append: "contig new \<Longrightarrow> (new \<noteq> [] \<longrightarrow> first_index new = Suc (lastLogIndex rl)) \<Longrightarrow>
    log_append rl new = (rl', s) \<Longrightarrow> log_step rl rl'"
| step_truncate: "snap_index rl < i \<Longrightarrow> i \<le> lastLogIndex rl \<Longrightarrow> truncateSuffix rl i = Ok rl' \<Longrightarrow> log_step rl rl'"
| step_compact: "termAt rl (sm_LastIncludedIndex meta) = Some (sm_LastIncludedTerm meta) \<Longrightarrow>
    snap_index rl \<le> sm_LastIncludedIndex meta \<Longrightarrow> sm_LastIncludedIndex meta \<le> lastLogIndex rl \<Longrightarrow>
    k \<le> Suc (sm_LastIncludedIndex meta) \<Longrightarrow> log_step rl (log_compact rl meta k)"
| step_install: "0 < sm_LastIncludedIndex meta \<Longrightarrow> log_installSnapshot rl meta = Ok rl' \<Longrightarrow> log_step rl rl'"
| step_hard: "log_saveHardState rl hs = (rl', s) \<Longrightarrow> log_step rl rl'"
| step_commit: "log_step rl (log_saveCommitIndex rl i)"
| step_snapshot: "st_SaveSnapshot (sw_ops (rl_w rl)) (rl_storage rl) meta d = (st, Ok ()) \<Longrightarrow>
    log_step rl (rl\<lparr>rl_w := (rl_w rl)\<lparr>sw_storage := st\<rparr>\<rparr>)"
| step_take: "log_step rl (rl\<lparr>rl_w := loop_take (rl_w rl)\<rparr>)"
| step_execute: "loop_execute (rl_w rl) = Ok w \<Longrightarrow> sw_failed w = None \<Longrightarrow> log_step rl (rl\<lparr>rl_w := w\<rparr>)"
| step_collect: "log_step rl (log_collect rl)"

inductive_cases log_stepE: "log_step rl rl'"

lemma lastLogIndex_spec:
  "caches_ok rl es \<Longrightarrow> lastLogIndex rl = (if es = [] then snap_index rl else last_index es)"
  using contig_zero_iff(2) [of es] by (auto simp: caches_ok_def lastLogIndex_def)

lemma base_ok_snoc:
  assumes "contig es" "base_ok rl es" "contig new" "new \<noteq> []"
    and "first_index new = Suc (if es = [] then snap_index rl else last_index es)"
    and "snap_index rl' = snap_index rl" "snap_term rl' = snap_term rl"
  shows "base_ok rl' (es @ new)"
proof -
  have n: "Suc (snap_index rl) \<le> first_index new" using assms(2,5) by (cases "es = []") (auto simp: base_ok_def)
  then have "snap_index rl < e_Index e" if "e \<in> set new" for e
    using contig_bounds [OF assms(3) that] by simp
  then show ?thesis
    using assms n contig_first_le_last [OF assms(3)] by (cases "es = []") (fastforce simp: base_ok_def)+
qed

lemma base_ok_less:
  assumes "contig es" "base_ok rl es" "snap_index rl < i" "i \<le> last_index es"
    and "snap_index rl' = snap_index rl" "snap_term rl' = snap_term rl"
  shows "base_ok rl' (filter (\<lambda>e. e_Index e < i) es)"
proof (cases "filter (\<lambda>e. e_Index e < i) es = []")
  case False
  let ?f = "take (i - first_index es) es"
  have f: "filter (\<lambda>e. e_Index e < i) es = ?f" using assms(1) by (rule contig_filter_less)
  then have ne: "es \<noteq> []" "first_index es < i" using False by auto
  have "first_index ?f = first_index es" using ne by simp
  moreover have "last_index ?f = i - 1"
    using contig_last [OF contig_take [OF assms(1)], of "i - first_index es"] contig_last [OF assms(1) ne(1)] assms(4) ne
    by (auto simp: min_def split: if_splits)
  ultimately show ?thesis
    using assms ne by (auto simp: base_ok_def f dest: in_set_takeD)
qed (simp add: base_ok_def)

lemma base_ok_compact:
  assumes c: "caches_ok rl es" and base: "base_ok rl es"
    and t: "termAt rl M = Some T" "snap_index rl \<le> M" "M \<le> lastLogIndex rl" "k \<le> Suc M"
    and rl': "snap_index rl' = M" "snap_term rl' = T"
  shows "base_ok rl' (filter (\<lambda>e. k \<le> e_Index e) es)"
proof (cases "filter (\<lambda>e. k \<le> e_Index e) es = []")
  case False
  let ?f = "drop (k - first_index es) es"
  have cg: "contig es" using c by (simp add: caches_ok_def)
  have f: "filter (\<lambda>e. k \<le> e_Index e) es = ?f" using cg by (rule contig_filter_ge)
  have ne: "es \<noteq> []" using False by auto
  have M: "M \<le> last_index es" using t(3) ne lastLogIndex_spec [OF c] by simp
  have "es = take (k - first_index es) es @ ?f" by simp
  then have l: "last_index ?f = last_index es" using False f last_index_append [of ?f "take (k - first_index es) es"] by simp
  have "Suc (last_index es) = first_index ?f + length ?f" using contig_last [OF contig_drop [OF cg], of "k - first_index es"] False f l by simp
  then have "first_index ?f \<le> max k (first_index es)" using contig_last [OF cg ne] False f by auto
  then have "first_index ?f \<le> Suc M" using t(2,4) base ne by (auto simp: base_ok_def)
  moreover have "e_Term e = T" if "e \<in> set es" "e_Index e = M" for e
  proof -
    have "first_index es \<le> M" "M \<le> last_index es" using contig_bounds [OF cg that(1)] that(2) by simp_all
    then have "termAt rl M = Some (e_Term (es ! (M - first_index es)))" by (rule termAt_spec [OF c base ne])
    moreover have "es ! (M - first_index es) = e"
      using contig_lookup [OF cg \<open>first_index es \<le> M\<close> \<open>M \<le> last_index es\<close> ne] that by (intro contig_inj [OF cg]) auto
    ultimately show ?thesis using t(1) by simp
  qed
  ultimately show ?thesis using M l rl' by (auto simp: base_ok_def f dest: in_set_dropD)
qed (simp add: base_ok_def)

definition top_ok :: "'st raftLog \<Rightarrow> LogEntry list \<Rightarrow> bool" where
  "top_ok rl es \<longleftrightarrow> (es \<noteq> [] \<longrightarrow> rl_lastTerm rl = e_Term (last es))"

lemma truncatePrefix_top:
  assumes c: "caches_ok rl es" and t: "top_ok rl es"
  shows "top_ok (truncatePrefix rl k) (filter (\<lambda>e. k \<le> e_Index e) es)"
proof -
  have cg: "contig es" and f: "rl_first rl = first_index es" "rl_last rl = last_index es"
    using c by (simp_all add: caches_ok_def)
  have d: "filter (\<lambda>e. k \<le> e_Index e) es = drop (k - first_index es) es" using cg by (rule contig_filter_ge)
  show ?thesis
  proof (cases "rl_first rl \<noteq> 0 \<and> k \<le> rl_first rl")
    case True
    then show ?thesis using t by (simp add: truncatePrefix_def d f)
  next
    case False
    show ?thesis
    proof (cases "es = [] \<or> last_index es < k")
      case True
      then have "drop (k - first_index es) es = []" using contig_last [OF cg] by (cases "es = []") auto
      then show ?thesis by (simp add: top_ok_def d)
    next
      case ne: False
      then show ?thesis
        using t truncatePrefix_fields(10) [OF refl False] by (auto simp: top_ok_def d f)
    qed
  qed
qed

lemma log_collect_same:
  "rl_lastTerm (log_collect rl) = rl_lastTerm rl \<and> rl_w (log_collect rl) = (rl_w rl)\<lparr>sw_done := []\<rparr>"
proof -
  have "rl_lastTerm (fold (\<lambda>d rl. stabilize rl d) ds r) = rl_lastTerm r \<and> rl_w (fold (\<lambda>d rl. stabilize rl d) ds r) = rl_w r"
    for ds and r :: "'a raftLog"
    by (induction ds arbitrary: r) (auto simp: stabilize_def split: prod.splits)
  then show ?thesis by (simp add: log_collect_def takeDone_def)
qed

lemma installSnapshot_Ok:
  assumes "log_inv ents rl" "\<not> sw_closed (rl_w rl)" "base_ok rl (final_ents ents (rl_w rl))"
    and "0 < sm_LastIncludedIndex meta" "log_installSnapshot rl meta = Ok rl'"
  shows "log_inv ents rl'" "base_ok rl' (final_ents ents (rl_w rl'))"
    "final_ents ents (rl_w rl') =
      (if termAt rl (sm_LastIncludedIndex meta) = Some (sm_LastIncludedTerm meta)
       then filter (\<lambda>e. Suc (sm_LastIncludedIndex meta) \<le> e_Index e) (final_ents ents (rl_w rl)) else [])"
  by (rule log_installSnapshot_inv [OF assms(1-4)], use assms(5) in simp)+

context storage_contract
begin

lemma log_state_enqueue:
  assumes st: "log_state ops inv ents rl" and w: "rl_w rl' = enqueue (rl_w rl) op"
    and ok: "op_ok (final_ents ents (rl_w rl)) op" and inv': "log_inv ents rl'"
    and base: "base_ok rl' (effect op (final_ents ents (rl_w rl)))"
  shows "log_state ops inv ents rl'"
proof -
  have "final_ents ents (enqueue (rl_w rl) op) = effect op (final_ents ents (rl_w rl))"
    using st by (simp add: final_ents_def pending_ops_def enqueue_def log_state_def)
  then show ?thesis
    using assms enqueue_inv [of "rl_w rl" op] by (simp add: log_state_def enqueue_def)
qed

lemma step_append_state:
  assumes st: "log_state ops inv ents rl" and new: "contig new" "new \<noteq> [] \<longrightarrow> first_index new = Suc (lastLogIndex rl)"
    and r: "log_append rl new = (rl', s)"
  shows "log_state ops inv ents rl'"
proof (cases "new = []")
  case True
  then show ?thesis using r st by (simp add: log_append_def)
next
  case False
  let ?es = "final_ents ents (rl_w rl)"
  have c: "caches_ok rl ?es" and li: "log_inv ents rl" and b: "base_ok rl ?es" and o: "\<not> sw_closed (rl_w rl)"
    using st log_invD(1) by (auto simp: log_state_def)
  have cg: "contig ?es" using c by (simp add: caches_ok_def)
  have f1: "first_index new = Suc (if ?es = [] then snap_index rl else last_index ?es)"
    using new(2) False lastLogIndex_spec [OF c] by simp
  have ap: "appendable ?es new" using f1 new(1) by (simp add: appendable_def)
  note f = log_append_fields [OF r False]
  show ?thesis
  proof (rule log_state_enqueue [OF st f(9)])
    show "op_ok ?es (append_op s new (last_index new))"
      using appendable_contig [OF cg ap] by (simp add: op_ok_def append_op_def ok_append_def)
    show "log_inv ents rl'" by (rule log_append_inv [OF li o ap r])
    show "base_ok rl' (effect (append_op s new (last_index new)) ?es)"
      using base_ok_snoc [OF cg b new(1) False f1, of rl'] f(10) by (simp add: snap_index_def snap_term_def)
  qed
qed

lemma step_truncate_state:
  assumes st: "log_state ops inv ents rl" and i: "snap_index rl < i" "i \<le> lastLogIndex rl"
    and r: "truncateSuffix rl i = Ok rl'"
  shows "log_state ops inv ents rl'"
proof -
  let ?es = "final_ents ents (rl_w rl)"
  have c: "caches_ok rl ?es" and li: "log_inv ents rl" and b: "base_ok rl ?es" and o: "\<not> sw_closed (rl_w rl)"
    using st log_invD(1) by (auto simp: log_state_def)
  have cg: "contig ?es" using c by (simp add: caches_ok_def)
  have ne: "?es \<noteq> []" using i lastLogIndex_spec [OF c] by auto
  have l: "i \<le> last_index ?es" "first_index ?es \<le> i" using i ne b lastLogIndex_spec [OF c] by (auto simp: base_ok_def)
  show ?thesis
    using r
  proof (rule truncateSuffix_fields)
    assume f: "rl_w rl' = enqueue (rl_w rl) (index_op (Suc (rl_nextSeq rl)) writeTruncateSuffix i (rl_queuedDurable rl'))"
      and m: "rl_snapMeta rl' = rl_snapMeta rl"
    show ?thesis
    proof (rule log_state_enqueue [OF st f])
      show "op_ok ?es (index_op (Suc (rl_nextSeq rl)) writeTruncateSuffix i (rl_queuedDurable rl'))"
        using l by (simp add: op_ok_def index_op_def ok_suffix_def)
      show "log_inv ents rl'" using l by (intro truncateSuffix_inv [OF li o r ne]) simp_all
    qed (use base_ok_less [OF cg b i(1) l(1), of rl'] m in \<open>simp add: snap_index_def snap_term_def\<close>)
  qed
qed

text \<open>The writer's side of the two truncations.\<close>

lemma enqueue_open:
  assumes "writer_open ops inv ents rl" "rl_w rl' = enqueue (rl_w rl) op" "op_ok (final_ents ents (rl_w rl)) op"
  shows "writer_open ops inv ents rl'"
  using assms enqueue_inv [of "rl_w rl" op] by (simp add: writer_open_def)

lemma truncatePrefix_open: "writer_open ops inv ents rl \<Longrightarrow> writer_open ops inv ents (truncatePrefix rl k)"
proof (cases "rl_first rl \<noteq> 0 \<and> k \<le> rl_first rl")
  case False
  assume o: "writer_open ops inv ents rl"
  note f = truncatePrefix_fields(6) [OF refl False]
  show ?thesis by (rule enqueue_open [OF o f]) (simp add: op_ok_def index_op_def)
qed (simp add: truncatePrefix_def)

lemma truncateSuffix_open:
  assumes "writer_open ops inv ents rl" "truncateSuffix rl i = Ok rl'" "final_ents ents (rl_w rl) = [] \<or> first_index (final_ents ents (rl_w rl)) \<le> i"
  shows "writer_open ops inv ents rl'"
  using assms(2)
proof (rule truncateSuffix_fields)
  assume f: "rl_w rl' = enqueue (rl_w rl) (index_op (Suc (rl_nextSeq rl)) writeTruncateSuffix i (rl_queuedDurable rl'))"
  show ?thesis
    by (rule enqueue_open [OF assms(1) f]) (use assms(3) in \<open>simp add: op_ok_def index_op_def ok_suffix_def\<close>)
qed

lemma step_compact_state:
  assumes st: "log_state ops inv ents rl"
    and t: "termAt rl (sm_LastIncludedIndex meta) = Some (sm_LastIncludedTerm meta)"
      "snap_index rl \<le> sm_LastIncludedIndex meta" "sm_LastIncludedIndex meta \<le> lastLogIndex rl"
      "k \<le> Suc (sm_LastIncludedIndex meta)"
  shows "log_state ops inv ents (log_compact rl meta k)"
proof -
  let ?es = "final_ents ents (rl_w rl)"
  have li: "log_inv ents rl" and b: "base_ok rl ?es" and o: "\<not> sw_closed (rl_w rl)" "writer_open ops inv ents rl"
    using st by (auto simp: log_state_def writer_open_def)
  note p = truncatePrefix_inv [OF li o(1) refl, of k]
  have "log_inv ents (log_compact rl meta k)"
    by (rule log_inv_cong [OF conjunct1 [OF p]]) (simp_all add: log_compact_def caches_ok_def)
  moreover have "base_ok (log_compact rl meta k) (filter (\<lambda>e. k \<le> e_Index e) ?es)"
    by (rule base_ok_compact [OF log_invD(1) [OF li] b t]) (simp_all add: log_compact_def snap_index_def snap_term_def)
  ultimately show ?thesis
    using p truncatePrefix_open [OF o(2), of k] by (simp add: log_state_def writer_open_def log_compact_def)
qed

lemma step_install_state:
  assumes st: "log_state ops inv ents rl" and S: "0 < sm_LastIncludedIndex meta"
    and r: "log_installSnapshot rl meta = Ok rl'"
  shows "log_state ops inv ents rl'"
proof -
  let ?es = "final_ents ents (rl_w rl)"
  have li: "log_inv ents rl" and b: "base_ok rl ?es" and o: "\<not> sw_closed (rl_w rl)" "writer_open ops inv ents rl"
    using st by (auto simp: log_state_def writer_open_def)
  have "log_inv ents rl' \<and> base_ok rl' (final_ents ents (rl_w rl'))"
    using installSnapshot_Ok [OF li o(1) b S r] by simp
  moreover have "writer_open ops inv ents rl'"
  proof -
    have fi: "rl_first rl = first_index ?es" using log_invD(1) [OF li] by (simp add: caches_ok_def)
    obtain rl1 where rl1: "(if termAt rl (sm_LastIncludedIndex meta) = Some (sm_LastIncludedTerm meta)
           then Ok (truncatePrefix rl (Suc (sm_LastIncludedIndex meta)))
           else if rl_first rl \<noteq> 0 then truncateSuffix rl (rl_first rl) else Ok rl) = Ok rl1" "rl_w rl' = rl_w rl1"
      using r unfolding installSnapshot_split obind_eq_Ok by force
    have "writer_open ops inv ents rl1"
      using rl1(1) truncatePrefix_open [OF o(2)] truncateSuffix_open [OF o(2), of "rl_first rl" rl1] o(2) fi
      by (auto split: if_splits)
    with rl1 show ?thesis by (simp add: writer_open_def)
  qed
  ultimately show ?thesis by (simp add: log_state_def writer_open_def)
qed

lemma fold_stabilize:
  "log_inv ents rl \<Longrightarrow> (\<forall>d\<in>set ds. wd_seq d \<le> executed rl) \<Longrightarrow>
    log_inv ents (fold (\<lambda>d rl. stabilize rl d) ds rl) \<and> rl_w (fold (\<lambda>d rl. stabilize rl d) ds rl) = rl_w rl
      \<and> rl_snapMeta (fold (\<lambda>d rl. stabilize rl d) ds rl) = rl_snapMeta rl"
proof (induction ds arbitrary: rl)
  case (Cons d ds)
  have a: "log_inv ents (stabilize rl d)" "rl_w (stabilize rl d) = rl_w rl"
    using stabilize_inv [of ents rl d] Cons.prems by simp_all
  have b: "rl_snapMeta (stabilize rl d) = rl_snapMeta rl" "rl_nextSeq (stabilize rl d) = rl_nextSeq rl"
    by (simp_all add: stabilize_def split: prod.splits)
  have "executed (stabilize rl d) = executed rl" using a b by (simp add: executed_def)
  then show ?case using Cons.IH [OF a(1)] Cons.prems a b by simp
qed simp

lemma step_collect_state: "log_state ops inv ents rl \<Longrightarrow> log_state ops inv ents (log_collect rl)"
proof -
  assume st: "log_state ops inv ents rl"
  obtain ds w where t: "takeDone (rl_w rl) = (ds, w)" by (metis surj_pair)
  have w: "w = (rl_w rl)\<lparr>sw_done := []\<rparr>" using t by (auto simp: takeDone_def)
  have i: "log_inv ents (rl\<lparr>rl_w := w\<rparr>)" "\<forall>d\<in>set ds. wd_seq d \<le> executed (rl\<lparr>rl_w := w\<rparr>)"
    using takeDone_inv [OF _ t] st by (auto simp: log_state_def)
  show ?thesis
    using fold_stabilize [OF i] st
    by (simp add: log_collect_def t w log_state_def writer_inv_def pending_ops_def final_ents_def base_ok_def
      snap_index_def snap_term_def)
qed

lemma enqueue_side_state:
  assumes "log_state ops inv ents rl" "\<And>s d. wo_seq (mk s d) = s" "\<And>s d es. effect (mk s d) es = es"
    and "\<And>s d es. op_ok es (mk s d)"
  shows "log_state ops inv ents (rl\<lparr>rl_nextSeq := Suc (rl_nextSeq rl),
    rl_w := enqueue (rl_w rl) (mk (Suc (rl_nextSeq rl)) (rl_queuedDurable rl))\<rparr>)"
    (is "log_state _ _ _ ?rl")
proof (rule log_state_enqueue [OF assms(1)])
  have i: "log_inv ents rl" "\<not> sw_closed (rl_w rl)" "base_ok rl (final_ents ents (rl_w rl))"
    using assms(1) by (simp_all add: log_state_def)
  have "log_enqueue rl (\<lambda>s. mk s (rl_queuedDurable rl)) = (?rl, Suc (rl_nextSeq rl))"
    by (simp add: log_enqueue_def nextWriteSeq_def)
  then show "log_inv ents ?rl" by (rule log_enqueue_inv [OF i(1,2) assms(2,3)])
  show "base_ok ?rl (effect (mk (Suc (rl_nextSeq rl)) (rl_queuedDurable rl)) (final_ents ents (rl_w rl)))"
    using i(3) by (simp add: assms(3) base_ok_def snap_index_def snap_term_def)
qed (simp_all add: assms(4))

lemma log_step_state:
  assumes "log_step rl rl'" "log_state ops inv ents rl"
  shows "log_state ops inv ents rl'"
  using assms
proof (induction rule: log_step.induct)
  case (step_append new rl rl' s)
  show ?case by (rule step_append_state [OF step_append.prems step_append.hyps])
next
  case (step_truncate rl i rl')
  show ?case by (rule step_truncate_state [OF step_truncate.prems step_truncate.hyps])
next
  case (step_compact rl meta k)
  show ?case by (rule step_compact_state [OF step_compact.prems step_compact.hyps])
next
  case (step_install meta rl rl')
  show ?case by (rule step_install_state [OF step_install.prems step_install.hyps])
next
  case (step_hard rl hs rl' s)
  then show ?case
    using enqueue_side_state [of rl "\<lambda>s d. hs_op s hs d"]
    by (auto simp: log_saveHardState_def nextWriteSeq_def Let_def hs_op_def effect.simps op_ok_def)
next
  case (step_commit rl i)
  then show ?case
    using enqueue_side_state [of rl "\<lambda>s d. index_op s writeCommitIndex i d"]
    by (auto simp: log_saveCommitIndex_def nextWriteSeq_def Let_def index_op_def effect.simps op_ok_def)
next
  case (step_snapshot rl meta d st)
  have o: "sw_ops (rl_w rl) = ops" "inv (rl_storage rl)"
    using step_snapshot.prems by (auto simp: log_state_def writer_inv_def rl_storage_def)
  have s: "inv st" "ents st = ents (sw_storage (rl_w rl))"
    using save_snap [OF o(2)] step_snapshot.hyps o by (auto simp: rl_storage_def)
  define w where "w = (rl_w rl)\<lparr>sw_storage := st\<rparr>"
  have w: "pending_ops w = pending_ops (rl_w rl)" "ents (sw_storage w) = ents (sw_storage (rl_w rl))" by (simp_all add: w_def pending_ops_def s)
  have "log_inv ents (rl\<lparr>rl_w := w\<rparr>)"
    using step_snapshot.prems w by (auto simp: log_state_def log_inv_def final_ents_def caches_ok_def segs_ok_def
      queue_ok_def executed_def rl_storage_def w_def)
  then show ?case
    using step_snapshot.prems s
    by (simp add: w_def log_state_def writer_inv_def pending_ops_def final_ents_def base_ok_def snap_index_def snap_term_def)
next
  case (step_take rl)
  then show ?case
    using loop_take_log_inv [of ents rl] loop_take_inv [of "rl_w rl"] loop_take_spec [OF refl, of "rl_w rl"]
    by (simp add: log_state_def final_ents_def base_ok_def snap_index_def snap_term_def)
next
  case (step_execute rl w)
  have p: "final_ents ents w = final_ents ents (rl_w rl)" "sw_closed w = sw_closed (rl_w rl)" "writer_inv ops inv ents w"
    using loop_execute_result [OF _ step_execute.hyps(1)] step_execute
    by (auto simp: log_state_def final_ents_def pending_ops_def)
  then show ?case
    using step_execute loop_execute_log_inv [of rl w]
    by (simp add: log_state_def base_ok_def snap_index_def snap_term_def)
next
  case (step_collect rl)
  then show ?case by (rule step_collect_state)
qed

lemma log_steps_state: "log_step\<^sup>*\<^sup>* rl rl' \<Longrightarrow> log_state ops inv ents rl \<Longrightarrow> log_state ops inv ents rl'"
proof (induction rule: rtranclp_induct)
  case (step y z)
  show ?case by (rule log_step_state [OF step.hyps(2) step.IH [OF step.prems]])
qed

text \<open>The cached last term is that of the last entry, as long as there is one.\<close>

lemma log_step_top:
  assumes "log_step rl rl'" "log_state ops inv ents rl" "top_ok rl (final_ents ents (rl_w rl))"
  shows "top_ok rl' (final_ents ents (rl_w rl'))"
  using assms
proof (induction rule: log_step.induct)
  case (step_append new rl rl' s)
  show ?case
  proof (cases "new = []")
    case True
    then show ?thesis using step_append by (simp add: log_append_def)
  next
    case False
    note f = log_append_fields [OF step_append.hyps(3) False]
    show ?thesis
      using False log_stateD(5) [OF step_append.prems(1)] by (simp add: top_ok_def f(8,9) final_ents_enqueue)
  qed
next
  case (step_truncate rl i rl')
  let ?es = "final_ents ents (rl_w rl)"
  note d = log_stateD [OF step_truncate.prems(1)]
  have ne: "?es \<noteq> []" "first_index ?es \<le> i" "i \<le> Suc (last_index ?es)"
    using step_truncate.hyps lastLogIndex_spec [OF d(4)] d(3) by (auto simp: base_ok_def split: if_splits)
  show ?case
    using truncateSuffix_term_ok [OF d(4,3) step_truncate.hyps(3) ne] final_truncateSuffix [OF step_truncate.hyps(3) d(5)]
    by (auto simp: term_ok_def top_ok_def)
next
  case (step_compact rl meta k)
  note d = log_stateD [OF step_compact.prems(1)]
  show ?case
    using truncatePrefix_top [OF d(4) step_compact.prems(2)] truncatePrefix_inv [OF d(1,5) refl, of k]
    by (simp add: log_compact_def top_ok_def)
next
  case (step_install meta rl rl')
  note d = log_stateD [OF step_install.prems(1)]
  note i = installSnapshot_Ok [OF d(1,5,3) step_install.hyps]
  show ?case
  proof (cases "final_ents ents (rl_w rl') = []")
    case False
    then have a: "termAt rl (sm_LastIncludedIndex meta) = Some (sm_LastIncludedTerm meta)"
      and f: "final_ents ents (rl_w rl') = filter (\<lambda>e. Suc (sm_LastIncludedIndex meta) \<le> e_Index e) (final_ents ents (rl_w rl))"
      using i(3) by (auto split: if_splits)
    have "rl_last rl' \<noteq> 0"
      using log_invD(1) [OF i(1)] False contig_zero_iff(2) by (auto simp: caches_ok_def)
    then have "rl_lastTerm rl' = rl_lastTerm (truncatePrefix rl (Suc (sm_LastIncludedIndex meta)))"
      using step_install.hyps(2) a by (auto simp: installSnapshot_split split: if_splits)
    then show ?thesis
      using truncatePrefix_top [OF d(4) step_install.prems(2), of "Suc (sm_LastIncludedIndex meta)"] f by (simp add: top_ok_def)
  qed (simp add: top_ok_def)
next
  case (step_hard rl hs rl' s)
  then show ?case
    using log_stateD(5) [OF step_hard.prems(1)]
    by (auto simp: log_saveHardState_def nextWriteSeq_def Let_def hs_op_def effect.simps top_ok_def final_ents_enqueue)
next
  case (step_commit rl i)
  then show ?case
    using log_stateD(5) [OF step_commit.prems(1)]
    by (auto simp: log_saveCommitIndex_def nextWriteSeq_def Let_def top_ok_def final_ents_enqueue)
next
  case (step_snapshot rl meta d st)
  have o: "sw_ops (rl_w rl) = ops" "inv (rl_storage rl)"
    using step_snapshot.prems by (auto simp: log_state_def writer_inv_def rl_storage_def)
  then show ?case
    using save_snap [OF o(2)] step_snapshot by (auto simp: rl_storage_def final_ents_def pending_ops_def top_ok_def)
next
  case (step_take rl)
  then show ?case using loop_take_spec [OF refl, of "rl_w rl"] by (simp add: final_ents_def top_ok_def)
next
  case (step_execute rl w)
  have "final_ents ents w = final_ents ents (rl_w rl)"
    using loop_execute_result [OF _ step_execute.hyps(1)] step_execute
    by (auto simp: log_state_def final_ents_def pending_ops_def)
  then show ?case using step_execute.prems by (simp add: top_ok_def)
next
  case (step_collect rl)
  then show ?case using log_collect_same [of rl] by (simp add: final_ents_def pending_ops_def top_ok_def)
qed

lemma log_steps_top:
  "log_step\<^sup>*\<^sup>* rl rl' \<Longrightarrow> log_state ops inv ents rl \<Longrightarrow> top_ok rl (final_ents ents (rl_w rl)) \<Longrightarrow>
    top_ok rl' (final_ents ents (rl_w rl'))"
proof (induction rule: rtranclp_induct)
  case (step y z)
  show ?case
    by (rule log_step_top [OF step.hyps(2) log_steps_state [OF step.hyps(1) step.prems(1)] step.IH [OF step.prems]])
qed

end

end
