(* ===== verification/Log_Properties.thy ===== *)
theory Log_Properties
  imports Raft_Log_Correct
begin

text \<open>
  The properties of the replicated log over its store: what a client of \<open>raftLog\<close> can
  rely on in every run of \<open>log_step\<close> that begins with \<open>newRaftLog\<close>, for every store
  that keeps the contract, and two runs in which the log's last position goes wrong.
\<close>

section \<open>A run to look at\<close>

definition demo_entry :: "Index \<Rightarrow> Term \<Rightarrow> LogEntry" where
  "demo_entry i t = \<lparr>e_Index = i, e_Term = t, e_Command = [7]\<rparr>"

definition demo_start :: "MemStore raftLog" where
  "demo_start = empty_log (newStorageWriter mem_storage mem_New)"

text \<open>The writer takes a batch, executes it, and the log collects the completions.\<close>

definition demo_flush :: "MemStore raftLog \<Rightarrow> MemStore raftLog" where
  "demo_flush rl =
    (let rl = rl\<lparr>rl_w := loop_take (rl_w rl)\<rparr>
     in case loop_execute (rl_w rl) of Ok w \<Rightarrow> log_collect (rl\<lparr>rl_w := w\<rparr>) | _ \<Rightarrow> rl)"

definition demo_two :: "MemStore raftLog" where
  "demo_two = fst (log_append demo_start [demo_entry 1 1, demo_entry 2 1])"

definition demo_flushed :: "MemStore raftLog" where
  "demo_flushed = demo_flush demo_two"

definition demo_log :: "MemStore raftLog" where
  "demo_log = fst (log_append demo_flushed [demo_entry 3 2])"

lemma mem_ops [simp]:
  "st_LoadSnapshot mem_storage = mem_LoadSnapshot" "st_FirstIndex mem_storage = mem_FirstIndex"
  "st_LastIndex mem_storage = mem_LastIndex" "st_AppendLogEntries mem_storage = mem_AppendLogEntries"
  "st_SaveState mem_storage = None" "st_GetLogEntries mem_storage = mem_GetLogEntries"
  by (simp_all add: mem_storage_def)

lemmas demo_simps = newStorageWriter_def empty_log_def log_append_def nextWriteSeq_def demo_entry_def commandBytes_def
  extendRuns_def enqueue_def append_op_def loop_take_def writer_take_def take_end.simps loop_execute_def
  writer_execute_def writer_run_def mem_AppendLogEntries_def mem_New_def log_collect_def takeDone_def stabilize_def
  completion_def cloneEntry_def Let_def

lemma demo_two_eq:
  "demo_two = demo_start\<lparr>rl_w := (newStorageWriter mem_storage mem_New)\<lparr>sw_started := True, sw_wake := True,
      sw_queue := [append_op 1 [demo_entry 1 1, demo_entry 2 1] 2]\<rparr>,
    rl_first := 1, rl_last := 2, rl_lastTerm := 1, rl_segs := [\<lparr>us_seq = 1, us_entries = [demo_entry 1 1, demo_entry 2 1]\<rparr>],
    rl_unstableBytes := 2, rl_runs := [\<lparr>tr_start = 1, tr_term = 1\<rparr>], rl_queuedDurable := 2, rl_nextSeq := 1\<rparr>"
  by (simp add: demo_two_def demo_start_def demo_simps)

lemma demo_flushed_eq:
  "demo_flushed = demo_two\<lparr>rl_w := (newStorageWriter mem_storage (mem_New\<lparr>mem_entries := [demo_entry 1 1, demo_entry 2 1]\<rparr>))
      \<lparr>sw_started := True, sw_wake := True, sw_notify := True\<rparr>,
    rl_segs := [], rl_unstableBytes := 0, rl_durable := 2\<rparr>"
  by (simp add: demo_flushed_def demo_flush_def demo_two_eq demo_start_def demo_simps)

lemma demo_log_eq:
  "demo_log = demo_start\<lparr>rl_w := (newStorageWriter mem_storage (mem_New\<lparr>mem_entries := [demo_entry 1 1, demo_entry 2 1]\<rparr>))
      \<lparr>sw_started := True, sw_wake := True, sw_notify := True, sw_queue := [append_op 2 [demo_entry 3 2] 3]\<rparr>,
    rl_first := 1, rl_last := 3, rl_lastTerm := 2, rl_segs := [\<lparr>us_seq = 2, us_entries = [demo_entry 3 2]\<rparr>],
    rl_unstableBytes := 1, rl_runs := [\<lparr>tr_start = 1, tr_term = 1\<rparr>, \<lparr>tr_start = 3, tr_term = 2\<rparr>],
    rl_durable := 2, rl_queuedDurable := 3, rl_nextSeq := 2\<rparr>"
  by (simp add: demo_log_def demo_flushed_eq demo_two_eq demo_start_def demo_simps)

fun is_ok :: "('e, 'a) outcome \<Rightarrow> bool" where
  "is_ok (Ok _) = True"
| "is_ok _ = False"

lemma is_ok_iff: "is_ok r \<longleftrightarrow> (\<exists>x. r = Ok x)"
  by (cases r) simp_all

definition clean_flush :: "MemStore raftLog \<Rightarrow> bool" where
  "clean_flush rl = (case loop_execute (loop_take (rl_w rl)) of Ok w \<Rightarrow> sw_failed w = None | _ \<Rightarrow> False)"

lemma demo_flush_steps:
  assumes "clean_flush rl"
  shows "log_step\<^sup>*\<^sup>* rl (demo_flush rl)"
proof -
  obtain w where w: "loop_execute (loop_take (rl_w rl)) = Ok w" "sw_failed w = None"
    using assms by (auto simp: clean_flush_def split: outcome.splits)
  let ?t = "rl\<lparr>rl_w := loop_take (rl_w rl)\<rparr>"
  have "log_step rl ?t" by (rule log_step.step_take)
  moreover have "log_step ?t (?t\<lparr>rl_w := w\<rparr>)" by (rule log_step.step_execute) (simp_all add: w)
  moreover have "log_step (?t\<lparr>rl_w := w\<rparr>) (log_collect (?t\<lparr>rl_w := w\<rparr>))" by (rule log_step.step_collect)
  moreover have "demo_flush rl = log_collect (?t\<lparr>rl_w := w\<rparr>)" using w by (simp add: demo_flush_def)
  ultimately show ?thesis by (metis rtranclp.rtrancl_refl rtranclp.rtrancl_into_rtrancl)
qed

lemma append_steps:
  "contig new \<Longrightarrow> first_index new = Suc (lastLogIndex rl) \<Longrightarrow> log_step\<^sup>*\<^sup>* rl (fst (log_append rl new))"
  using log_step.step_append [of new rl "fst (log_append rl new)" "snd (log_append rl new)"] by auto

lemma demo_start_Ok: "newRaftLog (newStorageWriter mem_storage mem_New) = Ok demo_start"
  by (simp add: newRaftLog_def load_snapshot_part_def newStorageWriter_def rl_storage_def empty_log_def mem_New_def
      mem_LoadSnapshot_def mem_FirstIndex_def mem_LastIndex_def snap_term_def demo_start_def)

lemma demo_log_steps: "log_step\<^sup>*\<^sup>* demo_start demo_log"
proof -
  have "log_step\<^sup>*\<^sup>* demo_start demo_two"
    unfolding demo_two_def
    by (rule append_steps) (simp_all add: contig_def demo_entry_def first_index_def lastLogIndex_def demo_start_def
      empty_log_def snap_index_def)
  also have "log_step\<^sup>*\<^sup>* demo_two demo_flushed"
    unfolding demo_flushed_def by (rule demo_flush_steps) (simp add: clean_flush_def demo_two_eq demo_simps)
  also have "log_step\<^sup>*\<^sup>* demo_flushed demo_log"
    unfolding demo_log_def
    by (rule append_steps) (simp_all add: contig_def demo_entry_def first_index_def lastLogIndex_def demo_flushed_eq demo_two_eq)
  finally show ?thesis .
qed

lemma demo_start_base: "base_ok demo_start (mem_entries mem_New)"
  by (simp add: base_ok_def mem_New_def)

lemma demo_mem: "mem_ok mem_New"
  by (simp add: mem_ok_def mem_New_def)

lemma demo_fields:
  "rl_first demo_log = 1" "rl_last demo_log = 3" "lastLogIndex demo_log = 3" "lastLogTerm demo_log = 2"
  "stableIndex demo_log = 2" "snap_term demo_log = 0" "rl_storage demo_log = mem_New\<lparr>mem_entries := [demo_entry 1 1, demo_entry 2 1]\<rparr>"
  by (simp_all add: demo_log_eq demo_start_def empty_log_def lastLogIndex_def lastLogTerm_def stableIndex_def
      snap_index_def snap_term_def unstableFirst_def demo_entry_def rl_storage_def newStorageWriter_def)

lemma demo_read: "log_entries demo_log 2 (Suc 2) = Ok [demo_entry 2 1]"
  by (simp add: log_entries_def demo_log_eq rl_storage_def newStorageWriter_def demo_entry_def unstableFirst_def
      mem_GetLogEntries_def slice_range_def cloneEntry_def index_at_def mem_New_def numeral_3_eq_3)

section \<open>Every run\<close>

lemma between_indices:
  assumes "contig es" "es \<noteq> []" "first_index es \<le> lo" "lo < hi" "hi \<le> Suc (last_index es)"
  shows "map e_Index (between lo hi es) = [lo..<hi]"
proof -
  have "slice_range es (lo - first_index es) (hi - first_index es) = Ok (between lo hi es)"
    using assms by (rule between_slice)
  then have b: "between lo hi es = take (hi - lo) (drop (lo - first_index es) es)"
    using assms by (auto simp: slice_range_def split: if_splits)
  have "map e_Index es = [first_index es..<first_index es + length es]"
    using assms(1,2) by (simp add: contig_iff contig_from_def)
  then show ?thesis
    using assms contig_last [OF assms(1,2)] by (simp add: b take_map [symmetric] drop_map [symmetric])
qed

text \<open>A run of the log: it starts on a store that keeps the contract and whose snapshot its
  entries follow, and takes any number of steps.\<close>

definition log_run :: "'st Storage \<Rightarrow> ('st \<Rightarrow> bool) \<Rightarrow> ('st \<Rightarrow> LogEntry list) \<Rightarrow> 'st \<Rightarrow> 'st raftLog \<Rightarrow> bool" where
  "log_run ops J ents s rl \<longleftrightarrow> J s \<and> (\<exists>rl0. newRaftLog (newStorageWriter ops s) = Ok rl0
    \<and> base_ok rl0 (ents s) \<and> log_step\<^sup>*\<^sup>* rl0 rl)"

lemma log_run_state:
  assumes "reliable_storage ops J ents hard snap" "log_run ops J ents s rl"
  shows "log_state ops J ents rl" "top_ok rl (final_ents ents (rl_w rl))"
proof -
  obtain rl0 where r: "J s" "newRaftLog (newStorageWriter ops s) = Ok rl0" "base_ok rl0 (ents s)" "log_step\<^sup>*\<^sup>* rl0 rl"
    using assms(2) by (auto simp: log_run_def)
  note n = reliable_storage.newRaftLog_Ok [OF assms(1) r(1,2)]
  have st: "log_state ops J ents rl0" using n r(3) by (intro log_stateI) simp_all
  have c: "storage_contract ops J ents hard snap" using assms(1) by (rule reliable_storage.axioms)
  show "log_state ops J ents rl" by (rule storage_contract.log_steps_state [OF c r(4) st])
  have "top_ok rl0 (final_ents ents (rl_w rl0))" using n by (simp add: term_ok_def top_ok_def)
  then show "top_ok rl (final_ents ents (rl_w rl))" by (rule storage_contract.log_steps_top [OF c r(4) st])
qed

lemma demo_run: "log_run mem_storage mem_ok mem_entries mem_New demo_log"
  using demo_start_Ok demo_start_base demo_mem demo_log_steps by (auto simp: log_run_def)

text \<open>C4.  What the log reports as stable survives a crash.  In every run over a store that keeps
  the contract, if the log has entry \<open>e\<close> at \<open>i\<close> and \<open>i\<close> is at or below \<open>stableIndex\<close>, then a
  node that loses everything but the store and starts again has \<open>e\<close> at \<open>i\<close>, whatever writes
  were queued or half done.\<close>

theorem stable_entries_survive_crash:
  assumes "reliable_storage ops J ents hard snap" "log_run ops J ents s rl"
    and "log_entries rl i (Suc i) = Ok [e]" "i \<le> stableIndex rl"
    and "newRaftLog (newStorageWriter ops (rl_storage rl)) = Ok rl'"
  shows "log_entries rl' i (Suc i) = Ok [e]"
proof -
  note d = log_stateD [OF log_run_state(1) [OF assms(1,2)]]
  have e: "e \<in> set (final_ents ents (rl_w rl))" "e_Index e = i"
    using reliable_storage.log_entries_one [OF assms(1) d(1,2)] assms(3) by simp_all
  then have "e \<in> set (ents (rl_storage rl))" using stable_stored [OF d(1)] assms(4) by simp
  moreover have "J (rl_storage rl)" using d(2) by (simp add: writer_open_def writer_inv_def rl_storage_def)
  ultimately show ?thesis
    using reliable_storage.newRaftLog_Ok [OF assms(1) _ assms(5)] e
      reliable_storage.log_entries_one [OF assms(1), of rl'] by simp
qed

theorem stable_entries_survive_crash_witness:
  "log_entries demo_log 2 (Suc 2) = Ok [demo_entry 2 1] \<and> 2 \<le> stableIndex demo_log \<and> stableIndex demo_log < lastLogIndex demo_log
    \<and> (\<exists>rl'. newRaftLog (newStorageWriter mem_storage (rl_storage demo_log)) = Ok rl'
      \<and> log_entries rl' 2 (Suc 2) = Ok [demo_entry 2 1])"
proof -
  have "is_ok (newRaftLog (newStorageWriter mem_storage (rl_storage demo_log)))"
    unfolding demo_fields by code_simp
  moreover have "2 \<le> stableIndex demo_log" by (simp add: demo_fields)
  ultimately show ?thesis
    using stable_entries_survive_crash [OF mem.reliable_storage_axioms demo_run demo_read] demo_read
    by (auto simp: is_ok_iff demo_fields)
qed

text \<open>C5.  Reading does not depend on where an entry is.  In every run, reading the range
  \<open>[lo, hi)\<close> of the log succeeds and gives one entry for each index in it, in order, whether the
  entries come from the store, from the queue of unwritten segments, or from both.\<close>

theorem log_entries_complete:
  assumes "reliable_storage ops J ents hard snap" "log_run ops J ents s rl"
    and "rl_first rl \<noteq> 0" "rl_first rl \<le> lo" "lo < hi" "hi \<le> Suc (rl_last rl)"
  shows "\<exists>es. log_entries rl lo hi = Ok es \<and> map e_Index es = [lo..<hi]
    \<and> (\<forall>e\<in>set es. log_entries rl (e_Index e) (Suc (e_Index e)) = Ok [e] \<and> termAt rl (e_Index e) = Some (e_Term e))"
proof -
  let ?es = "final_ents ents (rl_w rl)"
  note d = log_stateD [OF log_run_state(1) [OF assms(1,2)]]
  have c: "contig ?es" "rl_first rl = first_index ?es" "rl_last rl = last_index ?es"
    using d(4) by (simp_all add: caches_ok_def)
  have ne: "?es \<noteq> []" using assms(3) c(2) by auto
  have r: "log_entries rl lo hi = Ok (between lo hi ?es)"
    using assms c ne d by (intro reliable_storage.log_entries_spec [OF assms(1)])
      (auto simp: writer_open_def writer_inv_def rl_storage_def)
  have "map e_Index (between lo hi ?es) = [lo..<hi]"
    using assms c ne by (intro between_indices) simp_all
  moreover have "log_entries rl (e_Index e) (Suc (e_Index e)) = Ok [e] \<and> termAt rl (e_Index e) = Some (e_Term e)"
    if "e \<in> set (between lo hi ?es)" for e
  proof -
    have e: "e \<in> set ?es" using that by (simp add: between_def)
    have bd: "first_index ?es \<le> e_Index e" "e_Index e \<le> last_index ?es" using contig_bounds [OF c(1) e] by simp_all
    have "?es ! (e_Index e - first_index ?es) = e"
      using contig_lookup [OF c(1) bd ne] e by (intro contig_inj [OF c(1)]) auto
    then show ?thesis
      using reliable_storage.log_entries_one [OF assms(1) d(1,2)] termAt_spec [OF d(4,3) ne bd] e by simp
  qed
  ultimately show ?thesis using r by blast
qed

theorem log_entries_complete_witness:
  "\<exists>es. log_entries demo_log 1 4 = Ok es \<and> map e_Index es = [1..<4]
    \<and> (\<forall>e\<in>set es. log_entries demo_log (e_Index e) (Suc (e_Index e)) = Ok [e] \<and> termAt demo_log (e_Index e) = Some (e_Term e))"
proof -
  have "rl_first demo_log \<noteq> 0" "rl_first demo_log \<le> 1" "(1 :: nat) < 4" "4 \<le> Suc (rl_last demo_log)" by (simp_all add: demo_fields)
  then show ?thesis by (rule log_entries_complete [OF mem.reliable_storage_axioms demo_run])
qed

text \<open>C6.  An append is visible at once and promised to nobody.  In every run, after appending
  entries that follow the last one, reading their range gives exactly them, every entry that was
  there is still there, the last index and term are theirs, and none of them is reported stable
  before its write has completed.\<close>

theorem appended_entries_are_read:
  assumes "reliable_storage ops J ents hard snap" "log_run ops J ents s rl"
    and "contig new" "new \<noteq> []" "first_index new = Suc (lastLogIndex rl)" "log_append rl new = (rl', q)"
  shows "log_entries rl' (first_index new) (Suc (last_index new)) = Ok new
    \<and> lastLogIndex rl' = last_index new \<and> lastLogTerm rl' = e_Term (last new)
    \<and> stableIndex rl' < first_index new
    \<and> (log_entries rl i (Suc i) = Ok [e] \<longrightarrow> log_entries rl' i (Suc i) = Ok [e])"
proof -
  note st = log_run_state(1) [OF assms(1,2)]
  note d = log_stateD [OF st]
  have c: "storage_contract ops J ents hard snap" using assms(1) by (rule reliable_storage.axioms)
  have st': "log_state ops J ents rl'"
    using assms(3-6) by (intro storage_contract.step_append_state [OF c st]) auto
  note d' = log_stateD [OF st'] and f = log_append_fields [OF assms(6,4)]
  let ?es = "final_ents ents (rl_w rl)"
  have es': "final_ents ents (rl_w rl') = ?es @ new" using d(5) by (simp add: f(9) final_ents_enqueue)
  have cg: "contig (?es @ new)" using d'(4) by (simp add: caches_ok_def es')
  have fl: "first_index new \<le> last_index new" using assms(3) by (rule contig_first_le_last)
  have "log_entries rl' (first_index new) (Suc (last_index new)) = Ok (between (first_index new) (Suc (last_index new)) (?es @ new))"
  proof (rule reliable_storage.log_entries_spec [OF assms(1) d'(1)])
    show "first_index (?es @ new) \<le> first_index new"
      using contig_bounds [OF cg, of "new ! 0"] assms(4) nth0_first_index [OF assms(4)] by simp
  qed (use d'(2) es' assms(4) fl in \<open>simp_all add: writer_open_def writer_inv_def rl_storage_def\<close>)
  moreover have "between (first_index new) (Suc (last_index new)) new = new"
    using contig_bounds [OF assms(3)] by (simp add: between_def less_Suc_eq_le)
  then have "between (first_index new) (Suc (last_index new)) (?es @ new) = new"
    by (simp add: unstable_read [OF cg assms(4) order_refl])
  moreover have "unstableFirst rl' \<noteq> 0" "unstableFirst rl' \<le> first_index new"
  proof -
    obtain P where P: "?es @ new = P @ seg_entries (rl_segs rl')" "unstableFirst rl' = first_index (seg_entries (rl_segs rl'))"
      using log_inv_parts [OF d'(1)] es' by metis
    have "seg_entries (rl_segs rl') = seg_entries (rl_segs rl) @ new" by (simp add: f(3) seg_entries_def)
    moreover from this have "contig (seg_entries (rl_segs rl) @ new)" using cg P(1) contig_suffix by metis
    ultimately show "unstableFirst rl' \<noteq> 0" "unstableFirst rl' \<le> first_index new"
      using contig_zero_iff(1) [of "seg_entries (rl_segs rl) @ new"] P(2) assms(4)
        contig_bounds [of "seg_entries (rl_segs rl) @ new" "new ! 0"] nth0_first_index [OF assms(4)] by auto
  qed
  moreover have "0 < last_index new" using assms(3,4) contig_zero_iff(2) by auto
  ultimately show ?thesis
    using stable_below_unstable [of rl'] reliable_storage.log_entries_one [OF assms(1) d(1,2)]
      reliable_storage.log_entries_one [OF assms(1) d'(1,2)] es'
    by (auto simp: lastLogIndex_def lastLogTerm_def f)
qed

theorem appended_entries_are_read_witness:
  "log_entries (fst (log_append demo_log [demo_entry 4 2])) 4 5 = Ok [demo_entry 4 2]"
proof -
  have "contig [demo_entry 4 2]" "first_index [demo_entry 4 2] = Suc (lastLogIndex demo_log)"
    by (simp_all add: contig_def demo_entry_def demo_fields)
  then show ?thesis
    using appended_entries_are_read [OF mem.reliable_storage_axioms demo_run, of "[demo_entry 4 2]"
        "fst (log_append demo_log [demo_entry 4 2])" "snd (log_append demo_log [demo_entry 4 2])"]
    by (simp add: demo_entry_def)
qed

text \<open>C7.  The position a node votes by.  In every run, while the log holds an entry, the term it
  reports for its last position is the term of the entry there.\<close>

theorem last_term_is_cached_correctly:
  assumes "reliable_storage ops J ents hard snap" "log_run ops J ents s rl" "rl_last rl \<noteq> 0"
  shows "termAt rl (lastLogIndex rl) = Some (lastLogTerm rl) \<and> log_entries rl (lastLogIndex rl) (Suc (lastLogIndex rl)) \<noteq> Ok []"
proof -
  note st = log_run_state [OF assms(1,2)]
  note d = log_stateD [OF st(1)]
  let ?es = "final_ents ents (rl_w rl)"
  have c: "contig ?es" "rl_last rl = last_index ?es" using d(4) by (simp_all add: caches_ok_def)
  have ne: "?es \<noteq> []" using assms(3) c by auto
  have b: "first_index ?es \<le> last_index ?es" using c(1) by (rule contig_first_le_last)
  have "last_index ?es - first_index ?es = length ?es - 1" using contig_last [OF c(1) ne] by simp
  then have l: "?es ! (last_index ?es - first_index ?es) = last ?es" using ne by (simp add: last_conv_nth)
  have li: "lastLogIndex rl = last_index ?es" using lastLogIndex_spec [OF d(4)] ne by simp
  have "termAt rl (lastLogIndex rl) = Some (e_Term (last ?es))"
    unfolding li using termAt_spec [OF d(4,3) ne b order_refl] l by simp
  moreover have "log_entries rl (lastLogIndex rl) (Suc (lastLogIndex rl)) = Ok [last ?es]"
    using reliable_storage.log_entries_one [OF assms(1) d(1,2)] ne li by (simp add: last_index_def)
  ultimately show ?thesis using st(2) ne by (simp add: lastLogTerm_def top_ok_def)
qed

theorem last_term_is_cached_correctly_witness:
  "rl_last demo_log = 3 \<and> termAt demo_log (lastLogIndex demo_log) = Some (lastLogTerm demo_log)"
proof -
  have "rl_last demo_log \<noteq> 0" by (simp add: demo_fields)
  then show ?thesis
    using last_term_is_cached_correctly [OF mem.reliable_storage_axioms demo_run] by (simp add: demo_fields)
qed

text \<open>C8.  What compacting the whole log does to it.  When a snapshot at the last index is taken
  and no trailing entries are kept, the last index is the snapshot's, but the last term stays
  that of the snapshot before it, 0 when there was none: the prefix is truncated before the new
  boundary is recorded.  A candidate is then compared with that term.  This departs from what
  the code documents: the comment on \<open>lastTerm\<close> calls it the term of the entry at \<open>last\<close> or the
  \<open>LastIncludedTerm\<close> of the snapshot.\<close>

theorem whole_compaction_keeps_the_old_term:
  assumes "reliable_storage ops J ents hard snap" "log_run ops J ents s rl" "rl_last rl \<noteq> 0"
    and "sm_LastIncludedIndex meta = rl_last rl"
  shows "lastLogIndex (log_compact rl meta (Suc (rl_last rl))) = sm_LastIncludedIndex meta
    \<and> lastLogTerm (log_compact rl meta (Suc (rl_last rl))) = snap_term rl
    \<and> isUpToDate (log_compact rl meta (Suc (rl_last rl))) ci ct =
        (snap_term rl < ct \<or> ct = snap_term rl \<and> sm_LastIncludedIndex meta \<le> ci)"
proof -
  note d = log_stateD [OF log_run_state(1) [OF assms(1,2)]]
  have c: "contig (final_ents ents (rl_w rl))" "rl_first rl \<le> rl_last rl"
    using d(4) contig_first_le_last by (auto simp: caches_ok_def)
  then have "\<not> (rl_first rl \<noteq> 0 \<and> Suc (rl_last rl) \<le> rl_first rl)" by simp
  note f = truncatePrefix_fields [OF refl this]
  show ?thesis
    by (auto simp: log_compact_def lastLogIndex_def lastLogTerm_def isUpToDate_def f snap_index_def snap_term_def Let_def)
qed

text \<open>A candidate whose log ends at index 1 in term 1 is judged up to date by a node that has
  committed and compacted entries up to index 3 in term 2.\<close>

theorem whole_compaction_keeps_the_old_term_witness:
  "rl_last demo_log = 3 \<and> lastLogTerm demo_log = 2 \<and> \<not> isUpToDate demo_log 1 1
    \<and> lastLogTerm (log_compact demo_log \<lparr>sm_LastIncludedIndex = 3, sm_LastIncludedTerm = 2\<rparr> (Suc (rl_last demo_log))) = 0
    \<and> isUpToDate (log_compact demo_log \<lparr>sm_LastIncludedIndex = 3, sm_LastIncludedTerm = 2\<rparr> (Suc (rl_last demo_log))) 1 1"
proof -
  have "\<not> isUpToDate demo_log 1 1" by (simp add: isUpToDate_def demo_fields)
  then show ?thesis
    using whole_compaction_keeps_the_old_term [OF mem.reliable_storage_axioms demo_run,
        of "\<lparr>sm_LastIncludedIndex = 3, sm_LastIncludedTerm = 2\<rparr>" 1 1] by (simp add: demo_fields)
qed

text \<open>C9.  What a restart does when a received snapshot was saved and the log had not been cut
  yet.  If the store holds a snapshot beyond the last of its entries, the node starts with the
  position of that last entry and not of the snapshot: it reports an index below the snapshot it
  holds and may have acknowledged.\<close>

theorem restart_behind_the_snapshot:
  assumes "reliable_storage ops J ents hard snap" "J s" "ents s \<noteq> []"
    and "newRaftLog (newStorageWriter ops s) = Ok rl" "last_index (ents s) < snap_index rl"
  shows "lastLogIndex rl = last_index (ents s) \<and> lastLogTerm rl = e_Term (last (ents s))
    \<and> lastLogIndex rl < snap_index rl
    \<and> isUpToDate rl ci ct = (e_Term (last (ents s)) < ct \<or> ct = e_Term (last (ents s)) \<and> last_index (ents s) \<le> ci)"
proof -
  note n = reliable_storage.newRaftLog_Ok [OF assms(1,2,4)]
  have "caches_ok rl (ents s)" using log_invD(1) [OF n(1)] n(3) by simp
  then have "lastLogIndex rl = last_index (ents s)" using lastLogIndex_spec assms(3) by fastforce
  moreover have "lastLogTerm rl = e_Term (last (ents s))" using n(4) assms(3) by (simp add: term_ok_def lastLogTerm_def)
  ultimately show ?thesis using assms(5) by (auto simp: isUpToDate_def Let_def)
qed

text \<open>A store with one entry of term 1 on which a snapshot up to index 5 in term 2 was saved.\<close>

definition demo_store :: MemStore where
  "demo_store = mem_New\<lparr>mem_entries := [demo_entry 1 1], mem_hasSnap := True,
    mem_snapMeta := \<lparr>sm_LastIncludedIndex = 5, sm_LastIncludedTerm = 2\<rparr>, mem_snapData := replicate 12 0\<rparr>"

lemma demo_store_ok: "mem_ok demo_store"
  by (simp add: mem_ok_def demo_store_def demo_entry_def contig_def)

lemma le_nat_zeros [simp]: "le_nat (replicate n 0) = 0"
  by (induction n) simp_all

theorem restart_behind_the_snapshot_witness:
  "\<exists>rl. newRaftLog (newStorageWriter mem_storage demo_store) = Ok rl \<and> snap_index rl = 5 \<and> lastLogIndex rl = 1
    \<and> isUpToDate rl 1 1"
proof -
  have fr: "readSnapshotFrame (mem_snapData demo_store) = Ok (empty_frame, replicate 12 0)"
    unfolding demo_store_def
    by (simp add: read_foreign snapFrameMagicV1_def snapFrameMagicV2_def snapFrameMagicV3_def le_nat_zeros)
  obtain rl where rl: "newRaftLog (newStorageWriter mem_storage demo_store) = Ok rl" "snap_index rl = 5"
  proof (rule mem.newRaftLog_spec [OF demo_store_ok refl])
    show "load_snapshot_part (empty_log (newStorageWriter mem_storage demo_store))
        = Ok ((empty_log (newStorageWriter mem_storage demo_store))
          \<lparr>rl_snapMeta := \<lparr>sm_LastIncludedIndex = 5, sm_LastIncludedTerm = 2\<rparr>\<rparr>)"
      using fr by (simp add: load_snapshot_part_def newStorageWriter_def rl_storage_def empty_log_def mem_LoadSnapshot_def
        demo_store_def empty_frame_def)
  qed (simp_all add: snap_index_def)
  have "mem_entries demo_store = [demo_entry 1 1]" by (simp add: demo_store_def)
  then show ?thesis
    using restart_behind_the_snapshot [OF mem.reliable_storage_axioms demo_store_ok _ rl(1), of 1 1] rl
    by (simp add: demo_entry_def)
qed

end
