(* ===== verification/Component_Properties.thy ===== *)
theory Component_Properties
  imports Log_Properties Snapshot_Frame Quorum
begin

text \<open>
  The properties of the parts below the node: the byte formats, the table of client
  sessions, the in-memory store, the storage writer, the term cache and the quorum sizes.
\<close>

section \<open>Formats\<close>

text \<open>C10.  A snapshot frame is read back as it was written: the session table, the membership,
  the bound of the table when one was recorded, and the bytes of the state machine, which begin
  where the state machine's own writer began.\<close>

theorem snapshot_frame_roundtrip:
  assumes "frame_ok f" "\<And>w. smSnapshot w = Ok (w @ smData)"
  shows "\<exists>b. writeSnapshotFrame buffer_write [] f smSnapshot = Ok b \<and> readSnapshotFrame b = Ok (frame_read f, smData)"
  using assms by (rule frame_roundtrip)

definition sample_frame :: snapshotFrame where
  "sample_frame = \<lparr>sf_table = [([65], \<lparr>ce_seqNum = 7, ce_result = [1, 2]\<rparr>)],
    sf_membership = \<lparr>ms_joint = False, ms_members = [\<lparr>pc_ID = [66], pc_Voter = True, pc_Witness = False\<rparr>],
      ms_old = [], ms_new = [], ms_commitQuorum = 2\<rparr>,
    sf_hasMembership = True, sf_clientTableCap = 100, sf_hasClientTableCap = True\<rparr>"

lemma sample_frame_ok: "frame_ok sample_frame"
  by (simp add: frame_ok_def sample_frame_def table_ok_def record_ok_def membership_ok_def peers_ok_def peer_ok_def
      encodeClientTable_def encodeClientRecord_def encodeMembership_def appendPeerList_def encodePeer_def maxInt_def)

theorem snapshot_frame_roundtrip_witness:
  "frame_ok sample_frame
    \<and> (\<exists>b. writeSnapshotFrame buffer_write [] sample_frame (\<lambda>w. Ok (w @ [9, 9])) = Ok b
        \<and> readSnapshotFrame b = Ok (frame_read sample_frame, [9, 9]))"
  using snapshot_frame_roundtrip [OF sample_frame_ok, of "\<lambda>w. Ok (w @ [9, 9])" "[9, 9]"] sample_frame_ok by simp

text \<open>C11.  Frames of the two older layouts and snapshots that carry no frame: a frame of the
  first gives the table alone, one of the second table and membership, and at least twelve bytes
  that begin with no known mark are handed to the state machine untouched.  Fewer than twelve
  bytes are refused, so that a snapshot without a frame that is shorter than the common header is
  not read, although the comment in the code promises the whole of such a reader to the state
  machine.\<close>

theorem older_frames_are_read:
  assumes "table_ok t" "length (encodeClientTable t) < 2 ^ 32"
    and "membership_ok ms" "length (encodeMembership ms) < 2 ^ 32"
    and "12 \<le> length r" "le_nat (take 8 r) \<notin> {snapFrameMagicV1, snapFrameMagicV2, snapFrameMagicV3}"
    and "length q < 12"
  shows "readSnapshotFrame (le_bytes 8 snapFrameMagicV1 @ le_bytes 4 (length (encodeClientTable t))
        @ encodeClientTable t @ smData) = Ok (empty_frame\<lparr>sf_table := t\<rparr>, smData)
    \<and> readSnapshotFrame (le_bytes 8 snapFrameMagicV2 @ le_bytes 4 (length (encodeClientTable t))
        @ le_bytes 4 (length (encodeMembership ms)) @ encodeClientTable t @ encodeMembership ms @ smData)
      = Ok (empty_frame\<lparr>sf_table := t, sf_membership := ms, sf_hasMembership := True\<rparr>, smData)
    \<and> readSnapshotFrame r = Ok (empty_frame, r)
    \<and> readSnapshotFrame q = Fail (if q = [] then HeaderEmptyFile else HeaderShort)"
  using read_v1 [OF assms(1,2)] read_v2 [OF assms(1-4)] read_foreign [OF assms(5,6)] read_short [OF assms(7)] by simp

theorem older_frames_are_read_witness:
  "readSnapshotFrame (le_bytes 8 snapFrameMagicV1 @ le_bytes 4 (length (encodeClientTable (sf_table sample_frame)))
      @ encodeClientTable (sf_table sample_frame) @ [5]) = Ok (empty_frame\<lparr>sf_table := sf_table sample_frame\<rparr>, [5])
    \<and> readSnapshotFrame (replicate 12 0) = Ok (empty_frame, replicate 12 0)
    \<and> readSnapshotFrame [1, 2, 3] = Fail HeaderShort"
  using older_frames_are_read [of "sf_table sample_frame" "sf_membership sample_frame" "replicate 12 0" "[1, 2, 3]" "[5]"] sample_frame_ok
  by (simp add: frame_ok_def le_nat_zeros snapFrameMagicV1_def snapFrameMagicV2_def snapFrameMagicV3_def)

text \<open>C12.  Every entry that changes the configuration, and the membership recorded with a
  snapshot, decodes to what was encoded; a membership of a build that recorded no quorum
  decodes with the majority rule.\<close>

theorem configuration_roundtrips:
  assumes "peers_ok old" "peers_ok new" "0 \<le> q" "q \<le> maxInt" "membership_ok ms"
  shows "decodeConfigEntry (encodeConfigEntry op p) = Ok (op, p)
    \<and> decodeJointConfigEntry (encodeJointConfigEntry old new) = Ok (old, new)
    \<and> decodeFinaliseConfigEntry (encodeFinaliseConfigEntry new) = Ok new
    \<and> decodeCommitQuorumEntry (encodeCommitQuorumEntry q) = Ok q
    \<and> decodeClientTableCapEntry (encodeClientTableCapEntry q) = Ok q
    \<and> decodeMembership (encodeMembership ms) = Ok ms
    \<and> decodeMembership (take (length (encodeMembership ms) - 8) (encodeMembership ms)) = Ok (ms\<lparr>ms_commitQuorum := 0\<rparr>)"
  using assms by (simp add: config_entry_roundtrip joint_entry_roundtrip finalise_entry_roundtrip
      commit_quorum_entry_roundtrip client_table_cap_entry_roundtrip membership_roundtrip membership_without_quorum)

theorem configuration_roundtrips_witness:
  "decodeJointConfigEntry (encodeJointConfigEntry [] (ms_members (sf_membership sample_frame)))
      = Ok ([], ms_members (sf_membership sample_frame))
    \<and> decodeMembership (encodeMembership (sf_membership sample_frame)) = Ok (sf_membership sample_frame)
    \<and> decodeCommitQuorumEntry (encodeCommitQuorumEntry 3) = Ok 3"
  using configuration_roundtrips [of "[]" "ms_members (sf_membership sample_frame)" 3 "sf_membership sample_frame"]
    sample_frame_ok by (simp add: frame_ok_def sample_frame_def peers_ok_def peer_ok_def maxInt_def)

text \<open>C13.  A client's command survives its wrapping: the wrapped command is recognised as one,
  and gives back the client, the number and the command, whatever bytes the command has.\<close>

theorem client_command_roundtrip:
  assumes "length clientID < 2 ^ 16" "seqNum < 2 ^ 64"
  shows "isDedupCmd (encodeDedupCmd clientID seqNum cmd) \<and> \<not> isConfigEntry (encodeDedupCmd clientID seqNum cmd)
    \<and> decodeDedupCmd (encodeDedupCmd clientID seqNum cmd) = Ok (clientID, seqNum, cmd)"
  using dedup_roundtrip [OF assms] encodeDedupCmd_recognised
  by (simp add: isConfigEntry_iff configMagic_def encodeDedupCmd_def dedupMagic_def)

theorem client_command_roundtrip_witness:
  "decodeDedupCmd (encodeDedupCmd [1, 2] (2 ^ 64 - 1) [0, 0x52, 0x61, 0x43]) = Ok ([1, 2], 2 ^ 64 - 1, [0, 0x52, 0x61, 0x43])"
  using client_command_roundtrip [of "[1, 2]" "2 ^ 64 - 1"] by simp

text \<open>C14.  No bytes make a decoder panic: every slice a decoder takes of what came off the
  wire or the disk is inside it, for truncated, oversized and foreign input.  The memory that a
  decoder reserves by a count in its input is not part of the statement.\<close>

theorem decoders_never_panic:
  "decodeConfigEntry b \<noteq> Panic \<and> decodeJointConfigEntry b \<noteq> Panic \<and> decodeFinaliseConfigEntry b \<noteq> Panic
    \<and> decodeCommitQuorumEntry b \<noteq> Panic \<and> decodeClientTableCapEntry b \<noteq> Panic \<and> decodeMembership b \<noteq> Panic
    \<and> decodeDedupCmd b \<noteq> Panic \<and> decodeClientTable b \<noteq> Panic \<and> readSnapshotFrame b \<noteq> Panic"
  by (simp add: config_no_panic decodeDedupCmd_no_panic decodeClientTable_no_panic readSnapshotFrame_no_panic)

section \<open>Client sessions\<close>

text \<open>C15.  The session table implements the list of sessions in order of use: looking one up is
  looking it up in the list, recording one moves it to the front and evicts the last when the
  bound is passed, a new bound keeps the most recent, and loading a snapshot's list gives that
  list cut at the bound.\<close>

theorem session_table_refines_recency_list:
  assumes "lru_ok c"
  shows "lru_get c i = map_of (lru_records c) i
    \<and> lru_ok (fst (lru_put c i ce)) \<and> lru_ok (fst (lru_setCap c n)) \<and> lru_ok (lru_loadFrom c rs)
    \<and> (lru_records (fst (lru_put c i ce)), snd (lru_put c i ce)) = spec_put (lru_cap c) (lru_records c) i ce
    \<and> (lru_records (fst (lru_setCap c n)), snd (lru_setCap c n)) = spec_cap n (lru_records c)
    \<and> lru_records (lru_loadFrom c rs) = spec_load (lru_cap c) [] rs"
  using lru.get_spec [OF assms] lru.put_spec [OF assms, of i ce "fst (lru_put c i ce)" "snd (lru_put c i ce)"]
    lru.cap_spec [OF assms, of n "fst (lru_setCap c n)" "snd (lru_setCap c n)"] lru.load_spec [OF assms]
  by simp

definition session :: "byte \<Rightarrow> nat \<Rightarrow> clientRecord" where
  "session i k = ([i], \<lparr>ce_seqNum = k, ce_result = []\<rparr>)"

theorem session_table_refines_recency_list_witness:
  "lru_records (lru_loadFrom (newClientLRU 2) [session 1 4, session 2 5, session 3 6]) = [session 1 4, session 2 5]"
  using session_table_refines_recency_list [OF newClientLRU_ok [of 2], of _ _ _ "[session 1 4, session 2 5, session 3 6]"]
  by (simp add: newClientLRU_def session_def)

text \<open>C16.  Replicas that apply the same log hold the same sessions.  Two tables with the same
  list and bound that take the same operations in the same order - one of them possibly loaded
  from the other's snapshot - evict the same clients at the same points, and answer every client
  alike afterwards.\<close>

theorem replicas_hold_the_same_sessions:
  assumes "lru_ok t" "lru_ok u" "lru_cap t = lru_cap u"
  shows "lru_records (lru_loadFrom t (lru_records u)) = lru_records u
    \<and> snd (table_steps lru_put lru_setCap (lru_loadFrom t (lru_records u)) ops) = snd (table_steps lru_put lru_setCap u ops)
    \<and> lru_records (fst (table_steps lru_put lru_setCap (lru_loadFrom t (lru_records u)) ops))
        = lru_records (fst (table_steps lru_put lru_setCap u ops))
    \<and> lru_get (fst (table_steps lru_put lru_setCap (lru_loadFrom t (lru_records u)) ops)) i
        = lru_get (fst (table_steps lru_put lru_setCap u ops)) i"
proof -
  let ?t = "lru_loadFrom t (lru_records u)"
  have t: "lru_ok ?t" "lru_cap ?t = lru_cap u" "lru_records ?t = lru_records u"
    using lru.load_spec [OF assms(1)] assms(3) lru.load_recs [OF assms] by simp_all
  show ?thesis
    using lru.steps_agree [OF t(1) assms(2) t(3,2) prod.collapse [symmetric] prod.collapse [symmetric], of ops] t(3) by simp
qed

theorem replicas_hold_the_same_sessions_witness:
  "lru_get (fst (table_steps lru_put lru_setCap (lru_loadFrom (newClientLRU 2) [])
      [TPut [1] \<lparr>ce_seqNum = 4, ce_result = []\<rparr>, TCap 1])) [1] = Some \<lparr>ce_seqNum = 4, ce_result = []\<rparr>"
  using replicas_hold_the_same_sessions [OF newClientLRU_ok [of 2] newClientLRU_ok [of 2] refl,
      of "[TPut [1] \<lparr>ce_seqNum = 4, ce_result = []\<rparr>, TCap 1]" "[1]"]
  by (simp add: newClientLRU_def lru_records_def lru_put_def lru_setCap_def lru_evict.simps lru_len_def lru_get_def Let_def)

section \<open>The store and its writer\<close>

text \<open>C17.  The in-memory store keeps the whole documented storage contract: what every mutating
  call leaves behind, that each of them succeeds within the contract, saving a snapshot included,
  and what every read returns: the hard state, one entry or \<open>ErrNotFound\<close>, a range or
  \<open>ErrNotFound\<close>, the first and last index, the snapshot or \<open>ErrNoSnapshot\<close>.  A new store is
  empty, and the recorded commit index is the largest one saved.\<close>

theorem mem_store_keeps_the_contract:
  "complete_storage mem_storage mem_ok mem_entries mem_hs mem_snap
    \<and> mem_ok mem_New \<and> mem_entries mem_New = [] \<and> mem_snap mem_New = None
    \<and> mem_hs mem_New = \<lparr>hs_CurrentTerm = 0, hs_VotedFor = []\<rparr> \<and> mem_LoadCommitIndex mem_New = Ok 0
    \<and> mem_LoadCommitIndex (fst (mem_SaveCommitIndex m i)) = Ok (max (mem_commitIndex m) i)"
  using mem.complete_storage_axioms
  by (simp add: mem_New_def mem_ok_def mem_snap_def mem_LoadCommitIndex_def mem_SaveCommitIndex_def)

text \<open>C18.  Closing the writer drains it.  A writer with operations queued that is closed comes
  to an end after at most one turn more than it has operations, having reported a completion for
  every operation in the order they were queued; if none failed, the store holds the effect of
  all of them.\<close>

theorem closed_writer_drains:
  assumes "storage_contract ops J ents hard snap" "writer_inv ops J ents w"
    and "sw_started w" "\<not> sw_closed w" "\<not> sw_exited w" "sw_running w = []"
  shows "\<exists>w'. writer_turns (Suc (length (sw_queue w))) (writer_close w) = Ok w' \<and> sw_exited w' \<and> sw_queue w' = [] \<and> sw_running w' = []
    \<and> map wd_seq (sw_done w') = map wd_seq (sw_done w) @ map wo_seq (sw_queue w)
    \<and> (sw_failed w' = None \<longrightarrow> ents (sw_storage w') = fold effect (sw_queue w) (ents (sw_storage w))
        \<and> hard (sw_storage w') = fold hs_effect (sw_queue w) (hard (sw_storage w)))"
proof -
  let ?c = "writer_close w"
  have c: "sw_queue ?c = sw_queue w" "sw_done ?c = sw_done w" "sw_storage ?c = sw_storage w" "sw_running ?c = []"
    "sw_started ?c" "sw_closed ?c" "\<not> sw_exited ?c"
    using assms(3-6) by (simp_all add: writer_close_def)
  have "writer_inv ops J ents ?c"
    using assms(2-4) by (simp add: writer_close_def writer_inv_def pending_ops_def)
  from storage_contract.drain [OF assms(1) this c(6,5,7,4) le_refl]
  obtain w' where "writer_turns (Suc (length (sw_queue w))) ?c = Ok w'" "sw_exited w'" "pending_ops w' = []"
    "map wd_seq (sw_done w') = map wd_seq (sw_done w) @ map wo_seq (sw_queue w)"
    "sw_failed w' = None \<longrightarrow> sw_failed ?c = None \<and> ents (sw_storage w') = fold effect (sw_queue w) (ents (sw_storage w))
      \<and> hard (sw_storage w') = fold hs_effect (sw_queue w) (hard (sw_storage w))"
    unfolding c(1-3) by (elim exE conjE)
  then show ?thesis by (intro exI [of _ w']) (simp add: pending_ops_def del: writer_turns.simps)
qed

theorem closed_writer_drains_witness:
  "\<exists>w'. writer_turns 2 (writer_close (rl_w demo_log)) = Ok w' \<and> sw_exited w' \<and> map wd_seq (sw_done w') = [2]"
proof -
  have "writer_inv mem_storage mem_ok mem_entries (rl_w demo_log)"
    using log_stateD [OF log_run_state(1) [OF mem.reliable_storage_axioms demo_run]] by (simp add: writer_open_def)
  moreover have "sw_started (rl_w demo_log)" "\<not> sw_closed (rl_w demo_log)" "\<not> sw_exited (rl_w demo_log)"
    "sw_running (rl_w demo_log) = []" "map wo_seq (sw_queue (rl_w demo_log)) = [2]" "length (sw_queue (rl_w demo_log)) = 1"
    "sw_done (rl_w demo_log) = []"
    by (simp_all add: demo_log_eq newStorageWriter_def append_op_def)
  ultimately show ?thesis
    using closed_writer_drains [OF mem.storage_contract_axioms, of "rl_w demo_log"] by (auto simp: numeral_2_eq_2)
qed

section \<open>The term cache and the quorum sizes\<close>

lemma find_image:
  "(\<And>x. x \<in> set xs \<Longrightarrow> P (f x) = Q x) \<Longrightarrow> find P (map f xs) = map_option f (find Q xs)"
  by (induction xs) auto

text \<open>C19.  The last index of a term, which a leader finds in the cached runs of equal terms, is
  what a scan of the log from its end finds, in every run in which the log holds an entry.\<close>

theorem last_index_of_term_is_a_scan:
  assumes "reliable_storage ops J ents hard snap" "log_run ops J ents s rl" "rl_last rl \<noteq> 0"
  shows "lastIndexOfTerm rl t = find (\<lambda>i. termAt rl i = Some t) (rev [rl_first rl..<Suc (rl_last rl)])"
proof -
  let ?es = "final_ents ents (rl_w rl)"
  note d = log_stateD [OF log_run_state(1) [OF assms(1,2)]]
  have c: "caches_ok rl ?es" using d by simp
  then have f: "contig ?es" "rl_first rl = first_index ?es" "rl_last rl = last_index ?es" by (simp_all add: caches_ok_def)
  have ne: "?es \<noteq> []" using assms(3) f by auto
  have idx: "map e_Index ?es = [rl_first rl..<Suc (rl_last rl)]"
    using f ne contig_last [OF f(1) ne] contig_first_le_last [OF f(1)] by (simp add: contig_iff contig_from_def)
  have at: "termAt rl (e_Index e) = Some (e_Term e)" if "e \<in> set ?es" for e
  proof -
    have b: "first_index ?es \<le> e_Index e" "e_Index e \<le> last_index ?es" using contig_bounds [OF f(1) that] by simp_all
    note l = contig_lookup [OF f(1) b ne]
    then have "?es ! (e_Index e - first_index ?es) = e" using contig_inj [OF f(1) nth_mem that] by blast
    then show ?thesis using termAt_spec [OF c d(3) ne b] by simp
  qed
  have "max_index_of_term ?es t = find (\<lambda>i. termAt rl i = Some t) (rev [rl_first rl..<Suc (rl_last rl)])"
    unfolding idx [symmetric] max_index_of_term_def rev_map by (rule sym, rule find_image) (simp add: at)
  moreover have "lastIndexOfTerm rl t = max_index_of_term ?es t"
    using lastIndexOfTerm_spec [OF c, of t] ne by (simp split: option.splits)
  ultimately show ?thesis by (rule trans [rotated])
qed

theorem last_index_of_term_is_a_scan_witness:
  "lastIndexOfTerm demo_log 1 = find (\<lambda>i. termAt demo_log i = Some 1) [3, 2, 1] \<and> lastIndexOfTerm demo_log 1 = Some 2"
proof -
  have "rev [1..<Suc 3] = [3, 2, 1 :: nat]" by code_simp
  moreover have "rl_last demo_log \<noteq> 0" by (simp add: demo_fields)
  note last_index_of_term_is_a_scan [OF mem.reliable_storage_axioms demo_run this, of 1, unfolded demo_fields(1,2)]
  moreover have "lastIndexOfTerm demo_log 1 = Some 2" by (simp add: lastIndexOfTerm_def demo_log_eq)
  ultimately show ?thesis by (simp only: simp_thms)
qed

text \<open>C20.  The quorum sizes are sound whatever policy is configured, negative and oversized
  policies included: each is between one and the number of voters, what an entry is committed by
  and what a leader is elected by together exceed the number of voters, and so do two elections
  under any two policies.\<close>

theorem quorum_sizes_are_sound:
  assumes "0 < tot"
  shows "1 \<le> quorumNeeded k applied latest tot \<and> quorumNeeded k applied latest tot \<le> tot
    \<and> tot < quorumNeeded commitQuorum applied latest tot + quorumNeeded electionQuorum latest later tot
    \<and> tot < electionQuorumFor applied tot + electionQuorumFor latest tot"
  using quorumNeeded_bounds [OF assms, of k applied latest] commit_plus_election [OF assms, of latest]
    quorumNeeded_ge(4) [of latest tot applied] quorumNeeded_ge(1) [of latest tot later]
    election_plus_election [OF assms, of applied latest]
  by linarith

theorem quorum_sizes_are_sound_witness:
  "quorumNeeded commitQuorum 2 0 5 = 3 \<and> quorumNeeded electionQuorum 0 2 5 = 4
    \<and> (5 :: int) < quorumNeeded commitQuorum 2 0 5 + quorumNeeded electionQuorum 0 2 5"
  using quorum_sizes_are_sound [of 5 commitQuorum 2 0 2] by (simp add: commitQuorumFor_def electionQuorumFor_def)

end
