(* ===== verification/Apply_Loop.thy ===== *)
theory Apply_Loop
  imports Node_New
begin

text \<open>
  The goroutine that feeds committed entries to the state machine (\<open>applyLoop\<close> and
  \<open>applyRestore\<close> of \<open>node.go\<close>, \<open>apply_batch.go\<close>).  The state machine is a parameter: a
  state \<open>'sm\<close>, the function \<open>Apply\<close>, optionally \<open>ApplyBatch\<close>, and \<open>Restore\<close>.  Results go
  to the event loop in the order of \<open>al_results\<close>.
\<close>

section \<open>The state machine and the loop's own state\<close>

record ApplyOutcome =
  ao_Value :: bytes
  ao_Err :: "raft_error option"

record 'sm StateMachine =
  sm_Apply :: "'sm \<Rightarrow> LogEntry \<Rightarrow> 'sm \<times> ApplyOutcome"
  sm_ApplyBatch :: "('sm \<Rightarrow> LogEntry list \<Rightarrow> 'sm \<times> ApplyOutcome list result) option"
  sm_Restore :: "'sm \<Rightarrow> SnapshotMeta \<Rightarrow> bytes \<Rightarrow> 'sm \<times> unit result"

record 'sm applyState =
  al_last :: Index
  al_table :: clientLRU
  al_sm :: 'sm
  al_results :: "applyResult list"
  al_fatal :: bool

record dedupNote =
  dn_set :: bool
  dn_clientID :: NodeID
  dn_seqNum :: nat

definition no_note :: dedupNote where "no_note = \<lparr>dn_set = False, dn_clientID = [], dn_seqNum = 0\<rparr>"

section \<open>A run of entries\<close>

fun apply_each :: "'sm StateMachine \<Rightarrow> LogEntry list \<Rightarrow> 'sm \<Rightarrow> 'sm \<times> ApplyOutcome list" where
  "apply_each m [] s = (s, [])"
| "apply_each m (e # es) s =
    (case sm_Apply m s e of (s, out) \<Rightarrow> case apply_each m es s of (s, outs) \<Rightarrow> (s, out # outs))"

text \<open>A batch with the wrong number of outcomes stops the node.\<close>

definition applyEntries :: "'sm StateMachine \<Rightarrow> LogEntry list \<Rightarrow> 'sm \<Rightarrow> 'sm \<times> bool \<times> ApplyOutcome list result" where
  "applyEntries m es s =
    (case sm_ApplyBatch m of
       Some batch \<Rightarrow>
         (case batch s es of
            (s, Ok outs) \<Rightarrow>
              if length outs \<noteq> length es then (s, True, Fail (ErrOther ''ApplyBatch returned a wrong number of outcomes''))
              else (s, False, Ok outs)
          | (s, Fail e) \<Rightarrow> (s, False, Fail e)
          | (s, Panic) \<Rightarrow> (s, False, Panic))
     | None \<Rightarrow> (case apply_each m es s of (s, outs) \<Rightarrow> (s, False, Ok outs)))"

text \<open>One entry of a run: what the state machine sees, the entry of the log, the note.\<close>

type_synonym pendingEntry = "LogEntry \<times> LogEntry \<times> dedupNote"

definition report_one :: "pendingEntry \<times> ApplyOutcome \<Rightarrow> 'sm applyState \<Rightarrow> 'sm applyState" where
  "report_one po a =
    (case po of ((_, raw, note), out) \<Rightarrow>
      let a = (if ao_Err out = None \<and> dn_set note
               then a\<lparr>al_table := fst (lru_put (al_table a) (dn_clientID note)
                        \<lparr>ce_seqNum = dn_seqNum note, ce_result = ao_Value out\<rparr>)\<rparr>
               else a)
      in a\<lparr>al_results := al_results a @ [\<lparr>ap_index = e_Index raw, ap_val = ao_Value out, ap_err = ao_Err out,
             ap_cmd = e_Command raw, ap_configCmd = None\<rparr>], al_last := e_Index raw\<rparr>)"

definition applyPending :: "'sm StateMachine \<Rightarrow> pendingEntry list \<Rightarrow> 'sm applyState \<Rightarrow> (unit, 'sm applyState) outcome" where
  "applyPending m ps a =
    (case applyEntries m (map fst ps) (al_sm a) of
       (s, fatal, Panic) \<Rightarrow> Panic
     | (s, fatal, Ok outs) \<Rightarrow> Ok (fold report_one (zip ps outs) (a\<lparr>al_sm := s\<rparr>))
     | (s, fatal, Fail e) \<Rightarrow>
         Ok (fold report_one (zip ps (replicate (length ps) \<lparr>ao_Value = [], ao_Err = Some e\<rparr>))
              (a\<lparr>al_sm := s, al_fatal := (al_fatal a \<or> fatal)\<rparr>)))"

definition flush :: "'sm StateMachine \<Rightarrow> pendingEntry list \<Rightarrow> 'sm applyState \<Rightarrow> (unit, 'sm applyState) outcome" where
  "flush m ps a = (if length ps = 0 then Ok a else applyPending m ps a)"

definition report :: "applyResult \<Rightarrow> 'sm applyState \<Rightarrow> 'sm applyState" where
  "report ar a = a\<lparr>al_results := al_results a @ [ar], al_last := ap_index ar\<rparr>"

section \<open>Committed entries\<close>

text \<open>The loop over the entries of one notification; \<open>ps\<close> is the run collected so far.\<close>

fun apply_entries_loop :: "'sm StateMachine \<Rightarrow> LogEntry list \<Rightarrow> pendingEntry list \<Rightarrow> 'sm applyState
    \<Rightarrow> (unit, 'sm applyState) outcome" where
  "apply_entries_loop m [] ps a = flush m ps a"
| "apply_entries_loop m (e # es) ps a =
    (let cmd = e_Command e
     in if isConfigEntry cmd then
          obind (flush m ps a) (\<lambda>a.
            let a = (case decodeClientTableCapEntry cmd of
                       Ok c \<Rightarrow> a\<lparr>al_table := fst (lru_setCap (al_table a) c)\<rparr> | _ \<Rightarrow> a);
                a = report \<lparr>ap_index = e_Index e, ap_val = [], ap_err = None, ap_cmd = cmd, ap_configCmd = Some cmd\<rparr> a
            in apply_entries_loop m es [] a)
        else if isDedupCmd cmd then
          (case decodeDedupCmd cmd of
             Panic \<Rightarrow> Panic
           | Fail _ \<Rightarrow> apply_entries_loop m es (ps @ [(e, e, no_note)]) a
           | Ok (client, seqNum, payload) \<Rightarrow>
               (case lru_get (al_table a) client of
                  Some cached \<Rightarrow>
                    if seqNum = ce_seqNum cached
                    then obind (flush m ps a) (\<lambda>a.
                           apply_entries_loop m es []
                             (report \<lparr>ap_index = e_Index e, ap_val = ce_result cached, ap_err = None, ap_cmd = cmd,
                                      ap_configCmd = None\<rparr> a))
                    else apply_entries_loop m es (ps @ [(e\<lparr>e_Command := payload\<rparr>, e,
                           \<lparr>dn_set = True, dn_clientID = client, dn_seqNum = seqNum\<rparr>)]) a
                | None \<Rightarrow> apply_entries_loop m es (ps @ [(e\<lparr>e_Command := payload\<rparr>, e,
                           \<lparr>dn_set = True, dn_clientID = client, dn_seqNum = seqNum\<rparr>)]) a))
        else apply_entries_loop m es (ps @ [(e, e, no_note)]) a)"

text \<open>Reading one by one after the range could not be read: an entry that is missing is
  reported and skipped.\<close>

fun read_each :: "'st Storage \<Rightarrow> 'st \<Rightarrow> Index list \<Rightarrow> LogEntry list \<Rightarrow> 'sm applyState
    \<Rightarrow> (unit, LogEntry list \<times> 'sm applyState) outcome" where
  "read_each ops s [] es a = Ok (es, a)"
| "read_each ops s (i # is) es a =
    (case st_GetLogEntry ops s i of
       Ok e \<Rightarrow> read_each ops s is (es @ [e]) a
     | Fail err \<Rightarrow> read_each ops s is es
         (report \<lparr>ap_index = i, ap_val = [], ap_err = Some err, ap_cmd = [], ap_configCmd = None\<rparr> a)
     | Panic \<Rightarrow> Panic)"

definition apply_commit :: "'sm StateMachine \<Rightarrow> 'st Storage \<Rightarrow> 'st \<Rightarrow> Index \<Rightarrow> 'sm applyState
    \<Rightarrow> (unit, 'sm applyState) outcome" where
  "apply_commit m ops s commitIdx a =
    (let lo = al_last a + 1
     in if commitIdx < lo then Ok a
        else case st_GetLogEntries ops s lo (commitIdx + 1) of
               Ok es \<Rightarrow> apply_entries_loop m es [] a
             | Fail _ \<Rightarrow> obind (read_each ops s [lo ..< commitIdx + 1] [] a) (\<lambda>(es, a). apply_entries_loop m es [] a)
             | Panic \<Rightarrow> Panic)"

section \<open>Snapshots\<close>

definition applyRestore :: "'sm StateMachine \<Rightarrow> snapshotInstall \<Rightarrow> 'sm applyState \<Rightarrow> 'sm applyState" where
  "applyRestore m si a =
    (if sm_LastIncludedIndex (si_meta si) \<le> al_last a then a
     else let capacity = (if si_hasClientTableCap si then si_clientTableCap si else lru_cap (al_table a))
          in a\<lparr>al_sm := fst (sm_Restore m (al_sm a) (si_meta si) (si_r si)),
               al_last := sm_LastIncludedIndex (si_meta si),
               al_table := lru_loadFrom (newClientLRU capacity) (si_clientTable si)\<rparr>)"

text \<open>What the loop does before its first turn.\<close>

definition apply_start :: "'sm StateMachine \<Rightarrow> 'sm \<Rightarrow> 'st node \<Rightarrow> 'sm applyState" where
  "apply_start m s n =
    (let a = \<lparr>al_last = nd_applyBaseIndex n, al_table = newClientLRU (nd_applyStartCap n), al_sm = s,
              al_results = [], al_fatal = False\<rparr>
     in case nd_initialSnap n of
          None \<Rightarrow> a
        | Some si \<Rightarrow>
            let a = (case st_LoadSnapshot (sw_ops (rl_w (nd_log n))) (rl_storage (nd_log n)) of
                       Ok (_, r) \<Rightarrow>
                         (case readWrappedSnapshot r of
                            Ok (_, _, _, d) \<Rightarrow> a\<lparr>al_sm := fst (sm_Restore m s (si_meta si) d)\<rparr>
                          | _ \<Rightarrow> a)
                     | _ \<Rightarrow> a)
            in a\<lparr>al_table := lru_loadFrom (al_table a) (si_clientTable si)\<rparr>)"

end
