(* ===== verification/Wal_Record.thy ===== *)
theory Wal_Record
  imports Storage
begin

text \<open>
  The record format of the shared write-ahead log (\<open>storage/sharedwal/record.go\<close>): the
  framing with its checksum, the bodies of the kinds of record, and their decoders.  The
  checksum is the CRC-32C of package \<open>hash/crc32\<close>, computed bit by bit.
\<close>

unbundle bit_operations_syntax

section \<open>The checksum\<close>

definition crc_bit :: "32 word \<Rightarrow> 32 word" where
  "crc_bit c = (if bit c 0 then drop_bit 1 c XOR 0x82F63B78 else drop_bit 1 c)"

definition crc_byte :: "32 word \<Rightarrow> byte \<Rightarrow> 32 word" where
  "crc_byte c b = (crc_bit ^^ 8) (c XOR ucast b)"

definition crc32c :: "bytes \<Rightarrow> nat" where
  "crc32c data = unat (NOT (foldl crc_byte (NOT 0) data))"

section \<open>Framing\<close>

definition recordHeaderSize :: nat where "recordHeaderSize = 4 + 4 + 8 + 1"
definition recordCRCSize :: nat where "recordCRCSize = 4"
definition entryHeaderSize :: nat where "entryHeaderSize = 8 + 8 + 4"

definition kindEntries :: byte where "kindEntries = 1"
definition kindHardState :: byte where "kindHardState = 2"
definition kindTruncateSuffix :: byte where "kindTruncateSuffix = 3"
definition kindTruncatePrefix :: byte where "kindTruncatePrefix = 4"
definition kindSnapshot :: byte where "kindSnapshot = 5"
definition kindCommitIndex :: byte where "kindCommitIndex = 6"
definition kindRemoveGroup :: byte where "kindRemoveGroup = 7"

lemmas record_kinds = kindEntries_def kindHardState_def kindTruncateSuffix_def kindTruncatePrefix_def
  kindSnapshot_def kindCommitIndex_def kindRemoveGroup_def

lemmas record_sizes = recordHeaderSize_def recordCRCSize_def entryHeaderSize_def

definition appendRecord :: "bytes \<Rightarrow> nat \<Rightarrow> byte \<Rightarrow> bytes \<Rightarrow> bytes" where
  "appendRecord buf grp kind body =
    (let rest = le_bytes 4 (length body) @ le_bytes 8 grp @ [kind] @ body
     in buf @ le_bytes 4 (crc32c rest) @ rest)"

datatype wal_error = errBadRecord | UnknownRecord byte

record parsedRecord =
  pr_group :: nat
  pr_kind :: byte
  pr_body :: bytes
  pr_off :: nat
  pr_size :: nat

definition parseRecord :: "bytes \<Rightarrow> (wal_error, parsedRecord \<times> nat) outcome" where
  "parseRecord data =
    (if length data < recordHeaderSize then Fail errBadRecord
     else obind (obind (slice_range data 4 8) (get_le 4)) (\<lambda>bodyLen.
       if length data < recordHeaderSize + bodyLen then Fail errBadRecord
       else let total = recordHeaderSize + bodyLen
            in obind (obind (slice_range data 0 4) (get_le 4)) (\<lambda>want.
               obind (slice_range data recordCRCSize total) (\<lambda>covered.
               if crc32c covered \<noteq> want then Fail errBadRecord
               else obind (obind (slice_range data 8 16) (get_le 8)) (\<lambda>grp.
                    obind (index_at data 16) (\<lambda>kind.
                    obind (slice_range data recordHeaderSize total) (\<lambda>body.
                    Ok (\<lparr>pr_group = grp, pr_kind = kind, pr_body = body, pr_off = 0, pr_size = total\<rparr>, total))))))))"

section \<open>Bodies\<close>

definition encodeEntry :: "LogEntry \<Rightarrow> bytes" where
  "encodeEntry e = le_bytes 8 (e_Index e) @ le_bytes 8 (e_Term e) @ le_bytes 4 (length (e_Command e)) @ e_Command e"

fun encode_entries :: "LogEntry list \<Rightarrow> bytes \<Rightarrow> nat list \<Rightarrow> bytes \<times> nat list" where
  "encode_entries [] body offsets = (body, offsets)"
| "encode_entries (e # es) body offsets = encode_entries es (body @ encodeEntry e) (offsets @ [length body])"

definition encodeEntriesBody :: "LogEntry list \<Rightarrow> bytes \<times> nat list" where
  "encodeEntriesBody es = encode_entries es (le_bytes 4 (length es)) []"

definition decodeEntryAt :: "bytes \<Rightarrow> nat \<Rightarrow> (wal_error, LogEntry \<times> nat) outcome" where
  "decodeEntryAt data off =
    (if length data < off + entryHeaderSize then Fail errBadRecord
     else obind (obind (slice_from data off) (get_le 8)) (\<lambda>idx.
          obind (obind (slice_from data (off + 8)) (get_le 8)) (\<lambda>trm.
          obind (obind (slice_from data (off + 16)) (get_le 4)) (\<lambda>cmdLen.
          if length data < off + entryHeaderSize + cmdLen then Fail errBadRecord
          else obind (if 0 < cmdLen then slice_range data (off + entryHeaderSize) (off + entryHeaderSize + cmdLen) else Ok []) (\<lambda>cmd.
               Ok (\<lparr>e_Index = idx, e_Term = trm, e_Command = cmd\<rparr>, entryHeaderSize + cmdLen))))))"

fun decode_entries :: "nat \<Rightarrow> bytes \<Rightarrow> nat \<Rightarrow> LogEntry list \<Rightarrow> nat list \<Rightarrow> (wal_error, LogEntry list \<times> nat list) outcome" where
  "decode_entries 0 body off es offsets = Ok (es, offsets)"
| "decode_entries (Suc k) body off es offsets =
    obind (decodeEntryAt body off) (\<lambda>(e, n). decode_entries k body (off + n) (es @ [e]) (offsets @ [off]))"

text \<open>The capacity that the code reserves for the announced number of entries, a field of the body
  that is not checked against its length, is not modelled.\<close>

definition decodeEntriesBody :: "bytes \<Rightarrow> (wal_error, LogEntry list \<times> nat list) outcome" where
  "decodeEntriesBody body =
    (if length body < 4 then Fail errBadRecord
     else obind (get_le 4 body) (\<lambda>count. decode_entries count body 4 [] []))"

definition encodeHardStateBody :: "HardState \<Rightarrow> bytes" where
  "encodeHardStateBody hs = le_bytes 8 (hs_CurrentTerm hs) @ le_bytes 2 (length (hs_VotedFor hs)) @ hs_VotedFor hs"

definition decodeHardStateBody :: "bytes \<Rightarrow> (wal_error, HardState) outcome" where
  "decodeHardStateBody body =
    (if length body < 10 then Fail errBadRecord
     else obind (obind (slice_from body 8) (get_le 2)) (\<lambda>idLen.
          if length body < 10 + idLen then Fail errBadRecord
          else obind (get_le 8 body) (\<lambda>trm.
               obind (slice_range body 10 (10 + idLen)) (\<lambda>voted.
               Ok \<lparr>hs_CurrentTerm = trm, hs_VotedFor = voted\<rparr>))))"

definition encodeIndexBody :: "Index \<Rightarrow> bytes" where
  "encodeIndexBody i = le_bytes 8 i"

definition decodeIndexBody :: "bytes \<Rightarrow> (wal_error, Index) outcome" where
  "decodeIndexBody body = (if length body < 8 then Fail errBadRecord else get_le 8 body)"

definition encodeSnapshotBody :: "SnapshotMeta \<Rightarrow> bytes" where
  "encodeSnapshotBody meta = le_bytes 8 (sm_LastIncludedIndex meta) @ le_bytes 8 (sm_LastIncludedTerm meta)"

definition decodeSnapshotBody :: "bytes \<Rightarrow> (wal_error, SnapshotMeta) outcome" where
  "decodeSnapshotBody body =
    (if length body < 16 then Fail errBadRecord
     else obind (get_le 8 body) (\<lambda>i.
          obind (obind (slice_from body 8) (get_le 8)) (\<lambda>t.
          Ok \<lparr>sm_LastIncludedIndex = i, sm_LastIncludedTerm = t\<rparr>)))"

section \<open>Framing, forwards and backwards\<close>

lemma get_le_exact: "get_le n (le_bytes n x) = Ok (x mod 256 ^ n)"
  using get_le_append [of n x "[]"] by simp

lemma crc32c_less: "crc32c data < 2 ^ 32"
  unfolding crc32c_def using unsigned_less [of "NOT (foldl crc_byte (NOT 0) data)", where ?'a = nat] by simp

definition frame_rest :: "nat \<Rightarrow> byte \<Rightarrow> bytes \<Rightarrow> bytes" where
  "frame_rest grp kind body = le_bytes 4 (length body) @ le_bytes 8 grp @ [kind] @ body"

definition frame :: "nat \<Rightarrow> byte \<Rightarrow> bytes \<Rightarrow> bytes" where
  "frame grp kind body = appendRecord [] grp kind body"

lemma appendRecord_frame: "appendRecord buf grp kind body = buf @ frame grp kind body"
  by (simp add: appendRecord_def frame_def Let_def)

lemma frame_parts: "frame grp kind body = le_bytes 4 (crc32c (frame_rest grp kind body)) @ frame_rest grp kind body"
  by (simp add: frame_def appendRecord_def frame_rest_def Let_def)

lemma length_frame_rest [simp]: "length (frame_rest grp kind body) = 13 + length body"
  by (simp add: frame_rest_def)

lemma length_frame [simp]: "length (frame grp kind body) = recordHeaderSize + length body"
  by (simp add: frame_parts recordHeaderSize_def)

lemma frame_rest_slices:
  "take 4 (frame_rest grp kind body @ r) = le_bytes 4 (length body)"
  "take 8 (drop 4 (frame_rest grp kind body @ r)) = le_bytes 8 grp"
  "(frame_rest grp kind body @ r) ! 12 = kind"
  "take (length body) (drop 13 (frame_rest grp kind body @ r)) = body"
  by (simp_all add: frame_rest_def nth_append)

text \<open>A record is read back with the bytes after it left alone.\<close>

lemma parse_frame:
  assumes "grp < 2 ^ 64" "length body < 2 ^ 32"
  shows "parseRecord (frame grp kind body @ r) =
    Ok (\<lparr>pr_group = grp, pr_kind = kind, pr_body = body, pr_off = 0, pr_size = recordHeaderSize + length body\<rparr>,
      recordHeaderSize + length body)"
proof -
  let ?rest = "frame_rest grp kind body"
  let ?d = "le_bytes 4 (crc32c ?rest) @ ?rest @ r"
  have d: "frame grp kind body @ r = ?d" by (simp add: frame_parts)
  have g: "get_le 4 (le_bytes 4 (length body)) = (Ok (length body) :: (wal_error, nat) outcome)"
    "get_le 8 (le_bytes 8 grp) = (Ok grp :: (wal_error, nat) outcome)"
    "get_le 4 (le_bytes 4 (crc32c ?rest)) = (Ok (crc32c ?rest) :: (wal_error, nat) outcome)"
    using assms crc32c_less [of ?rest] by (simp_all add: le_nat_le_bytes)
  have s: "slice_range ?d 4 8 = Ok (le_bytes 4 (length body))"
    "slice_range ?d 0 4 = Ok (le_bytes 4 (crc32c ?rest))"
    "slice_range ?d 4 (17 + length body) = Ok ?rest"
    "slice_range ?d 8 16 = Ok (le_bytes 8 grp)"
    "index_at ?d 16 = Ok kind" "slice_range ?d 17 (17 + length body) = Ok body"
    using frame_rest_slices [where grp = grp and kind = kind and body = body and r = r]
    by (simp_all add: slice_range_def nth_append del: append_assoc)
  show ?thesis unfolding d parseRecord_def
    by (simp add: s g record_sizes Let_def del: append_assoc)
qed

text \<open>What a crash leaves of a record that was not written to its end never reads as a record:
  its own length gives it away.\<close>

lemma parse_torn:
  assumes "grp < 2 ^ 64" "length body < 2 ^ 32" "k < recordHeaderSize + length body"
  shows "parseRecord (take k (frame grp kind body)) = Fail errBadRecord"
proof (cases "k < recordHeaderSize")
  case False
  let ?d = "take k (frame grp kind body)"
  have len: "length ?d = k" "17 \<le> k" using assms(3) False by (simp_all add: recordHeaderSize_def)
  have "take 4 (drop 4 ?d) = take 4 (drop 4 (frame grp kind body))" using len(2) by (simp add: drop_take min_def)
  also have "\<dots> = le_bytes 4 (length body)"
    using frame_rest_slices(1) [where grp = grp and kind = kind and body = body and r = "[]"] by (simp add: frame_parts)
  finally have "slice_range ?d 4 8 = (Ok (le_bytes 4 (length body)) :: (wal_error, bytes) outcome)" using len by (simp add: slice_range_def)
  then show ?thesis using assms False len by (simp add: parseRecord_def get_le_def le_nat_le_bytes)
qed (use assms in \<open>simp add: parseRecord_def\<close>)

lemma parseRecord_no_panic: "parseRecord data \<noteq> Panic"
  by (auto simp: parseRecord_def obind_eq_Panic slice_range_def record_sizes Let_def split: if_splits)

lemma parseRecord_size: "parseRecord data = Ok (rec, n) \<Longrightarrow> recordHeaderSize \<le> n \<and> n \<le> length data"
  by (auto simp: parseRecord_def obind_eq_Ok Let_def split: if_splits)

section \<open>Bodies, forwards and backwards\<close>

definition entry_ok :: "LogEntry \<Rightarrow> bool" where
  "entry_ok e \<longleftrightarrow> e_Index e < 2 ^ 64 \<and> e_Term e < 2 ^ 64 \<and> length (e_Command e) < 2 ^ 32"

definition entry_size :: "LogEntry \<Rightarrow> nat" where
  "entry_size e = entryHeaderSize + length (e_Command e)"

lemma length_encodeEntry [simp]: "length (encodeEntry e) = entry_size e"
  by (simp add: encodeEntry_def entry_size_def entryHeaderSize_def)

lemma decodeEntryAt_encode:
  assumes "entry_ok e"
  shows "decodeEntryAt (a @ encodeEntry e @ r) (length a) = Ok (e, entry_size e)"
proof -
  let ?d = "a @ encodeEntry e @ r"
  have l: "\<not> length ?d < length a + entryHeaderSize" "\<not> length ?d < length a + entryHeaderSize + length (e_Command e)"
    by (simp_all add: entry_size_def)
  have g: "obind (slice_from ?d (length a)) (get_le 8) = (Ok (e_Index e) :: (wal_error, nat) outcome)"
    "obind (slice_from ?d (length a + 8)) (get_le 8) = (Ok (e_Term e) :: (wal_error, nat) outcome)"
    "obind (slice_from ?d (length a + 16)) (get_le 4) = (Ok (length (e_Command e)) :: (wal_error, nat) outcome)"
    using assms by (simp_all add: slice_from_def encodeEntry_def get_le_append entry_ok_def)
  have "slice_range ?d (length a + entryHeaderSize) (length a + entryHeaderSize + length (e_Command e))
      = (Ok (e_Command e) :: (wal_error, bytes) outcome)"
    by (simp add: slice_range_def encodeEntry_def entryHeaderSize_def entry_size_def)
  then have c: "(if 0 < length (e_Command e) then slice_range ?d (length a + entryHeaderSize)
      (length a + entryHeaderSize + length (e_Command e)) else Ok []) = (Ok (e_Command e) :: (wal_error, bytes) outcome)"
    by simp
  show ?thesis unfolding decodeEntryAt_def using l by (simp only: g c obind.simps if_False) (simp add: entry_size_def)
qed

text \<open>Where the entries of a body begin.\<close>

fun offsets_from :: "nat \<Rightarrow> LogEntry list \<Rightarrow> nat list" where
  "offsets_from off [] = []"
| "offsets_from off (e # es) = off # offsets_from (off + entry_size e) es"

lemma encode_entries_eq:
  "encode_entries es body offsets = (body @ concat (map encodeEntry es), offsets @ offsets_from (length body) es)"
  by (induction es body offsets rule: encode_entries.induct) simp_all

lemma encodeEntriesBody_eq:
  "encodeEntriesBody es = (le_bytes 4 (length es) @ concat (map encodeEntry es), offsets_from 4 es)"
  by (simp add: encodeEntriesBody_def encode_entries_eq)

lemma decode_entries_eq:
  assumes "list_all entry_ok es"
  shows "decode_entries (length es) (a @ concat (map encodeEntry es) @ r) (length a) acc offs
    = Ok (acc @ es, offs @ offsets_from (length a) es)"
  using assms
proof (induction es arbitrary: a acc offs)
  case (Cons e es)
  have "decodeEntryAt (a @ encodeEntry e @ concat (map encodeEntry es) @ r) (length a) = Ok (e, entry_size e)"
    using Cons.prems by (intro decodeEntryAt_encode) simp
  then show ?case using Cons.IH [of "a @ encodeEntry e" "acc @ [e]" "offs @ [length a]"] Cons.prems by simp
qed simp

lemma entries_body_roundtrip:
  assumes "list_all entry_ok es" "length es < 2 ^ 32"
  shows "decodeEntriesBody (fst (encodeEntriesBody es)) = Ok (es, snd (encodeEntriesBody es))"
  using assms(2) decode_entries_eq [OF assms(1), of "le_bytes 4 (length es)" "[]"]
  by (simp add: decodeEntriesBody_def encodeEntriesBody_eq get_le_append)

definition hs_ok :: "HardState \<Rightarrow> bool" where
  "hs_ok hs \<longleftrightarrow> hs_CurrentTerm hs < 2 ^ 64 \<and> length (hs_VotedFor hs) < 2 ^ 16"

lemma hard_state_body_roundtrip: "hs_ok hs \<Longrightarrow> decodeHardStateBody (encodeHardStateBody hs) = Ok hs"
  by (simp add: decodeHardStateBody_def encodeHardStateBody_def slice_from_def slice_range_def get_le_append hs_ok_def)

lemma index_body_roundtrip: "i < 2 ^ 64 \<Longrightarrow> decodeIndexBody (encodeIndexBody i) = Ok i"
  by (simp add: decodeIndexBody_def encodeIndexBody_def get_le_exact del: get_le_Ok)

definition meta_ok :: "SnapshotMeta \<Rightarrow> bool" where
  "meta_ok m \<longleftrightarrow> sm_LastIncludedIndex m < 2 ^ 64 \<and> sm_LastIncludedTerm m < 2 ^ 64"

lemma snapshot_body_roundtrip: "meta_ok m \<Longrightarrow> decodeSnapshotBody (encodeSnapshotBody m) = Ok m"
  by (simp add: decodeSnapshotBody_def encodeSnapshotBody_def slice_from_def get_le_append get_le_exact meta_ok_def
      del: get_le_Ok)

lemma decodeEntryAt_no_panic: "decodeEntryAt data off \<noteq> Panic"
  by (auto simp: decodeEntryAt_def obind_eq_Panic slice_range_def entryHeaderSize_def split: if_splits)

lemma decode_entries_no_panic: "decode_entries k body off es offs \<noteq> Panic"
  by (induction k arbitrary: off es offs) (auto simp: obind_eq_Panic decodeEntryAt_no_panic)

lemma wal_bodies_no_panic:
  "decodeEntriesBody body \<noteq> Panic" "decodeHardStateBody body \<noteq> Panic" "decodeIndexBody body \<noteq> Panic"
  "decodeSnapshotBody body \<noteq> Panic"
  by (auto simp: decodeEntriesBody_def decodeHardStateBody_def decodeIndexBody_def decodeSnapshotBody_def obind_eq_Panic
      slice_range_def decode_entries_no_panic split: if_splits)

end
