(* ===== verification/Wal.thy ===== *)
theory Wal
  imports Wal_Record
begin

text \<open>
  The log shared by the Raft groups of a host (\<open>storage/sharedwal/wal.go\<close>): its segments, what
  it knows of every group, group commit, recovery and reclaim.

  A segment is named by its sequence number wherever the source holds a pointer to it.  The
  files of the directory are part of the state: \<open>wl_files\<close> holds the bytes of every segment and
  \<open>wl_snapFiles\<close> those of every finished snapshot file.  \<open>wl_faults\<close> says what happens to the
  coming file operations, in order: \<open>None\<close> lets one succeed, \<open>Some k\<close> makes it fail, a write
  after \<open>k\<close> bytes; when the list is empty everything succeeds.  The mutex is not modelled, each
  stretch of code that holds it being one definition.
\<close>

section \<open>State\<close>

record segment =
  sg_seq :: nat
  sg_size :: nat
  sg_liveEntries :: int
  sg_liveBytes :: int
  sg_pins :: int

record entryLoc =
  el_seg :: nat
  el_off :: nat
  el_size :: nat
  el_term :: Term

record groupState =
  gs_id :: nat
  gs_hs :: HardState
  gs_hsSeg :: "nat option"
  gs_first :: Index
  gs_locs :: "entryLoc list"
  gs_snap :: SnapshotMeta
  gs_hasSnap :: bool
  gs_snapSeg :: "nat option"
  gs_commit :: Index
  gs_cmtSeg :: "nat option"

record WAL =
  wl_segmentSize :: nat
  wl_rewriteThreshold :: int
  wl_closed :: bool
  wl_segments :: "segment list"
  wl_groups :: "nat \<rightharpoonup> groupState"
  wl_syncErr :: "raft_error option"
  wl_files :: "(nat \<times> bytes) list"
  wl_snapFiles :: "((nat \<times> Index) \<times> bytes) list"
  wl_faults :: "nat option list"

definition zero_hs :: HardState where "zero_hs = \<lparr>hs_CurrentTerm = 0, hs_VotedFor = []\<rparr>"
definition zero_meta :: SnapshotMeta where "zero_meta = \<lparr>sm_LastIncludedIndex = 0, sm_LastIncludedTerm = 0\<rparr>"

definition new_group :: "nat \<Rightarrow> groupState" where
  "new_group i = \<lparr>gs_id = i, gs_hs = zero_hs, gs_hsSeg = None, gs_first = 0, gs_locs = [], gs_snap = zero_meta,
    gs_hasSnap = False, gs_snapSeg = None, gs_commit = 0, gs_cmtSeg = None\<rparr>"

definition group_last :: "groupState \<Rightarrow> Index" where
  "group_last g = (if length (gs_locs g) = 0 then 0 else gs_first g + length (gs_locs g) - 1)"

text \<open>\<open>group\<close> creates the state it does not find; here the caller stores what it makes of it.\<close>

definition wal_group :: "WAL \<Rightarrow> nat \<Rightarrow> groupState" where
  "wal_group w i = (case wl_groups w i of Some g \<Rightarrow> g | None \<Rightarrow> new_group i)"

definition put_group :: "groupState \<Rightarrow> WAL \<Rightarrow> WAL" where
  "put_group g w = w\<lparr>wl_groups := (wl_groups w)(gs_id g \<mapsto> g)\<rparr>"

section \<open>Files\<close>

definition assoc_put :: "'k \<Rightarrow> 'v \<Rightarrow> ('k \<times> 'v) list \<Rightarrow> ('k \<times> 'v) list" where
  "assoc_put k v al = (if k \<in> fst ` set al then map (\<lambda>(k', v'). if k' = k then (k, v) else (k', v')) al else al @ [(k, v)])"

definition assoc_del :: "'k \<Rightarrow> ('k \<times> 'v) list \<Rightarrow> ('k \<times> 'v) list" where
  "assoc_del k al = filter (\<lambda>p. fst p \<noteq> k) al"

definition file_of :: "WAL \<Rightarrow> nat \<Rightarrow> bytes" where
  "file_of w s = (case map_of (wl_files w) s of Some d \<Rightarrow> d | None \<Rightarrow> [])"

definition io_call :: "WAL \<Rightarrow> nat option \<times> WAL" where
  "io_call w = (case wl_faults w of [] \<Rightarrow> (None, w) | f # fs \<Rightarrow> (f, w\<lparr>wl_faults := fs\<rparr>))"

definition io_error :: raft_error where "io_error = ErrStorage 1"
definition ErrClosed :: raft_error where "ErrClosed = ErrOther ''sharedwal: log is closed''"

definition syncFile :: "WAL \<Rightarrow> WAL \<times> raft_error option" where
  "syncFile w = (case io_call w of (None, w) \<Rightarrow> (w, None) | (Some _, w) \<Rightarrow> (w, Some io_error))"

text \<open>\<open>WriteAt\<close>: the bytes replace what is there, a hole before them reads as zeros.\<close>

definition write_at :: "bytes \<Rightarrow> nat \<Rightarrow> bytes \<Rightarrow> bytes" where
  "write_at data base b = take base data @ replicate (base - length data) 0 @ b @ drop (base + length b) data"

definition writeFile :: "WAL \<Rightarrow> nat \<Rightarrow> nat \<Rightarrow> bytes \<Rightarrow> WAL \<times> raft_error option" where
  "writeFile w s base b =
    (case io_call w of
       (None, w) \<Rightarrow> (w\<lparr>wl_files := assoc_put s (write_at (file_of w s) base b) (wl_files w)\<rparr>, None)
     | (Some k, w) \<Rightarrow> (w\<lparr>wl_files := assoc_put s (write_at (file_of w s) base (take k b)) (wl_files w)\<rparr>, Some io_error))"

section \<open>Segments\<close>

definition new_segment :: "nat \<Rightarrow> segment" where
  "new_segment s = \<lparr>sg_seq = s, sg_size = 0, sg_liveEntries = 0, sg_liveBytes = 0, sg_pins = 0\<rparr>"

definition upd_seg :: "nat \<Rightarrow> (segment \<Rightarrow> segment) \<Rightarrow> WAL \<Rightarrow> WAL" where
  "upd_seg s f w = w\<lparr>wl_segments := map (\<lambda>x. if sg_seq x = s then f x else x) (wl_segments w)\<rparr>"

definition seg_size :: "WAL \<Rightarrow> nat \<Rightarrow> nat" where
  "seg_size w s = (case find (\<lambda>x. sg_seq x = s) (wl_segments w) of Some x \<Rightarrow> sg_size x | None \<Rightarrow> 0)"

definition createSegment :: "WAL \<Rightarrow> nat \<Rightarrow> WAL \<times> nat result" where
  "createSegment w s =
    (case io_call w of
       (Some _, w) \<Rightarrow> (w, Fail io_error)
     | (None, w) \<Rightarrow>
         if s \<in> fst ` set (wl_files w) then (w, Fail io_error)
         else let w = w\<lparr>wl_files := wl_files w @ [(s, [])]\<rparr>
              in case syncFile w of
                   (w, Some e) \<Rightarrow> (w, Fail e)
                 | (w, None) \<Rightarrow> (w\<lparr>wl_segments := wl_segments w @ [new_segment s]\<rparr>, Ok s))"

definition wal_active :: "WAL \<Rightarrow> WAL \<times> nat result" where
  "wal_active w =
    (if length (wl_segments w) = 0 then createSegment w 0
     else (w, Ok (sg_seq (wl_segments w ! (length (wl_segments w) - 1)))))"

section \<open>State transitions\<close>

text \<open>These run when a record is durable and again when it is read back.\<close>

definition unpin :: "nat option \<Rightarrow> WAL \<Rightarrow> WAL" where
  "unpin s w = (case s of None \<Rightarrow> w | Some s \<Rightarrow> upd_seg s (\<lambda>x. x\<lparr>sg_pins := sg_pins x - 1\<rparr>) w)"

definition pin :: "nat \<Rightarrow> WAL \<Rightarrow> WAL" where
  "pin s w = upd_seg s (\<lambda>x. x\<lparr>sg_pins := sg_pins x + 1\<rparr>) w"

definition installHardState :: "WAL \<Rightarrow> groupState \<Rightarrow> nat \<Rightarrow> HardState \<Rightarrow> WAL" where
  "installHardState w g s hs = pin s (put_group (g\<lparr>gs_hs := hs, gs_hsSeg := Some s\<rparr>) (unpin (gs_hsSeg g) w))"

definition wal_installSnapshot :: "WAL \<Rightarrow> groupState \<Rightarrow> nat \<Rightarrow> SnapshotMeta \<Rightarrow> WAL" where
  "wal_installSnapshot w g s meta =
    pin s (put_group (g\<lparr>gs_snap := meta, gs_hasSnap := True, gs_snapSeg := Some s\<rparr>) (unpin (gs_snapSeg g) w))"

definition installCommit :: "WAL \<Rightarrow> groupState \<Rightarrow> nat \<Rightarrow> Index \<Rightarrow> WAL" where
  "installCommit w g s idx =
    (if idx \<le> gs_commit g \<and> gs_cmtSeg g \<noteq> None then put_group g w
     else pin s (put_group (g\<lparr>gs_commit := max idx (gs_commit g), gs_cmtSeg := Some s\<rparr>) (unpin (gs_cmtSeg g) w)))"

definition release_loc :: "entryLoc \<Rightarrow> WAL \<Rightarrow> WAL" where
  "release_loc l w = upd_seg (el_seg l) (\<lambda>x. x\<lparr>sg_liveEntries := sg_liveEntries x - 1,
    sg_liveBytes := sg_liveBytes x - (int (el_size l) - int entryHeaderSize)\<rparr>) w"

definition credit_loc :: "entryLoc \<Rightarrow> WAL \<Rightarrow> WAL" where
  "credit_loc l w = upd_seg (el_seg l) (\<lambda>x. x\<lparr>sg_liveEntries := sg_liveEntries x + 1,
    sg_liveBytes := sg_liveBytes x + (int (el_size l) - int entryHeaderSize)\<rparr>) w"

definition wal_release :: "entryLoc list \<Rightarrow> WAL \<Rightarrow> WAL" where
  "wal_release locs w = fold release_loc locs w"

definition dropSuffix :: "WAL \<Rightarrow> groupState \<Rightarrow> Index \<Rightarrow> WAL" where
  "dropSuffix w g from =
    (if length (gs_locs g) = 0 \<or> group_last g < from then put_group g w
     else if from \<le> gs_first g then put_group (g\<lparr>gs_locs := []\<rparr>) (wal_release (gs_locs g) w)
     else let keep = from - gs_first g
          in put_group (g\<lparr>gs_locs := take keep (gs_locs g)\<rparr>) (wal_release (drop keep (gs_locs g)) w))"

definition dropPrefix :: "WAL \<Rightarrow> groupState \<Rightarrow> Index \<Rightarrow> WAL" where
  "dropPrefix w g to =
    (if length (gs_locs g) = 0 \<or> to \<le> gs_first g then put_group g w
     else if group_last g < to then put_group (g\<lparr>gs_locs := [], gs_first := 0\<rparr>) (wal_release (gs_locs g) w)
     else let n = to - gs_first g
          in put_group (g\<lparr>gs_locs := drop n (gs_locs g), gs_first := to\<rparr>) (wal_release (take n (gs_locs g)) w))"

text \<open>The places of a run of entries: entry \<open>i\<close> ends where the next begins, the last one where
  the body ends.\<close>

fun entry_locs :: "nat \<Rightarrow> nat \<Rightarrow> LogEntry list \<Rightarrow> nat list \<Rightarrow> nat \<Rightarrow> entryLoc list" where
  "entry_locs s bodyOff (e # es) (o1 # o2 # os) bodyLen =
    \<lparr>el_seg = s, el_off = bodyOff + o1, el_size = o2 - o1, el_term = e_Term e\<rparr> # entry_locs s bodyOff es (o2 # os) bodyLen"
| "entry_locs s bodyOff (e # es) [o1] bodyLen =
    \<lparr>el_seg = s, el_off = bodyOff + o1, el_size = bodyLen - o1, el_term = e_Term e\<rparr> # entry_locs s bodyOff es [] bodyLen"
| "entry_locs s bodyOff _ _ bodyLen = []"

definition installEntries :: "WAL \<Rightarrow> groupState \<Rightarrow> nat \<Rightarrow> nat \<Rightarrow> LogEntry list \<Rightarrow> nat list \<Rightarrow> nat \<Rightarrow> WAL" where
  "installEntries w g s bodyOff entries offsets bodyLen =
    (if length entries = 0 then put_group g w
     else let first = e_Index (entries ! 0);
              w = (if length (gs_locs g) = 0 \<or> first < gs_first g then dropSuffix w g first
                   else if first \<le> group_last g then dropSuffix w g first
                   else put_group g w);
              g = (if length (gs_locs g) = 0 \<or> first < gs_first g
                   then (wal_group w (gs_id g))\<lparr>gs_first := first, gs_locs := []\<rparr>
                   else wal_group w (gs_id g));
              locs = entry_locs s bodyOff entries offsets bodyLen
          in fold credit_loc locs (put_group (g\<lparr>gs_locs := gs_locs g @ locs\<rparr>) w))"

definition dropGroup :: "WAL \<Rightarrow> groupState \<Rightarrow> WAL" where
  "dropGroup w g =
    (let w = unpin (gs_cmtSeg g) (unpin (gs_snapSeg g) (unpin (gs_hsSeg g) (wal_release (gs_locs g) w)))
     in w\<lparr>wl_groups := (wl_groups w)(gs_id g := None)\<rparr>)"

section \<open>Group commit\<close>

record writeRequest =
  wr_records :: bytes
  wr_apply :: "nat \<Rightarrow> nat \<Rightarrow> WAL \<Rightarrow> WAL"

type_synonym placement = "writeRequest \<times> nat \<times> nat"

definition place_one :: "writeRequest \<Rightarrow> nat \<Rightarrow> WAL \<Rightarrow> WAL \<times> placement" where
  "place_one r s w = (upd_seg s (\<lambda>x. x\<lparr>sg_size := sg_size x + length (wr_records r)\<rparr>) w, (r, s, seg_size w s))"

fun place_all :: "writeRequest list \<Rightarrow> nat \<Rightarrow> WAL \<Rightarrow> WAL \<times> placement list \<times> raft_error option" where
  "place_all [] s w = (w, [], None)"
| "place_all (r # rs) s w =
    (case (if 0 < seg_size w s \<and> wl_segmentSize w < seg_size w s + length (wr_records r)
           then case syncFile w of
                  (w, Some e) \<Rightarrow> (w, Fail e)
                | (w, None) \<Rightarrow> createSegment w (s + 1)
           else (w, Ok s)) of
       (w, Ok s) \<Rightarrow>
         (case place_one r s w of (w, p) \<Rightarrow>
          case place_all rs s w of (w, ps, err) \<Rightarrow> (w, p # ps, err))
     | (w, Fail e) \<Rightarrow> (w, [], Some e)
     | (w, Panic) \<Rightarrow> (w, [], Some io_error))"

fun write_all :: "placement list \<Rightarrow> nat option \<Rightarrow> WAL \<Rightarrow> WAL \<times> raft_error option" where
  "write_all [] prev w = (if prev = None then (w, None) else syncFile w)"
| "write_all ((r, s, base) # ps) prev w =
    (case writeFile w s base (wr_records r) of
       (w, Some e) \<Rightarrow> (w, Some e)
     | (w, None) \<Rightarrow>
         (case (if prev \<noteq> None \<and> prev \<noteq> Some s then syncFile w else (w, None)) of
            (w, Some e) \<Rightarrow> (w, Some e)
          | (w, None) \<Rightarrow> write_all ps (Some s) w))"

definition apply_all :: "placement list \<Rightarrow> WAL \<Rightarrow> WAL" where
  "apply_all ps w = fold (\<lambda>(r, s, base). wr_apply r s base) ps w"

text \<open>The outcome is the answer every request of the batch gets.\<close>

definition writeBatch :: "writeRequest list \<Rightarrow> WAL \<Rightarrow> WAL \<times> raft_error option" where
  "writeBatch batch w =
    (case wl_syncErr w of
       Some e \<Rightarrow> (w, Some e)
     | None \<Rightarrow>
         (case (case wal_active w of
                  (w, Ok s) \<Rightarrow> place_all batch s w
                | (w, Fail e) \<Rightarrow> (w, [], Some e)
                | (w, Panic) \<Rightarrow> (w, [], Some io_error)) of
            (w, ps, Some e) \<Rightarrow> (w\<lparr>wl_syncErr := Some e\<rparr>, Some e)
          | (w, ps, None) \<Rightarrow>
              (case write_all ps None w of
                 (w, Some e) \<Rightarrow> (w\<lparr>wl_syncErr := Some e\<rparr>, Some e)
               | (w, None) \<Rightarrow> (apply_all ps w, None))))"

text \<open>A request handed to the goroutine that writes; the caller that does not wait gets no
  answer.\<close>

definition wal_submit :: "WAL \<Rightarrow> writeRequest \<Rightarrow> bool \<Rightarrow> WAL \<times> unit result" where
  "wal_submit w req wait =
    (if wl_closed w then (w, Fail ErrClosed)
     else case wl_syncErr w of
       Some e \<Rightarrow> (w, Fail e)
     | None \<Rightarrow>
         (case writeBatch [req] w of
            (w, Some e) \<Rightarrow> (w, if wait then Fail e else Ok ())
          | (w, None) \<Rightarrow> (w, Ok ())))"

definition wal_Close :: "WAL \<Rightarrow> WAL" where
  "wal_Close w = w\<lparr>wl_closed := True\<rparr>"

section \<open>Recovery\<close>

definition wal_replay :: "WAL \<Rightarrow> nat \<Rightarrow> parsedRecord \<Rightarrow> (wal_error, WAL) outcome" where
  "wal_replay w s r =
    (let g = wal_group w (pr_group r)
     in if pr_kind r = kindEntries then
          obind (decodeEntriesBody (pr_body r)) (\<lambda>(entries, offsets).
          Ok (installEntries w g s (pr_off r + recordHeaderSize) entries offsets (length (pr_body r))))
        else if pr_kind r = kindHardState then
          obind (decodeHardStateBody (pr_body r)) (\<lambda>hs. Ok (installHardState w g s hs))
        else if pr_kind r = kindTruncateSuffix then
          obind (decodeIndexBody (pr_body r)) (\<lambda>from. Ok (dropSuffix w g from))
        else if pr_kind r = kindTruncatePrefix then
          obind (decodeIndexBody (pr_body r)) (\<lambda>to. Ok (dropPrefix w g to))
        else if pr_kind r = kindSnapshot then
          obind (decodeSnapshotBody (pr_body r)) (\<lambda>meta. Ok (wal_installSnapshot w g s meta))
        else if pr_kind r = kindCommitIndex then
          obind (decodeIndexBody (pr_body r)) (\<lambda>idx. Ok (installCommit w g s idx))
        else if pr_kind r = kindRemoveGroup then Ok (dropGroup w g)
        else Fail (UnknownRecord (pr_kind r)))"

text \<open>The scan of one segment from an offset; it returns where the good records end.\<close>

function (sequential) replay_records :: "bytes \<Rightarrow> nat \<Rightarrow> nat \<Rightarrow> bool \<Rightarrow> WAL \<Rightarrow> (wal_error, WAL \<times> nat) outcome" where
  "replay_records data off s isLast w =
    (if off < length data then
       (case parseRecord (drop off data) of
          Ok (r, n) \<Rightarrow>
            (case wal_replay w s (r\<lparr>pr_off := off\<rparr>) of
               Ok w \<Rightarrow> replay_records data (off + n) s isLast w
             | Fail e \<Rightarrow> Fail e
             | Panic \<Rightarrow> Panic)
        | Fail e \<Rightarrow> if isLast then Ok (w, off) else Fail e
        | Panic \<Rightarrow> Panic)
     else Ok (w, off))"
  by pat_completeness auto
termination
  by (relation "measure (\<lambda>(data, off, _). length data - off)")
    (auto dest!: parseRecord_size simp: recordHeaderSize_def)

declare replay_records.simps [simp del]

datatype recover_error = BadSegment nat wal_error | RecoverIO

definition recoverSegment :: "WAL \<Rightarrow> nat \<Rightarrow> bool \<Rightarrow> (recover_error, WAL) outcome" where
  "recoverSegment w s isLast =
    (case io_call w of
       (Some _, w) \<Rightarrow> Fail RecoverIO
     | (None, w) \<Rightarrow>
    (case io_call w of
       (Some _, w) \<Rightarrow> Fail RecoverIO
     | (None, w) \<Rightarrow>
       let data = file_of w s;
           w = w\<lparr>wl_segments := wl_segments w @ [new_segment s]\<rparr>
       in case replay_records data 0 s isLast w of
            Fail e \<Rightarrow> Fail (BadSegment s e)
          | Panic \<Rightarrow> Panic
          | Ok (w, off) \<Rightarrow>
              (if off < length data
               then case io_call w of
                      (Some _, w) \<Rightarrow> Fail RecoverIO
                    | (None, w) \<Rightarrow>
                        (case syncFile (w\<lparr>wl_files := assoc_put s (take off data) (wl_files w)\<rparr>) of
                           (w, Some _) \<Rightarrow> Fail RecoverIO
                         | (w, None) \<Rightarrow> Ok (upd_seg s (\<lambda>x. x\<lparr>sg_size := off\<rparr>) w))
               else Ok (upd_seg s (\<lambda>x. x\<lparr>sg_size := off\<rparr>) w))))"

fun recover_all :: "nat list \<Rightarrow> WAL \<Rightarrow> (recover_error, WAL) outcome" where
  "recover_all [] w = Ok w"
| "recover_all (s # ss) w = obind (recoverSegment w s (ss = [])) (recover_all ss)"

text \<open>A step of the recovery that fails when its file operation does.\<close>

definition io_step :: "(WAL \<Rightarrow> (recover_error, WAL) outcome) \<Rightarrow> WAL \<Rightarrow> (recover_error, WAL) outcome" where
  "io_step k w = (case io_call w of (Some _, w) \<Rightarrow> Fail RecoverIO | (None, w) \<Rightarrow> k w)"

text \<open>Snapshot files no group refers to are removed; a file is named by group and index.\<close>

definition keeps_snapshot :: "WAL \<Rightarrow> nat \<times> Index \<Rightarrow> bool" where
  "keeps_snapshot w = (\<lambda>(grp, idx).
     case wl_groups w grp of None \<Rightarrow> False | Some g \<Rightarrow> gs_hasSnap g \<and> sm_LastIncludedIndex (gs_snap g) = idx)"

fun remove_stray :: "(nat \<times> Index) list \<Rightarrow> bool \<Rightarrow> WAL \<Rightarrow> (recover_error, WAL) outcome" where
  "remove_stray [] removed w = (if removed then io_step Ok w else Ok w)"
| "remove_stray (f # fs) removed w =
    (if keeps_snapshot w f then remove_stray fs removed w
     else io_step (\<lambda>w. remove_stray fs True (w\<lparr>wl_snapFiles := assoc_del f (wl_snapFiles w)\<rparr>)) w)"

definition pruneSnapshotFiles :: "WAL \<Rightarrow> (recover_error, WAL) outcome" where
  "pruneSnapshotFiles = io_step (\<lambda>w. remove_stray (map fst (wl_snapFiles w)) False w)"

definition wal_recover :: "WAL \<Rightarrow> (recover_error, WAL) outcome" where
  "wal_recover = io_step (\<lambda>w. obind (recover_all (sort (map fst (wl_files w))) w) pruneSnapshotFiles)"

text \<open>\<open>Open\<close> of a directory with the given files; the directories are made and the lock is taken
  first.\<close>

definition wal_Open :: "int \<Rightarrow> int \<Rightarrow> (nat \<times> bytes) list \<Rightarrow> ((nat \<times> Index) \<times> bytes) list \<Rightarrow> nat option list
    \<Rightarrow> (recover_error, WAL) outcome" where
  "wal_Open segmentSize rewriteThreshold files snaps faults =
    (if segmentSize \<le> 0 then Fail RecoverIO
     else io_step (io_step (io_step wal_recover))
       \<lparr>wl_segmentSize = nat segmentSize, wl_rewriteThreshold = rewriteThreshold, wl_closed = False,
       wl_segments = [], wl_groups = Map.empty, wl_syncErr = None, wl_files = files, wl_snapFiles = snaps, wl_faults = faults\<rparr>)"

lemma io_step_calm [simp]: "wl_faults w = [] \<Longrightarrow> io_step k w = k w"
  by (simp add: io_step_def io_call_def)

lemma remove_stray_calm: "wl_faults w = [] \<Longrightarrow> \<exists>snaps. remove_stray fs removed w = Ok (w\<lparr>wl_snapFiles := snaps\<rparr>)"
proof (induction fs arbitrary: removed w)
  case Nil
  then show ?case by (intro exI [of _ "wl_snapFiles w"]) simp
next
  case (Cons f fs)
  then show ?case using Cons.IH [of w removed] Cons.IH [of "w\<lparr>wl_snapFiles := assoc_del f (wl_snapFiles w)\<rparr>" True] by auto
qed

lemma prune_calm: "wl_faults w = [] \<Longrightarrow> \<exists>snaps. pruneSnapshotFiles w = Ok (w\<lparr>wl_snapFiles := snaps\<rparr>)"
  using remove_stray_calm by (simp add: pruneSnapshotFiles_def)

definition DefaultSegmentSize :: int where "DefaultSegmentSize = push_bit 20 64"
definition DefaultRewriteThreshold :: int where "DefaultRewriteThreshold = push_bit 20 1"

end
