(* ===== verification/Wal_Group.thy ===== *)
theory Wal_Group
  imports Wal
begin

text \<open>
  One group's view of the shared log (\<open>storage/sharedwal/group.go\<close>), the snapshot files
  (\<open>storage/sharedwal/snapshot.go\<close>), and reclaim, which reads through the group's view.
\<close>

section \<open>Snapshot files\<close>

definition snapMagic :: bytes where "snapMagic = [0x53, 0x57, 0x53, 0x31]"
definition snapHeaderSize :: nat where "snapHeaderSize = 4 + 8 + 8"
definition snapTrailerSize :: nat where "snapTrailerSize = 8 + 4"

definition snapshot_file :: "SnapshotMeta \<Rightarrow> bytes \<Rightarrow> bytes" where
  "snapshot_file meta data = snapMagic @ le_bytes 8 (sm_LastIncludedIndex meta) @ le_bytes 8 (sm_LastIncludedTerm meta)
    @ data @ le_bytes 8 (length data) @ le_bytes 4 (crc32c data)"

fun io_calls :: "nat \<Rightarrow> WAL \<Rightarrow> WAL \<times> raft_error option" where
  "io_calls 0 w = (w, None)"
| "io_calls (Suc k) w = (case io_call w of (Some _, w) \<Rightarrow> (w, Some io_error) | (None, w) \<Rightarrow> io_calls k w)"

text \<open>Seven calls lead to the file in its place: create, header, data, trailer, sync, close and
  rename.  A failure of one of them leaves the temporary file, which is removed.\<close>

definition writeSnapshotFile :: "WAL \<Rightarrow> nat \<Rightarrow> SnapshotMeta \<Rightarrow> bytes \<Rightarrow> WAL \<times> raft_error option" where
  "writeSnapshotFile w grp meta data =
    (case io_calls 7 w of
       (w, Some e) \<Rightarrow> (w, Some e)
     | (w, None) \<Rightarrow> syncFile (w\<lparr>wl_snapFiles := assoc_put (grp, sm_LastIncludedIndex meta) (snapshot_file meta data) (wl_snapFiles w)\<rparr>))"

definition removeSnapshotFile :: "WAL \<Rightarrow> nat \<Rightarrow> SnapshotMeta \<Rightarrow> WAL \<times> raft_error option" where
  "removeSnapshotFile w grp meta =
    (case io_call w of
       (Some _, w) \<Rightarrow> (w, Some io_error)
     | (None, w) \<Rightarrow> syncFile (w\<lparr>wl_snapFiles := assoc_del (grp, sm_LastIncludedIndex meta) (wl_snapFiles w)\<rparr>))"

record snapshotReader =
  sr_rest :: bytes
  sr_remaining :: nat
  sr_hashed :: bytes
  sr_checked :: bool

datatype snap_file_error = SnapMissing | SnapShort | SnapWrongMagic | SnapOther SnapshotMeta | SnapTruncated | SnapChecksum

definition openSnapshotFile :: "((nat \<times> Index) \<times> bytes) list \<Rightarrow> nat \<Rightarrow> SnapshotMeta \<Rightarrow> (snap_file_error, snapshotReader) outcome" where
  "openSnapshotFile files grp meta =
    (case map_of files (grp, sm_LastIncludedIndex meta) of
       None \<Rightarrow> Fail SnapMissing
     | Some f \<Rightarrow>
         if length f < snapHeaderSize then Fail SnapShort
         else if take 4 f \<noteq> snapMagic then Fail SnapWrongMagic
         else let got = \<lparr>sm_LastIncludedIndex = le_nat (take 8 (drop 4 f)), sm_LastIncludedTerm = le_nat (take 8 (drop 12 f))\<rparr>
              in if got \<noteq> meta then Fail (SnapOther got)
                 else if length f < snapHeaderSize + snapTrailerSize then Fail SnapTruncated
                 else Ok \<lparr>sr_rest = drop snapHeaderSize f, sr_remaining = length f - snapHeaderSize - snapTrailerSize,
                          sr_hashed = [], sr_checked = False\<rparr>)"

datatype read_end = ReadMore | ReadEOF | ReadFailed snap_file_error

definition snap_verify :: "snapshotReader \<Rightarrow> read_end" where
  "snap_verify r =
    (if length (sr_rest r) < snapTrailerSize then ReadFailed SnapShort
     else if le_nat (take 4 (drop 8 (sr_rest r))) \<noteq> crc32c (sr_hashed r) then ReadFailed SnapChecksum
     else ReadEOF)"

text \<open>\<open>Read\<close> into a buffer of \<open>plen\<close> bytes; a read of the file fills the buffer as far as the
  file goes.\<close>

definition snap_Read :: "snapshotReader \<Rightarrow> nat \<Rightarrow> snapshotReader \<times> bytes \<times> read_end" where
  "snap_Read r plen =
    (if sr_remaining r = 0
     then if \<not> sr_checked r then (r\<lparr>sr_checked := True\<rparr>, [], snap_verify r) else (r, [], ReadEOF)
     else let plen = min plen (sr_remaining r);
              b = take plen (sr_rest r);
              atEnd = (0 < plen \<and> sr_rest r = []);
              r = r\<lparr>sr_rest := drop plen (sr_rest r), sr_remaining := sr_remaining r - length b, sr_hashed := sr_hashed r @ b\<rparr>
          in if atEnd \<and> 0 < sr_remaining r then (r, b, ReadFailed SnapTruncated)
             else if sr_remaining r = 0 then (r\<lparr>sr_checked := True\<rparr>, b, snap_verify r)
             else (r, b, ReadMore))"

text \<open>A reader that takes everything, \<open>plen\<close> bytes at a time.\<close>

function (sequential) snap_ReadAll :: "nat \<Rightarrow> snapshotReader \<Rightarrow> bytes \<Rightarrow> (snap_file_error, bytes) outcome" where
  "snap_ReadAll plen r acc =
    (if plen = 0 then Fail SnapShort
     else case snap_Read r plen of
       (r', b, ReadMore) \<Rightarrow> snap_ReadAll plen r' (acc @ b)
     | (r', b, ReadEOF) \<Rightarrow> Ok (acc @ b)
     | (r', b, ReadFailed e) \<Rightarrow> Fail e)"
  by pat_completeness auto
termination
  by (relation "measure (\<lambda>(_, r, _). sr_remaining r)")
    (auto simp: snap_Read_def snap_verify_def Let_def split: if_splits)

declare snap_ReadAll.simps [simp del]

section \<open>Writes\<close>

fun checkContiguous :: "LogEntry list \<Rightarrow> bool" where
  "checkContiguous (a # b # es) = (e_Index b = e_Index a + 1 \<and> checkContiguous (b # es))"
| "checkContiguous _ = True"

definition state_request :: "nat \<Rightarrow> HardState option \<Rightarrow> LogEntry list \<Rightarrow> writeRequest" where
  "state_request i hs entries =
    (let buf = (case hs of None \<Rightarrow> [] | Some h \<Rightarrow> appendRecord [] i kindHardState (encodeHardStateBody h));
         entriesAt = length buf;
         body = fst (encodeEntriesBody entries);
         offsets = snd (encodeEntriesBody entries);
         buf = (if 0 < length entries then appendRecord buf i kindEntries body else buf);
         bodyLen = length buf - entriesAt - recordHeaderSize
     in \<lparr>wr_records = buf,
         wr_apply = (\<lambda>s base w.
           let w = (case hs of None \<Rightarrow> w | Some h \<Rightarrow> installHardState w (wal_group w i) s h)
           in if 0 < length entries
              then installEntries w (wal_group w i) s (base + entriesAt + recordHeaderSize) entries offsets bodyLen
              else w)\<rparr>)"

definition wal_SaveState :: "nat \<Rightarrow> WAL \<Rightarrow> HardState option \<Rightarrow> LogEntry list \<Rightarrow> WAL \<times> unit result" where
  "wal_SaveState i w hs entries =
    (if hs = None \<and> length entries = 0 then (w, Ok ())
     else if \<not> checkContiguous entries then (w, Fail (ErrOther ''sharedwal: entries are not contiguous''))
     else wal_submit w (state_request i hs entries) True)"

definition wal_SaveHardState :: "nat \<Rightarrow> WAL \<Rightarrow> HardState \<Rightarrow> WAL \<times> unit result" where
  "wal_SaveHardState i w hs = wal_SaveState i w (Some hs) []"

definition wal_AppendLogEntries :: "nat \<Rightarrow> WAL \<Rightarrow> LogEntry list \<Rightarrow> WAL \<times> unit result" where
  "wal_AppendLogEntries i w entries = (if length entries = 0 then (w, Ok ()) else wal_SaveState i w None entries)"

definition suffix_request :: "nat \<Rightarrow> Index \<Rightarrow> writeRequest" where
  "suffix_request i from = \<lparr>wr_records = appendRecord [] i kindTruncateSuffix (encodeIndexBody from),
    wr_apply = (\<lambda>s base w. dropSuffix w (wal_group w i) from)\<rparr>"

definition prefix_request :: "nat \<Rightarrow> Index \<Rightarrow> writeRequest" where
  "prefix_request i to = \<lparr>wr_records = appendRecord [] i kindTruncatePrefix (encodeIndexBody to),
    wr_apply = (\<lambda>s base w. dropPrefix w (wal_group w i) to)\<rparr>"

definition commit_request :: "nat \<Rightarrow> Index \<Rightarrow> writeRequest" where
  "commit_request i idx = \<lparr>wr_records = appendRecord [] i kindCommitIndex (encodeIndexBody idx),
    wr_apply = (\<lambda>s base w. installCommit w (wal_group w i) s idx)\<rparr>"

definition snapshot_request :: "nat \<Rightarrow> SnapshotMeta \<Rightarrow> writeRequest" where
  "snapshot_request i meta = \<lparr>wr_records = appendRecord [] i kindSnapshot (encodeSnapshotBody meta),
    wr_apply = (\<lambda>s base w. wal_installSnapshot w (wal_group w i) s meta)\<rparr>"

definition remove_request :: "nat \<Rightarrow> writeRequest" where
  "remove_request i = \<lparr>wr_records = appendRecord [] i kindRemoveGroup [],
    wr_apply = (\<lambda>s base w. case wl_groups w i of None \<Rightarrow> w | Some g \<Rightarrow> dropGroup w g)\<rparr>"

definition wal_TruncateSuffix :: "nat \<Rightarrow> WAL \<Rightarrow> Index \<Rightarrow> WAL \<times> unit result" where
  "wal_TruncateSuffix i w from = wal_submit w (suffix_request i from) True"

definition wal_SaveCommitIndex :: "nat \<Rightarrow> WAL \<Rightarrow> Index \<Rightarrow> WAL \<times> unit result" where
  "wal_SaveCommitIndex i w idx = wal_submit w (commit_request i idx) False"

text \<open>The snapshot that is replaced is the one the group has when the record takes effect; as the
  model writes the record in one step, it is read just before that step.\<close>

definition wal_SaveSnapshot :: "nat \<Rightarrow> WAL \<Rightarrow> SnapshotMeta \<Rightarrow> bytes \<Rightarrow> WAL \<times> unit result" where
  "wal_SaveSnapshot i w meta data =
    (if wl_closed w then (w, Fail ErrClosed)
     else case writeSnapshotFile w i meta data of
       (w, Some e) \<Rightarrow> (w, Fail e)
     | (w, None) \<Rightarrow>
         let g = wal_group w i;
             previous = (if gs_hasSnap g \<and> gs_snap g \<noteq> meta then Some (gs_snap g) else None)
         in case wal_submit w (snapshot_request i meta) True of
              (w, Ok _) \<Rightarrow>
                (case previous of
                   None \<Rightarrow> (w, Ok ())
                 | Some prev \<Rightarrow>
                     (case removeSnapshotFile w i prev of (w, Some e) \<Rightarrow> (w, Fail e) | (w, None) \<Rightarrow> (w, Ok ())))
            | (w, Fail e) \<Rightarrow> (w, Fail e)
            | (w, Panic) \<Rightarrow> (w, Panic))"

section \<open>Reads\<close>

definition wal_LoadHardState :: "nat \<Rightarrow> WAL \<Rightarrow> HardState result" where
  "wal_LoadHardState i w =
    (if wl_closed w then Fail ErrClosed
     else case wl_groups w i of Some g \<Rightarrow> Ok (gs_hs g) | None \<Rightarrow> Ok zero_hs)"

definition wal_FirstIndex :: "nat \<Rightarrow> WAL \<Rightarrow> Index result" where
  "wal_FirstIndex i w =
    (if wl_closed w then Fail ErrClosed
     else case wl_groups w i of
       Some g \<Rightarrow> if 0 < length (gs_locs g) then Ok (gs_first g) else Ok 0
     | None \<Rightarrow> Ok 0)"

definition wal_LastIndex :: "nat \<Rightarrow> WAL \<Rightarrow> Index result" where
  "wal_LastIndex i w =
    (if wl_closed w then Fail ErrClosed
     else case wl_groups w i of Some g \<Rightarrow> Ok (group_last g) | None \<Rightarrow> Ok 0)"

definition wal_LoadCommitIndex :: "nat \<Rightarrow> WAL \<Rightarrow> Index result" where
  "wal_LoadCommitIndex i w =
    (if wl_closed w then Fail ErrClosed
     else case wl_groups w i of Some g \<Rightarrow> Ok (gs_commit g) | None \<Rightarrow> Ok 0)"

definition wal_LoadSnapshot :: "nat \<Rightarrow> WAL \<Rightarrow> (SnapshotMeta \<times> bytes) result" where
  "wal_LoadSnapshot i w =
    (if wl_closed w then Fail ErrClosed
     else case wl_groups w i of
       None \<Rightarrow> Fail ErrNoSnapshot
     | Some g \<Rightarrow>
         if \<not> gs_hasSnap g then Fail ErrNoSnapshot
         else case obind (openSnapshotFile (wl_snapFiles w) i (gs_snap g)) (\<lambda>r. snap_ReadAll 512 r []) of
           Ok d \<Rightarrow> Ok (gs_snap g, d)
         | _ \<Rightarrow> Fail io_error)"

text \<open>The run of entries that follow one another on disk, from \<open>i\<close> on: where it ends and how
  long it is.\<close>

function (sequential) run_end :: "entryLoc list \<Rightarrow> nat \<Rightarrow> nat \<Rightarrow> nat \<Rightarrow> nat \<Rightarrow> nat \<times> nat" where
  "run_end locs i en j sz =
    (if j < en \<and> el_seg (locs ! j) = el_seg (locs ! i) \<and> el_off (locs ! j) = el_off (locs ! i) + sz
     then run_end locs i en (j + 1) (sz + el_size (locs ! j))
     else (j, sz))"
  by pat_completeness auto
termination by (relation "measure (\<lambda>(_, _, en, j, _). en - j)") auto

declare run_end.simps [simp del]

definition read_at :: "WAL \<Rightarrow> nat \<Rightarrow> nat \<Rightarrow> nat \<Rightarrow> bytes result" where
  "read_at w s off sz =
    (case map_of (wl_files w) s of
       None \<Rightarrow> Fail io_error
     | Some d \<Rightarrow> if off + sz \<le> length d then Ok (take sz (drop off d)) else Fail io_error)"

fun decode_run :: "nat \<Rightarrow> Index \<Rightarrow> bytes \<Rightarrow> nat \<Rightarrow> LogEntry list result" where
  "decode_run 0 idx buf off = Ok []"
| "decode_run (Suc k) idx buf off =
    (case decodeEntryAt buf off of
       Ok (e, n) \<Rightarrow>
         if e_Index e \<noteq> idx then Fail (ErrOther ''sharedwal: entry reads back as another'')
         else obind (decode_run k (idx + 1) buf (off + n)) (\<lambda>es. Ok (e # es))
     | Fail _ \<Rightarrow> Fail (ErrOther ''sharedwal: bad entry'')
     | Panic \<Rightarrow> Panic)"

lemma run_end_ge: "j \<le> fst (run_end locs i en j sz)"
  by (induction locs i en j sz rule: run_end.induct) (subst run_end.simps, auto)

function (sequential) read_runs :: "WAL \<Rightarrow> groupState \<Rightarrow> nat \<Rightarrow> nat \<Rightarrow> LogEntry list result" where
  "read_runs w g i en =
    (if i < en then
       (case run_end (gs_locs g) i en (i + 1) (el_size (gs_locs g ! i)) of
          (j, sz) \<Rightarrow>
            obind (read_at w (el_seg (gs_locs g ! i)) (el_off (gs_locs g ! i)) sz) (\<lambda>buf.
            obind (decode_run (j - i) (gs_first g + i) buf 0) (\<lambda>es.
            obind (read_runs w g j en) (\<lambda>rest. Ok (es @ rest)))))
     else Ok [])"
  by pat_completeness auto
termination
proof (relation "measure (\<lambda>(_, _, i, en). en - i)")
  fix w :: WAL and g i en j sz buf es
  assume "i < en" "(j, sz) = run_end (gs_locs g) i en (i + 1) (el_size (gs_locs g ! i))"
  then have "i + 1 \<le> j" using run_end_ge [of "i + 1" "gs_locs g" i en "el_size (gs_locs g ! i)"] by (metis fst_conv)
  then show "((w, g, j, en), w, g, i, en) \<in> measure (\<lambda>(_, _, i, en). en - i)" using \<open>i < en\<close> by simp
qed simp

declare read_runs.simps [simp del]

definition readRange :: "nat \<Rightarrow> WAL \<Rightarrow> Index \<Rightarrow> Index \<Rightarrow> LogEntry list result" where
  "readRange i w lo hi =
    (if wl_closed w then Fail ErrClosed
     else case wl_groups w i of
       None \<Rightarrow> Fail ErrNotFound
     | Some g \<Rightarrow>
         if length (gs_locs g) = 0 \<or> lo < gs_first g \<or> group_last g < pred64 hi then Fail ErrNotFound
         else read_runs w g (lo - gs_first g) (hi - gs_first g))"

definition wal_GetLogEntry :: "nat \<Rightarrow> WAL \<Rightarrow> Index \<Rightarrow> LogEntry result" where
  "wal_GetLogEntry i w idx = obind (readRange i w idx (idx + 1)) (\<lambda>es. index_at es 0)"

definition wal_GetLogEntries :: "nat \<Rightarrow> WAL \<Rightarrow> Index \<Rightarrow> Index \<Rightarrow> LogEntry list result" where
  "wal_GetLogEntries i w lo hi = (if hi \<le> lo then Ok [] else readRange i w lo hi)"

section \<open>Reclaim\<close>

definition reclaimable :: "segment \<Rightarrow> bool" where
  "reclaimable s \<longleftrightarrow> sg_liveEntries s = 0 \<and> sg_pins s \<le> 0"

record rewriteWork =
  rw_group :: nat
  rw_hs :: "HardState option"
  rw_snap :: "SnapshotMeta option"
  rw_commit :: "Index option"
  rw_lo :: Index
  rw_hi :: Index

text \<open>What a group still needs of a segment, read under the lock.\<close>

definition first_in :: "nat \<Rightarrow> entryLoc list \<Rightarrow> nat option" where
  "first_in s locs = (let k = length (takeWhile (\<lambda>l. el_seg l \<noteq> s) locs) in if k < length locs then Some k else None)"

definition rewrite_work :: "WAL \<Rightarrow> nat \<Rightarrow> nat \<Rightarrow> rewriteWork option" where
  "rewrite_work w s i =
    (case wl_groups w i of
       None \<Rightarrow> None
     | Some g \<Rightarrow>
         let wk = \<lparr>rw_group = i,
                   rw_hs = (if gs_hsSeg g = Some s then Some (gs_hs g) else None),
                   rw_snap = (if gs_snapSeg g = Some s then Some (gs_snap g) else None),
                   rw_commit = (if gs_cmtSeg g = Some s then Some (gs_commit g) else None),
                   rw_lo = (case first_in s (gs_locs g) of Some k \<Rightarrow> gs_first g + k | None \<Rightarrow> 0),
                   rw_hi = (case first_in s (gs_locs g) of Some k \<Rightarrow> group_last g | None \<Rightarrow> 0)\<rparr>
         in if rw_hs wk \<noteq> None \<or> rw_snap wk \<noteq> None \<or> rw_commit wk \<noteq> None \<or> rw_lo wk \<noteq> 0 then Some wk else None)"

text \<open>The groups are visited in the order in which the map happens to be iterated.\<close>

definition rewrite_collect :: "WAL \<Rightarrow> nat \<Rightarrow> nat list \<Rightarrow> rewriteWork list" where
  "rewrite_collect w s order = List.map_filter (rewrite_work w s) order"

text \<open>An entry that is still the one copied is moved to its copy.\<close>

definition repoint :: "nat \<Rightarrow> nat \<Rightarrow> LogEntry \<Rightarrow> entryLoc \<Rightarrow> WAL \<Rightarrow> WAL" where
  "repoint s i e loc w =
    (case wl_groups w i of
       None \<Rightarrow> w
     | Some g \<Rightarrow>
         if e_Index e < gs_first g \<or> group_last g < e_Index e then w
         else let k = e_Index e - gs_first g; old = gs_locs g ! k
              in if length (gs_locs g) = 0 \<or> el_seg old \<noteq> s \<or> el_term old \<noteq> e_Term e then w
                 else credit_loc loc (put_group (g\<lparr>gs_locs := (gs_locs g)[k := loc\<lparr>el_term := el_term old\<rparr>]\<rparr>) (release_loc old w)))"

text \<open>The code keeps a pointer to the state of the group from the time the copies were collected,
  where the model looks the group up again.  The two are the same state unless the group was
  removed in between; then the code goes on to count the copies for the detached state of the
  removed group, and the model leaves the log as it is.  No run below removes a group while its
  records are being copied.\<close>

definition rewrite_request :: "nat \<Rightarrow> rewriteWork \<Rightarrow> LogEntry list \<Rightarrow> writeRequest" where
  "rewrite_request s wk entries =
    (let i = rw_group wk;
         b1 = (case rw_hs wk of None \<Rightarrow> [] | Some h \<Rightarrow> appendRecord [] i kindHardState (encodeHardStateBody h));
         b2 = (case rw_snap wk of None \<Rightarrow> b1 | Some m \<Rightarrow> appendRecord b1 i kindSnapshot (encodeSnapshotBody m));
         b3 = (case rw_commit wk of None \<Rightarrow> b2 | Some c \<Rightarrow> appendRecord b2 i kindCommitIndex (encodeIndexBody c));
         body = fst (encodeEntriesBody entries);
         offsets = snd (encodeEntriesBody entries)
     in \<lparr>wr_records = (if 0 < length entries then appendRecord b3 i kindEntries body else b3),
         wr_apply = (\<lambda>seg base w.
           let w = (case wl_groups w i of
                      Some g \<Rightarrow> (case rw_hs wk of
                          Some h \<Rightarrow> if gs_hsSeg g = Some s then installHardState w g seg h else w | None \<Rightarrow> w)
                    | None \<Rightarrow> w);
               w = (case wl_groups w i of
                      Some g \<Rightarrow> (case rw_snap wk of
                          Some m \<Rightarrow> if gs_snapSeg g = Some s then wal_installSnapshot w g seg m else w | None \<Rightarrow> w)
                    | None \<Rightarrow> w);
               w = (case wl_groups w i of
                      Some g \<Rightarrow> (case rw_commit wk of
                          Some c \<Rightarrow> if gs_cmtSeg g = Some s
                            then pin seg (put_group (g\<lparr>gs_cmtSeg := Some seg\<rparr>) (unpin (gs_cmtSeg g) w)) else w | None \<Rightarrow> w)
                    | None \<Rightarrow> w)
           in fold (\<lambda>(e, loc). repoint s i e loc)
                (zip entries (entry_locs seg (base + length b3 + recordHeaderSize) entries offsets (length body))) w)\<rparr>)"

fun rewrite_each :: "nat \<Rightarrow> rewriteWork list \<Rightarrow> WAL \<Rightarrow> WAL \<times> unit result" where
  "rewrite_each s [] w = (w, Ok ())"
| "rewrite_each s (wk # wks) w =
    (case (if rw_lo wk \<noteq> 0 then readRange (rw_group wk) w (rw_lo wk) (rw_hi wk + 1) else Ok []) of
       Ok entries \<Rightarrow>
         (case wal_submit w (rewrite_request s wk entries) True of
            (w, Ok _) \<Rightarrow> rewrite_each s wks w
          | (w, Fail e) \<Rightarrow> (w, Fail e)
          | (w, Panic) \<Rightarrow> (w, Panic))
     | Fail e \<Rightarrow> (w, Fail e)
     | Panic \<Rightarrow> (w, Panic))"

definition rewriteSegment :: "(WAL \<Rightarrow> nat list) \<Rightarrow> nat \<Rightarrow> WAL \<Rightarrow> WAL \<times> unit result" where
  "rewriteSegment order s w = rewrite_each s (rewrite_collect w s (order w)) w"

fun reclaim_scan :: "int \<Rightarrow> segment list \<Rightarrow> nat list" where
  "reclaim_scan threshold [] = []"
| "reclaim_scan threshold (s # ss) =
    (if reclaimable s then reclaim_scan threshold ss
     else if 0 < sg_liveEntries s \<and> (threshold = 0 \<or> threshold < sg_liveBytes s) then []
     else sg_seq s # reclaim_scan threshold ss)"

fun rewrite_segments :: "(WAL \<Rightarrow> nat list) \<Rightarrow> nat list \<Rightarrow> WAL \<Rightarrow> WAL \<times> unit result" where
  "rewrite_segments order [] w = (w, Ok ())"
| "rewrite_segments order (s # ss) w =
    (case rewriteSegment order s w of
       (w, Ok _) \<Rightarrow> rewrite_segments order ss w
     | (w, r) \<Rightarrow> (w, r))"

text \<open>Every segment but the last that nothing needs is dropped and its file removed.\<close>

fun remove_segments :: "segment list \<Rightarrow> WAL \<Rightarrow> WAL \<times> bool" where
  "remove_segments [] w = (w, True)"
| "remove_segments [s] w = (w\<lparr>wl_segments := wl_segments w @ [s]\<rparr>, True)"
| "remove_segments (s # t # ss) w =
    (if \<not> reclaimable s then remove_segments (t # ss) (w\<lparr>wl_segments := wl_segments w @ [s]\<rparr>)
     else case io_call w of
       (None, w) \<Rightarrow> remove_segments (t # ss) (w\<lparr>wl_files := assoc_del (sg_seq s) (wl_files w)\<rparr>)
     | (Some _, w) \<Rightarrow> (case remove_segments (t # ss) w of (w, _) \<Rightarrow> (w, False)))"

text \<open>Where the code joins the errors of several file operations, the model, in which these all
  fail with the same error, returns one of them.\<close>

definition reclaim_remove :: "WAL \<Rightarrow> WAL \<times> unit result" where
  "reclaim_remove w =
    (case remove_segments (wl_segments w) (w\<lparr>wl_segments := []\<rparr>) of (w', ok) \<Rightarrow>
       if length (wl_segments w') \<noteq> length (wl_segments w)
       then case syncFile w' of
              (w', None) \<Rightarrow> (w', if ok then Ok () else Fail io_error)
            | (w', Some e) \<Rightarrow> (w', Fail e)
       else (w', if ok then Ok () else Fail io_error))"

definition maybeReclaim :: "(WAL \<Rightarrow> nat list) \<Rightarrow> WAL \<Rightarrow> WAL \<times> unit result" where
  "maybeReclaim order w =
    (case rewrite_segments order
            (reclaim_scan (wl_rewriteThreshold w) (take (length (wl_segments w) - 1) (wl_segments w))) w of
       (w, Ok _) \<Rightarrow> reclaim_remove w
     | (w, r) \<Rightarrow> (w, r))"

definition wal_TruncatePrefix :: "(WAL \<Rightarrow> nat list) \<Rightarrow> nat \<Rightarrow> WAL \<Rightarrow> Index \<Rightarrow> WAL \<times> unit result" where
  "wal_TruncatePrefix order i w to =
    (case wal_submit w (prefix_request i to) True of
       (w, Ok _) \<Rightarrow> (fst (maybeReclaim order w), Ok ())
     | (w, r) \<Rightarrow> (w, r))"

definition wal_Remove :: "(WAL \<Rightarrow> nat list) \<Rightarrow> nat \<Rightarrow> WAL \<Rightarrow> WAL \<times> unit result" where
  "wal_Remove order i w =
    (case wl_groups w i of
       None \<Rightarrow> (w, Ok ())
     | Some g \<Rightarrow>
         (case wal_submit w (remove_request i) True of
            (w, Ok _) \<Rightarrow>
              (case (if gs_hasSnap g then removeSnapshotFile w i (gs_snap g) else (w, None)) of
                 (w, err) \<Rightarrow>
                   (case maybeReclaim order w of
                      (w, Ok _) \<Rightarrow> (w, case err of None \<Rightarrow> Ok () | Some e \<Rightarrow> Fail e)
                    | (w, r) \<Rightarrow> (w, r)))
          | (w, r) \<Rightarrow> (w, r)))"

text \<open>The store of group \<open>i\<close>.\<close>

definition wal_storage :: "(WAL \<Rightarrow> nat list) \<Rightarrow> nat \<Rightarrow> WAL Storage" where
  "wal_storage order i = \<lparr>
    st_SaveHardState = wal_SaveHardState i,
    st_LoadHardState = wal_LoadHardState i,
    st_AppendLogEntries = wal_AppendLogEntries i,
    st_GetLogEntry = wal_GetLogEntry i,
    st_GetLogEntries = wal_GetLogEntries i,
    st_FirstIndex = wal_FirstIndex i,
    st_LastIndex = wal_LastIndex i,
    st_TruncateSuffix = wal_TruncateSuffix i,
    st_TruncatePrefix = wal_TruncatePrefix order i,
    st_SaveSnapshot = wal_SaveSnapshot i,
    st_LoadSnapshot = wal_LoadSnapshot i,
    st_SaveState = Some (wal_SaveState i),
    st_SaveCommitIndex = Some (wal_SaveCommitIndex i)\<rparr>"

end
