(* ===== verification/Wal_Recovery.thy ===== *)
theory Wal_Recovery
  imports Wal_Group
begin

text \<open>
  The log that is read back is the log that was written: recovery replays, record by record,
  what the requests did when they became durable, so that the state a host finds after a
  restart is the state it had, and after a crash in the middle of a write the state after some
  of the records of that write.
\<close>

section \<open>What the transitions leave alone\<close>

text \<open>A change of the state the transitions neither look at nor touch.\<close>

locale wal_context =
  fixes phi :: "WAL \<Rightarrow> WAL"
  assumes groups: "wl_groups (phi w) = wl_groups w"
    and put: "phi (w\<lparr>wl_groups := m\<rparr>) = (phi w)\<lparr>wl_groups := m\<rparr>"
    and lives: "phi (upd_seg s (\<lambda>x. x\<lparr>sg_liveEntries := a (sg_liveEntries x), sg_liveBytes := b (sg_liveBytes x)\<rparr>) w)
      = upd_seg s (\<lambda>x. x\<lparr>sg_liveEntries := a (sg_liveEntries x), sg_liveBytes := b (sg_liveBytes x)\<rparr>) (phi w)"
    and pins: "phi (upd_seg s (\<lambda>x. x\<lparr>sg_pins := a (sg_pins x)\<rparr>) w) = upd_seg s (\<lambda>x. x\<lparr>sg_pins := a (sg_pins x)\<rparr>) (phi w)"
begin

lemma at_group: "wal_group (phi w) i = wal_group w i"
  by (simp add: wal_group_def groups)

lemma at_put_group: "put_group g (phi w) = phi (put_group g w)"
  by (simp add: put_group_def put groups)

lemma at_pins: "unpin o1 (phi w) = phi (unpin o1 w)" "pin s (phi w) = phi (pin s w)"
  by (simp_all add: unpin_def pin_def pins [of _ "\<lambda>n. n - 1"] pins [of _ "\<lambda>n. n + 1"] split: option.split)

lemma at_locs: "release_loc l (phi w) = phi (release_loc l w)" "credit_loc l (phi w) = phi (credit_loc l w)"
  unfolding release_loc_def credit_loc_def by (rule lives [symmetric])+

lemma at_folds: "wal_release ls (phi w) = phi (wal_release ls w)" "fold credit_loc ls (phi w) = phi (fold credit_loc ls w)"
  by (induction ls arbitrary: w) (simp_all add: wal_release_def at_locs)

lemmas at_simps = at_group at_put_group at_pins at_folds

lemma at_drops: "dropSuffix (phi w) g i = phi (dropSuffix w g i)" "dropPrefix (phi w) g i = phi (dropPrefix w g i)"
  by (simp_all add: dropSuffix_def dropPrefix_def at_simps Let_def)

lemma at_installs:
  "installHardState (phi w) g s h = phi (installHardState w g s h)"
  "wal_installSnapshot (phi w) g s m = phi (wal_installSnapshot w g s m)"
  "installCommit (phi w) g s i = phi (installCommit w g s i)"
  "dropGroup (phi w) g = phi (dropGroup w g)"
  "installEntries (phi w) g s off es os n = phi (installEntries w g s off es os n)"
  by (auto simp: installHardState_def wal_installSnapshot_def installCommit_def dropGroup_def installEntries_def
      at_simps at_drops groups put Let_def split: option.split)

end

text \<open>The rest of the state of another log, and other sizes, are such changes.\<close>

definition dress :: "WAL \<Rightarrow> WAL \<Rightarrow> WAL" where
  "dress a w = a\<lparr>wl_groups := wl_groups w, wl_segments := wl_segments w\<rparr>"

definition resize :: "nat \<Rightarrow> (nat \<Rightarrow> nat) \<Rightarrow> WAL \<Rightarrow> WAL" where
  "resize t f w = upd_seg t (\<lambda>x. x\<lparr>sg_size := f (sg_size x)\<rparr>) w"

interpretation rest: wal_context "dress a" for a
  by unfold_locales (simp_all add: dress_def upd_seg_def)

interpretation sizes: wal_context "resize t f" for t f
  by unfold_locales (simp_all add: resize_def upd_seg_def comp_def)

section \<open>Records\<close>

fun omap :: "('a \<Rightarrow> 'b) \<Rightarrow> ('e, 'a) outcome \<Rightarrow> ('e, 'b) outcome" where
  "omap f (Ok x) = Ok (f x)"
| "omap f (Fail e) = Fail e"
| "omap f Panic = Panic"

lemma omap_obind: "omap f (obind m g) = obind m (\<lambda>x. omap f (g x))"
  by (cases m) simp_all

lemma omap_prod: "omap f (case p of (x, y) \<Rightarrow> g x y) = (case p of (x, y) \<Rightarrow> omap f (g x y))"
  by (cases p) simp

type_synonym walRec = "nat \<times> byte \<times> bytes"

fun rec_bytes :: "walRec \<Rightarrow> bytes" where
  "rec_bytes (i, k, b) = frame i k b"

definition recs_bytes :: "walRec list \<Rightarrow> bytes" where
  "recs_bytes rs = concat (map rec_bytes rs)"

definition replay_rec :: "nat \<Rightarrow> nat \<Rightarrow> walRec \<Rightarrow> WAL \<Rightarrow> (wal_error, WAL) outcome" where
  "replay_rec s off r w = (case r of (i, k, b) \<Rightarrow>
    wal_replay w s \<lparr>pr_group = i, pr_kind = k, pr_body = b, pr_off = off, pr_size = recordHeaderSize + length b\<rparr>)"

definition put_rec :: "nat \<Rightarrow> nat \<Rightarrow> walRec \<Rightarrow> WAL \<Rightarrow> WAL" where
  "put_rec s off r w = (case replay_rec s off r w of Ok w' \<Rightarrow> w' | _ \<Rightarrow> w)"

fun put_recs :: "nat \<Rightarrow> nat \<Rightarrow> walRec list \<Rightarrow> WAL \<Rightarrow> WAL" where
  "put_recs s off [] w = w"
| "put_recs s off (r # rs) w = put_recs s (off + length (rec_bytes r)) rs (put_rec s off r w)"

text \<open>A record of a known kind, small enough for its frame, whose body decodes.\<close>

definition good_rec :: "walRec \<Rightarrow> bool" where
  "good_rec r = (case r of (i, k, b) \<Rightarrow> i < 2 ^ 64 \<and> length b < 2 ^ 32 \<and>
    (k = kindEntries \<and> (\<exists>x. decodeEntriesBody b = Ok x) \<or> k = kindHardState \<and> (\<exists>x. decodeHardStateBody b = Ok x)
     \<or> k \<in> {kindTruncateSuffix, kindTruncatePrefix, kindCommitIndex} \<and> (\<exists>x. decodeIndexBody b = Ok x)
     \<or> k = kindSnapshot \<and> (\<exists>x. decodeSnapshotBody b = Ok x) \<or> k = kindRemoveGroup))"

lemma replay_good: "good_rec r \<Longrightarrow> replay_rec s off r w = Ok (put_rec s off r w)"
  unfolding put_rec_def by (cases r) (auto simp: good_rec_def replay_rec_def wal_replay_def record_kinds Let_def)

lemma length_rec_bytes: "length (rec_bytes (i, k, b)) = recordHeaderSize + length b"
  by simp

lemma recs_bytes_simps [simp]: "recs_bytes [] = []" "recs_bytes (r # rs) = rec_bytes r @ recs_bytes rs"
  "recs_bytes (rs @ rs') = recs_bytes rs @ recs_bytes rs'"
  by (simp_all add: recs_bytes_def)

lemma put_recs_append: "put_recs s off (rs @ rs') w = put_recs s (off + length (recs_bytes rs)) rs' (put_recs s off rs w)"
  by (induction rs arbitrary: off w) (simp_all add: add.assoc)

context wal_context
begin

lemma at_replay: "replay_rec s off r (phi w) = omap phi (replay_rec s off r w)"
  by (cases r) (simp add: replay_rec_def wal_replay_def at_group at_installs at_drops Let_def omap_obind omap_prod
      if_distrib [of "omap phi"])

lemma at_put_rec: "put_rec s off r (phi w) = phi (put_rec s off r w)"
  unfolding put_rec_def at_replay by (cases "replay_rec s off r w") simp_all

lemma at_put_recs: "put_recs s off rs (phi w) = phi (put_recs s off rs w)"
  by (induction rs arbitrary: off w) (simp_all add: at_put_rec)

end

section \<open>Reading a segment\<close>

text \<open>What the transitions keep, for a part of the state they do not change.\<close>

locale wal_view =
  fixes view :: "WAL \<Rightarrow> 'a"
  assumes sees_put: "view (w\<lparr>wl_groups := m\<rparr>) = view w"
    and sees_lives: "view (upd_seg s (\<lambda>x. x\<lparr>sg_liveEntries := a (sg_liveEntries x), sg_liveBytes := b (sg_liveBytes x)\<rparr>) w) = view w"
    and sees_pins: "view (upd_seg s (\<lambda>x. x\<lparr>sg_pins := a (sg_pins x)\<rparr>) w) = view w"
begin

lemma view_put_group: "view (put_group g w) = view w"
  by (simp add: put_group_def sees_put)

lemma view_pins: "view (unpin o1 w) = view w" "view (pin s w) = view w"
  by (simp_all add: unpin_def pin_def sees_pins [of _ "\<lambda>n. n - 1"] sees_pins [of _ "\<lambda>n. n + 1"] split: option.split)

lemma view_loc: "view (release_loc l w) = view w" "view (credit_loc l w) = view w"
  unfolding release_loc_def credit_loc_def by (rule sees_lives)+

lemma view_locs: "view (wal_release ls w) = view w" "view (fold credit_loc ls w) = view w"
  by (induction ls arbitrary: w) (simp_all add: wal_release_def view_loc)

lemmas view_simps = view_put_group view_pins view_locs sees_put

lemma view_installs: "view (dropSuffix w g i) = view w" "view (dropPrefix w g i) = view w"
  "view (installHardState w g s h) = view w" "view (wal_installSnapshot w g s m) = view w"
  "view (installCommit w g s i) = view w" "view (dropGroup w g) = view w"
  by (simp_all add: dropSuffix_def dropPrefix_def installHardState_def wal_installSnapshot_def installCommit_def dropGroup_def
      view_simps Let_def)

lemma view_installEntries: "view (installEntries w g s off es os n) = view w"
  by (simp add: installEntries_def Let_def view_simps view_installs if_distrib [of view] cong: if_cong split del: if_split)

lemma view_replay: "replay_rec s off r w = Ok w' \<Longrightarrow> view w' = view w"
  by (cases r) (auto simp: replay_rec_def wal_replay_def view_installs view_installEntries Let_def obind_eq_Ok split: if_splits prod.splits)

lemma view_put_rec: "view (put_rec s off r w) = view w"
  by (auto simp: put_rec_def dest: view_replay split: outcome.split)

lemma view_put_recs: "view (put_recs s off rs w) = view w"
  by (induction rs arbitrary: off w) (simp_all add: view_put_rec)

end

text \<open>They keep everything but the groups and the counters.\<close>

definition around :: "WAL \<Rightarrow> WAL" where
  "around w = w\<lparr>wl_groups := Map.empty, wl_segments := []\<rparr>"

definition shape :: "WAL \<Rightarrow> (nat \<times> nat) list" where
  "shape w = map (\<lambda>x. (sg_seq x, sg_size x)) (wl_segments w)"

interpretation around: wal_view around
  by unfold_locales (simp_all add: around_def upd_seg_def)

interpretation shape: wal_view shape
  by unfold_locales (simp_all add: shape_def upd_seg_def)

lemma aroundD:
  assumes "around w = around w'"
  shows "wl_files w = wl_files w'" "wl_faults w = wl_faults w'" "wl_snapFiles w = wl_snapFiles w'"
    "wl_segmentSize w = wl_segmentSize w'" "wl_closed w = wl_closed w'" "wl_syncErr w = wl_syncErr w'"
    "dress w' w = w"
  using assms by (cases w; cases w'; simp add: around_def dress_def)+

lemma parse_rec:
  "good_rec r \<Longrightarrow> parseRecord (rec_bytes r @ x) =
    Ok (\<lparr>pr_group = fst r, pr_kind = fst (snd r), pr_body = snd (snd r), pr_off = 0, pr_size = length (rec_bytes r)\<rparr>, length (rec_bytes r))"
  by (cases r) (auto simp: good_rec_def parse_frame)

text \<open>Good records are replayed one after the other.\<close>

lemma replay_records_append:
  assumes "list_all good_rec rs"
  shows "replay_records (pre @ recs_bytes rs @ tail) (length pre) s isLast w
    = replay_records (pre @ recs_bytes rs @ tail) (length pre + length (recs_bytes rs)) s isLast (put_recs s (length pre) rs w)"
  using assms
proof (induction rs arbitrary: pre w)
  case (Cons r rs)
  have g: "good_rec r" using Cons.prems by simp
  have "0 < length (rec_bytes r)" by (cases r) (simp add: recordHeaderSize_def)
  moreover have "wal_replay w s (\<lparr>pr_group = fst r, pr_kind = fst (snd r), pr_body = snd (snd r), pr_off = 0,
      pr_size = length (rec_bytes r)\<rparr>\<lparr>pr_off := length pre\<rparr>) = Ok (put_rec s (length pre) r w)"
    using replay_good [OF g, of s "length pre" w] by (cases r) (simp add: replay_rec_def)
  ultimately have "replay_records (pre @ recs_bytes (r # rs) @ tail) (length pre) s isLast w =
      replay_records (pre @ recs_bytes (r # rs) @ tail) (length pre + length (rec_bytes r)) s isLast (put_rec s (length pre) r w)"
    by (subst replay_records.simps) (simp add: parse_rec [OF g])
  then show ?case using Cons.IH [of "pre @ rec_bytes r" "put_rec s (length pre) r w"] Cons.prems by (simp add: add.assoc)
qed simp

text \<open>What follows them ends the scan of the last segment if it does not read as a record; in any
  other segment it is corruption.\<close>

lemma replay_records_good:
  assumes "list_all good_rec rs" "tail = [] \<or> isLast \<and> parseRecord tail = Fail e"
  shows "replay_records (pre @ recs_bytes rs @ tail) (length pre) s isLast w
    = Ok (put_recs s (length pre) rs w, length pre + length (recs_bytes rs))"
proof -
  have "replay_records (pre @ recs_bytes rs @ tail) (length pre + length (recs_bytes rs)) s isLast v
      = Ok (v, length pre + length (recs_bytes rs))" for v
    using assms(2) by (subst replay_records.simps) auto
  then show ?thesis using replay_records_append [OF assms(1), of pre tail s isLast w] by simp
qed

lemma replay_records_corrupt:
  assumes "list_all good_rec rs" "tail \<noteq> []" "parseRecord tail = Fail e"
  shows "replay_records (pre @ recs_bytes rs @ tail) (length pre) s False w = Fail e"
proof -
  have "replay_records (pre @ recs_bytes rs @ tail) (length pre + length (recs_bytes rs)) s False v = Fail e" for v
    using assms(2,3) by (subst replay_records.simps) auto
  then show ?thesis using replay_records_append [OF assms(1), of pre tail s False w] by simp
qed

text \<open>Every prefix of a sequence of records is some of them and a piece that is no record.\<close>

lemma torn_records:
  assumes "list_all good_rec rs"
  shows "\<exists>j tail. j \<le> length rs \<and> take k (recs_bytes rs) = recs_bytes (take j rs) @ tail
    \<and> (tail = [] \<or> parseRecord tail = Fail errBadRecord) \<and> (k < length (recs_bytes rs) \<or> j = length rs \<and> tail = [])"
  using assms
proof (induction rs arbitrary: k)
  case (Cons r rs)
  obtain i kd b where r: "r = (i, kd, b)" by (cases r)
  show ?case
  proof (cases "length (rec_bytes r) \<le> k")
    case True
    obtain j tail where "j \<le> length rs" "take (k - length (rec_bytes r)) (recs_bytes rs) = recs_bytes (take j rs) @ tail"
      "tail = [] \<or> parseRecord tail = Fail errBadRecord"
      "k - length (rec_bytes r) < length (recs_bytes rs) \<or> j = length rs \<and> tail = []"
      using Cons.IH [of "k - length (rec_bytes r)"] Cons.prems by auto
    then show ?thesis using True by (intro exI [of _ "Suc j"] exI [of _ tail]) auto
  next
    case False
    then have "parseRecord (take k (rec_bytes r)) = Fail errBadRecord"
      using Cons.prems parse_torn [of i b k kd] by (simp add: r good_rec_def)
    then show ?thesis using False by (intro exI [of _ 0] exI [of _ "take k (rec_bytes r)"]) auto
  qed
qed simp

section \<open>Reading a directory\<close>

type_synonym layout = "(nat \<times> walRec list) list"

definition add_seg :: "nat \<Rightarrow> WAL \<Rightarrow> WAL" where
  "add_seg s w = w\<lparr>wl_segments := wl_segments w @ [new_segment s]\<rparr>"

text \<open>What the records of a sequence of segments describe.\<close>

definition build_seg :: "nat \<Rightarrow> walRec list \<Rightarrow> WAL \<Rightarrow> WAL" where
  "build_seg s rs w = resize s (\<lambda>_. length (recs_bytes rs)) (put_recs s 0 rs (add_seg s w))"

fun build :: "layout \<Rightarrow> WAL \<Rightarrow> WAL" where
  "build [] w = w"
| "build ((s, rs) # L) w = build L (build_seg s rs w)"

definition layout_ok :: "layout \<Rightarrow> bool" where
  "layout_ok L \<longleftrightarrow> sorted_wrt (<) (map fst L) \<and> list_all (\<lambda>(_, rs). list_all good_rec rs) L"

definition layout_files :: "layout \<Rightarrow> (nat \<times> bytes) list" where
  "layout_files L = map (\<lambda>(s, rs). (s, recs_bytes rs)) L"

lemma build_append: "build (L @ L') w = build L' (build L w)"
  by (induction L w rule: build.induct) simp_all

lemma around_seg [simp]: "around (add_seg s w) = around w" "around (resize s f w) = around w"
  by (simp_all add: around_def add_seg_def resize_def upd_seg_def)

lemma around_build_seg [simp]: "around (build_seg s rs w) = around w"
  by (simp add: build_seg_def around.view_put_recs)

lemma around_build [simp]: "around (build L w) = around w"
  by (induction L w rule: build.induct) simp_all

lemma dress_build_seg: "dress a (build_seg s rs w) = build_seg s rs (dress a w)"
proof -
  have "dress a (add_seg s w) = add_seg s (dress a w)" for w by (simp add: dress_def add_seg_def)
  moreover have "dress a (resize s f w) = resize s f (dress a w)" for f w by (simp add: dress_def resize_def upd_seg_def)
  ultimately show ?thesis by (simp add: build_seg_def rest.at_put_recs [symmetric])
qed

lemma dress_build: "dress a (build L w) = build L (dress a w)"
  by (induction L w rule: build.induct) (simp_all add: dress_build_seg)

lemma no_faults: "wl_faults w = [] \<Longrightarrow> io_call w = (None, w)" "wl_faults w = [] \<Longrightarrow> syncFile w = (w, None)"
  by (simp_all add: io_call_def syncFile_def)

lemma recoverSegment_good:
  assumes "wl_faults w = []" "map_of (wl_files w) s = Some (recs_bytes rs @ tail)" "list_all good_rec rs"
    and "tail = [] \<or> isLast \<and> parseRecord tail = Fail e"
  shows "recoverSegment w s isLast = Ok ((build_seg s rs w)\<lparr>wl_files :=
    (if tail = [] then wl_files w else assoc_put s (recs_bytes rs) (wl_files w))\<rparr>)"
proof -
  let ?p = "put_recs s 0 rs (add_seg s w)"
  have r: "replay_records (recs_bytes rs @ tail) 0 s isLast (add_seg s w) = Ok (?p, length (recs_bytes rs))"
    using replay_records_good [OF assms(3,4), of "[]"] by simp
  have a: "around ?p = around w" by (simp add: around.view_put_recs)
  have p: "wl_faults ?p = []" "wl_files ?p = wl_files w" using aroundD [OF a] assms(1) by simp_all
  have d: "file_of w s = recs_bytes rs @ tail" using assms(2) by (simp add: file_of_def)
  show ?thesis
  proof (cases "tail = []")
    case True
    then show ?thesis using p r
      by (simp add: recoverSegment_def no_faults assms(1) d add_seg_def [symmetric] build_seg_def resize_def upd_seg_def Let_def)
  next
    case False
    then show ?thesis using p r
      by (simp add: recoverSegment_def no_faults assms(1) d add_seg_def [symmetric] build_seg_def resize_def upd_seg_def Let_def)
  qed
qed

lemma recover_all_good:
  assumes "wl_faults w = []" "list_all (\<lambda>(s, rs). list_all good_rec rs \<and> map_of (wl_files w) s = Some (recs_bytes rs)) L"
    and "map_of (wl_files w) s = Some (recs_bytes rs @ tail)" "list_all good_rec rs"
    and "tail = [] \<or> parseRecord tail = Fail e"
  shows "recover_all (map fst (L @ [(s, rs)])) w = Ok ((build (L @ [(s, rs)]) w)\<lparr>wl_files :=
    (if tail = [] then wl_files w else assoc_put s (recs_bytes rs) (wl_files w))\<rparr>)"
  using assms(1-3)
proof (induction L arbitrary: w)
  case Nil
  then show ?case using recoverSegment_good [of w s rs tail True e] assms(4,5) by simp
next
  case (Cons p L)
  obtain t ts where p: "p = (t, ts)" by (cases p)
  let ?w = "build_seg t ts w"
  have a: "wl_files ?w = wl_files w" "wl_faults ?w = []"
    using aroundD [OF around_build_seg [of t ts w]] Cons.prems(1) by simp_all
  have "recoverSegment w t False = Ok (?w\<lparr>wl_files := wl_files w\<rparr>)"
    using recoverSegment_good [of w t ts "[]" False] Cons.prems p by simp
  moreover have "?w\<lparr>wl_files := wl_files w\<rparr> = ?w" by (simp add: a(1) [symmetric])
  ultimately show ?case using Cons.IH [of ?w] Cons.prems a p by simp
qed

lemma recover_all_corrupt:
  assumes "wl_faults w = []" "list_all (\<lambda>(s, rs). list_all good_rec rs \<and> map_of (wl_files w) s = Some (recs_bytes rs)) L"
    and "map_of (wl_files w) s = Some (recs_bytes rs @ tail)" "list_all good_rec rs"
    and "tail \<noteq> []" "parseRecord tail = Fail e" "ss \<noteq> []"
  shows "recover_all (map fst L @ s # ss) w = Fail (BadSegment s e)"
  using assms(1-3)
proof (induction L arbitrary: w)
  case Nil
  then show ?case using replay_records_corrupt [OF assms(4-6), of "[]"] assms(7)
    by (simp add: recoverSegment_def no_faults file_of_def Let_def)
next
  case (Cons p L)
  obtain t ts where p: "p = (t, ts)" by (cases p)
  let ?w = "build_seg t ts w"
  have a: "wl_files ?w = wl_files w" "wl_faults ?w = []"
    using aroundD [OF around_build_seg [of t ts w]] Cons.prems(1) by simp_all
  have "recoverSegment w t False = Ok (?w\<lparr>wl_files := wl_files w\<rparr>)"
    using recoverSegment_good [of w t ts "[]" False] Cons.prems p by simp
  moreover have "?w\<lparr>wl_files := wl_files w\<rparr> = ?w" by (simp add: a(1) [symmetric])
  ultimately show ?case using Cons.IH [of ?w] Cons.prems a p by simp
qed

text \<open>A directory that holds a layout, its last segment perhaps with a torn end, opens as what the
  layout describes.\<close>

definition opened :: "nat \<Rightarrow> int \<Rightarrow> (nat \<times> bytes) list \<Rightarrow> ((nat \<times> Index) \<times> bytes) list \<Rightarrow> WAL" where
  "opened sz thr files snaps = \<lparr>wl_segmentSize = sz, wl_rewriteThreshold = thr, wl_closed = False,
    wl_segments = [], wl_groups = Map.empty, wl_syncErr = None, wl_files = files, wl_snapFiles = snaps, wl_faults = []\<rparr>"

lemma sort_layout: "layout_ok L \<Longrightarrow> sort (map fst (layout_files L)) = map fst L"
proof -
  assume "layout_ok L"
  moreover have "map fst (layout_files L) = map fst L" by (simp add: layout_files_def case_prod_unfold)
  ultimately show ?thesis
    by (simp add: layout_ok_def sorted_sort_id sorted_wrt_mono_rel [of _ "(<)" "(\<le>)"])
qed

lemma map_of_layout: "layout_ok L \<Longrightarrow> (s, rs) \<in> set L \<Longrightarrow> map_of (layout_files L) s = Some (recs_bytes rs)"
proof -
  assume a: "layout_ok L" "(s, rs) \<in> set L"
  then have "distinct (map fst (layout_files L))"
    by (simp add: layout_ok_def layout_files_def case_prod_unfold strict_sorted_iff comp_def)
  moreover have "(s, recs_bytes rs) \<in> set (layout_files L)" using a(2) by (force simp: layout_files_def)
  ultimately show ?thesis by simp
qed

lemma Open_layout:
  assumes "layout_ok (L @ [(s, rs)])" "tail = [] \<or> parseRecord tail = Fail e" "0 < sz"
    and "files = layout_files L @ [(s, recs_bytes rs @ tail)]"
  shows "\<exists>w. wal_Open (int sz) thr files snaps [] = Ok w
    \<and> dress w (build (L @ [(s, rs)]) (opened sz thr files snaps)) = w
    \<and> wl_files w = layout_files (L @ [(s, rs)]) \<and> \<not> wl_closed w
    \<and> wl_faults w = [] \<and> wl_syncErr w = None \<and> wl_segmentSize w = sz"
proof -
  let ?o = "opened sz thr files snaps" and ?L = "L @ [(s, rs)]"
  have ok: "layout_ok L" "list_all good_rec rs" "s \<notin> fst ` set L"
    using assms(1) by (auto simp: layout_ok_def sorted_wrt_append)
  have fs: "map fst files = map fst ?L" by (simp add: assms(4) layout_files_def case_prod_unfold)
  have "sorted (map fst ?L)" using assms(1) unfolding layout_ok_def by (intro sorted_wrt_mono_rel [of _ "(<)" "(\<le>)"]) simp_all
  then have so: "sort (map fst files) = map fst ?L" unfolding fs by (rule sorted_sort_id)
  have mo: "map_of files t = Some (recs_bytes ts)" if "(t, ts) \<in> set L" for t ts
    using map_of_layout [OF ok(1) that] by (simp add: assms(4))
  have ms: "map_of files s = Some (recs_bytes rs @ tail)"
  proof -
    have "fst ` set (layout_files L) = fst ` set L" by (force simp: layout_files_def)
    then have "map_of (layout_files L) s = None" using ok(3) by (simp add: map_of_eq_None_iff)
    then show ?thesis by (simp add: assms(4) map_add_def)
  qed
  let ?w = "(build ?L ?o)\<lparr>wl_files := (if tail = [] then files else assoc_put s (recs_bytes rs) files)\<rparr>"
  have ra: "recover_all (map fst ?L) ?o = Ok ?w"
  proof -
    have "wl_files ?o = files" "wl_faults ?o = []" by (simp_all add: opened_def)
    moreover have "list_all (\<lambda>(s, rs). list_all good_rec rs \<and> map_of files s = Some (recs_bytes rs)) L"
      using ok(1) mo by (fastforce simp: layout_ok_def list_all_iff)
    ultimately show ?thesis using recover_all_good [of ?o L s rs tail e] ms ok(2) assms(2) by simp
  qed
  have cl: "wl_faults ?w = []" "\<not> wl_closed ?w" "wl_syncErr ?w = None" "wl_segmentSize ?w = sz"
    using aroundD [OF around_build [of ?L ?o]] by (simp_all add: opened_def)
  obtain snaps' where "pruneSnapshotFiles ?w = Ok (?w\<lparr>wl_snapFiles := snaps'\<rparr>)" using prune_calm [OF cl(1)] by blast
  then have "wal_Open (int sz) thr files snaps [] = Ok (?w\<lparr>wl_snapFiles := snaps'\<rparr>)"
    using assms(3) so ra by (simp add: wal_Open_def wal_recover_def opened_def)
  moreover have "dress (?w\<lparr>wl_snapFiles := snaps'\<rparr>) (build ?L ?o) = ?w\<lparr>wl_snapFiles := snaps'\<rparr>"
    by (simp add: dress_def)
  moreover have "wl_files (?w\<lparr>wl_snapFiles := snaps'\<rparr>) = layout_files ?L"
    using ok(3) by (auto simp: assms(4) layout_files_def assoc_put_def case_prod_unfold image_iff)
  ultimately show ?thesis using cl by (intro exI [of _ "?w\<lparr>wl_snapFiles := snaps'\<rparr>"]) simp
qed

end
