(* ===== verification/Wal_Batch.thy ===== *)
theory Wal_Batch
  imports Wal_Recovery
begin

text \<open>
  Group commit: a batch that is written and synced as a whole leaves the log as its requests,
  written one after the other, would have left it, and every request leaves a log whose segments
  hold, record by record, what the state in memory says.
\<close>

section \<open>Segments referred to\<close>

definition group_refs :: "groupState \<Rightarrow> nat set" where
  "group_refs g = set_option (gs_hsSeg g) \<union> set_option (gs_snapSeg g) \<union> set_option (gs_cmtSeg g) \<union> el_seg ` set (gs_locs g)"

definition wal_refs :: "WAL \<Rightarrow> nat set" where
  "wal_refs w = (\<Union>g\<in>ran (wl_groups w). group_refs g)"

lemma wal_refs_simps [simp]:
  "wal_refs (upd_seg s f w) = wal_refs w" "wal_refs (w\<lparr>wl_segments := ss\<rparr>) = wal_refs w"
  by (simp_all add: wal_refs_def upd_seg_def)

lemma wal_refs_locs [simp]: "wal_refs (wal_release ls w) = wal_refs w" "wal_refs (fold credit_loc ls w) = wal_refs w"
  by (induction ls arbitrary: w) (simp_all add: wal_release_def release_loc_def credit_loc_def)

lemma wal_refs_pins [simp]: "wal_refs (unpin o1 w) = wal_refs w" "wal_refs (pin s w) = wal_refs w"
  by (simp_all add: unpin_def pin_def split: option.split)

lemma group_refs_wal: "group_refs (wal_group w i) \<subseteq> wal_refs w"
proof (cases "wl_groups w i")
  case None
  then show ?thesis by (simp add: wal_group_def new_group_def group_refs_def)
next
  case (Some g)
  then have "g \<in> ran (wl_groups w)" by (rule ranI)
  then show ?thesis using Some by (auto simp: wal_group_def wal_refs_def)
qed

lemma ran_upd_subset: "ran (m(k \<mapsto> v)) \<subseteq> insert v (ran m)" "ran (m(k := None)) \<subseteq> ran m"
  unfolding ran_def by (auto split: if_splits)

lemma wal_refs_subset: "wal_refs w \<subseteq> A \<longleftrightarrow> (\<forall>g\<in>ran (wl_groups w). group_refs g \<subseteq> A)"
  by (simp add: wal_refs_def UN_subset_iff)

lemma put_group_refs:
  assumes "group_refs g \<subseteq> A" "wal_refs w \<subseteq> A"
  shows "wal_refs (put_group g w) \<subseteq> A"
  unfolding wal_refs_subset
proof
  fix x
  assume "x \<in> ran (wl_groups (put_group g w))"
  then have "x = g \<or> x \<in> ran (wl_groups w)" using ran_upd_subset(1) by (fastforce simp: put_group_def)
  then show "group_refs x \<subseteq> A" using assms unfolding wal_refs_subset by (elim disjE) simp_all
qed

lemma entry_locs_seg: "el_seg ` set (entry_locs s off es os n) \<subseteq> {s}"
  by (induction s off es os n rule: entry_locs.induct) simp_all

lemma group_refs_upds:
  assumes "group_refs g \<subseteq> A"
  shows "s \<in> A \<Longrightarrow> group_refs (g\<lparr>gs_hs := h, gs_hsSeg := Some s\<rparr>) \<subseteq> A"
    "s \<in> A \<Longrightarrow> group_refs (g\<lparr>gs_snap := m, gs_hasSnap := b, gs_snapSeg := Some s\<rparr>) \<subseteq> A"
    "s \<in> A \<Longrightarrow> group_refs (g\<lparr>gs_commit := i, gs_cmtSeg := Some s\<rparr>) \<subseteq> A"
    "el_seg ` set ls \<subseteq> A \<Longrightarrow> group_refs (g\<lparr>gs_locs := ls\<rparr>) \<subseteq> A"
    "el_seg ` set ls \<subseteq> A \<Longrightarrow> group_refs (g\<lparr>gs_locs := ls, gs_first := i\<rparr>) \<subseteq> A"
    "el_seg ` set (gs_locs g) \<subseteq> A" "el_seg ` set (take k (gs_locs g)) \<subseteq> A" "el_seg ` set (drop k (gs_locs g)) \<subseteq> A"
  using assms set_take_subset [of k "gs_locs g"] set_drop_subset [of k "gs_locs g"] unfolding group_refs_def by (simp_all, blast+)

lemma refs_drops:
  assumes "wal_refs w \<subseteq> A" "group_refs g \<subseteq> A"
  shows "wal_refs (dropSuffix w g i) \<subseteq> A" "wal_refs (dropPrefix w g i) \<subseteq> A"
  using assms group_refs_upds [OF assms(2)] by (simp_all add: dropSuffix_def dropPrefix_def Let_def put_group_refs)

lemma wal_refs_del: "wal_refs w \<subseteq> A \<Longrightarrow> wal_refs (w\<lparr>wl_groups := (wl_groups w)(i := None)\<rparr>) \<subseteq> A"
  using ran_upd_subset(2) [of "wl_groups w" i] by (simp add: wal_refs_subset) blast

lemma refs_installs:
  assumes "wal_refs w \<subseteq> A" "group_refs g \<subseteq> A" "s \<in> A"
  shows "wal_refs (installHardState w g s h) \<subseteq> A" "wal_refs (wal_installSnapshot w g s m) \<subseteq> A"
    "wal_refs (installCommit w g s i) \<subseteq> A" "wal_refs (dropGroup w g) \<subseteq> A"
  using assms group_refs_upds [OF assms(2)]
  by (simp_all add: installHardState_def wal_installSnapshot_def installCommit_def put_group_refs dropGroup_def Let_def wal_refs_del)

lemma refs_installEntries:
  assumes "wal_refs w \<subseteq> A" "group_refs g \<subseteq> A" "s \<in> A"
  shows "wal_refs (installEntries w g s off es os n) \<subseteq> A"
proof -
  let ?f = "e_Index (es ! 0)" and ?c = "length (gs_locs g) = 0 \<or> e_Index (es ! 0) < gs_first g"
  define w' where "w' = (if ?c then dropSuffix w g ?f else if ?f \<le> group_last g then dropSuffix w g ?f else put_group g w)"
  define g' where "g' = (if ?c then (wal_group w' (gs_id g))\<lparr>gs_first := ?f, gs_locs := []\<rparr> else wal_group w' (gs_id g))"
  have w': "wal_refs w' \<subseteq> A" using assms refs_drops(1) put_group_refs by (simp add: w'_def)
  then have g: "group_refs (wal_group w' (gs_id g)) \<subseteq> A" using group_refs_wal by (rule subset_trans [rotated])
  then have g': "group_refs g' \<subseteq> A" by (simp add: g'_def group_refs_def)
  have "el_seg ` set (gs_locs g' @ entry_locs s off es os n) \<subseteq> A"
    using group_refs_upds(6) [OF g'] entry_locs_seg [of s off es os n] assms(3) by auto
  then have p: "group_refs (g'\<lparr>gs_locs := gs_locs g' @ entry_locs s off es os n\<rparr>) \<subseteq> A"
    by (rule group_refs_upds(4) [OF g'])
  have "installEntries w g s off es os n = (if length es = 0 then put_group g w
      else fold credit_loc (entry_locs s off es os n) (put_group (g'\<lparr>gs_locs := gs_locs g' @ entry_locs s off es os n\<rparr>) w'))"
    unfolding installEntries_def w'_def g'_def Let_def by (rule refl)
  then show ?thesis using put_group_refs [OF p w'] put_group_refs [OF assms(2,1)] by simp
qed

lemma replay_recE:
  assumes "replay_rec s off r w = Ok w'"
  obtains (entries) off' es os n where "w' = installEntries w (wal_group w (fst r)) s off' es os n"
    | (hard) h where "w' = installHardState w (wal_group w (fst r)) s h"
    | (suffix) i where "w' = dropSuffix w (wal_group w (fst r)) i"
    | (prefix) i where "w' = dropPrefix w (wal_group w (fst r)) i"
    | (snapshot) m where "w' = wal_installSnapshot w (wal_group w (fst r)) s m"
    | (commit) i where "w' = installCommit w (wal_group w (fst r)) s i"
    | (remove) "w' = dropGroup w (wal_group w (fst r))"
  using assms by (cases r) (auto simp: replay_rec_def wal_replay_def Let_def obind_eq_Ok split: if_splits prod.splits)

lemma refs_replay:
  assumes "wal_refs w \<subseteq> A" "s \<in> A" "replay_rec s off r w = Ok w'"
  shows "wal_refs w' \<subseteq> A"
proof -
  have g: "group_refs (wal_group w (fst r)) \<subseteq> A" using group_refs_wal assms(1) by (rule subset_trans)
  note * = refs_drops [OF assms(1) g] refs_installs [OF assms(1) g assms(2)] refs_installEntries [OF assms(1) g assms(2)]
  from assms(3) show ?thesis by (cases rule: replay_recE) (simp_all add: *)
qed

lemma refs_put_recs: "wal_refs w \<subseteq> A \<Longrightarrow> s \<in> A \<Longrightarrow> wal_refs (put_recs s off rs w) \<subseteq> A"
proof (induction rs arbitrary: off w)
  case (Cons r rs)
  have "wal_refs (put_rec s off r w) \<subseteq> A"
    using refs_replay [OF Cons.prems] Cons.prems(1) by (auto simp: put_rec_def split: outcome.split)
  then show ?case using Cons by simp
qed simp

section \<open>A segment nothing refers to\<close>

text \<open>The transitions do not notice a new segment.\<close>

lemma add_seg_simps [simp]:
  "wl_groups (add_seg t w) = wl_groups w" "wal_group (add_seg t w) i = wal_group w i"
  "put_group g (add_seg t w) = add_seg t (put_group g w)" "wal_refs (add_seg t w) = wal_refs w"
  "(add_seg t w)\<lparr>wl_groups := m\<rparr> = add_seg t (w\<lparr>wl_groups := m\<rparr>)"
  by (simp_all add: add_seg_def wal_group_def put_group_def wal_refs_def)

lemma add_seg_upd: "s \<noteq> t \<Longrightarrow> upd_seg s f (add_seg t w) = add_seg t (upd_seg s f w)"
  by (simp add: add_seg_def upd_seg_def new_segment_def)

lemma add_seg_pins:
  "set_option o1 \<subseteq> A \<Longrightarrow> t \<notin> A \<Longrightarrow> unpin o1 (add_seg t w) = add_seg t (unpin o1 w)"
  "s \<noteq> t \<Longrightarrow> pin s (add_seg t w) = add_seg t (pin s w)"
  by (auto simp: unpin_def pin_def intro!: add_seg_upd split: option.split)

lemma add_seg_loc: "el_seg l \<noteq> t \<Longrightarrow> release_loc l (add_seg t w) = add_seg t (release_loc l w)"
  "el_seg l \<noteq> t \<Longrightarrow> credit_loc l (add_seg t w) = add_seg t (credit_loc l w)"
  by (simp_all add: release_loc_def credit_loc_def add_seg_upd)

lemma add_seg_locs:
  assumes "el_seg ` set ls \<subseteq> A" "t \<notin> A"
  shows "wal_release ls (add_seg t w) = add_seg t (wal_release ls w)"
    "fold credit_loc ls (add_seg t w) = add_seg t (fold credit_loc ls w)"
proof -
  have ne: "\<forall>l\<in>set ls. el_seg l \<noteq> t" using assms by blast
  show "wal_release ls (add_seg t w) = add_seg t (wal_release ls w)"
    using ne by (induction ls arbitrary: w) (simp_all add: wal_release_def add_seg_loc)
  show "fold credit_loc ls (add_seg t w) = add_seg t (fold credit_loc ls w)"
    using ne by (induction ls arbitrary: w) (simp_all add: add_seg_loc)
qed

lemma group_refsD:
  assumes "group_refs g \<subseteq> A"
  shows "set_option (gs_hsSeg g) \<subseteq> A" "set_option (gs_snapSeg g) \<subseteq> A" "set_option (gs_cmtSeg g) \<subseteq> A"
  using assms by (simp_all add: group_refs_def)

lemma add_seg_drops:
  assumes "group_refs g \<subseteq> A" "t \<notin> A"
  shows "dropSuffix (add_seg t w) g i = add_seg t (dropSuffix w g i)" "dropPrefix (add_seg t w) g i = add_seg t (dropPrefix w g i)"
  by (simp_all add: dropSuffix_def dropPrefix_def Let_def add_seg_locs(1) [OF group_refs_upds(6) [OF assms(1)] assms(2)]
      add_seg_locs(1) [OF group_refs_upds(7) [OF assms(1)] assms(2)] add_seg_locs(1) [OF group_refs_upds(8) [OF assms(1)] assms(2)])

lemma add_seg_installs:
  assumes "group_refs g \<subseteq> A" "s \<in> A" "t \<notin> A"
  shows "installHardState (add_seg t w) g s h = add_seg t (installHardState w g s h)"
    "wal_installSnapshot (add_seg t w) g s m = add_seg t (wal_installSnapshot w g s m)"
    "installCommit (add_seg t w) g s i = add_seg t (installCommit w g s i)"
    "dropGroup (add_seg t w) g = add_seg t (dropGroup w g)"
proof -
  have st: "s \<noteq> t" using assms(2,3) by blast
  note * = add_seg_pins(1) [OF group_refsD(1) [OF assms(1)] assms(3)] add_seg_pins(1) [OF group_refsD(2) [OF assms(1)] assms(3)]
    add_seg_pins(1) [OF group_refsD(3) [OF assms(1)] assms(3)] add_seg_pins(2) [OF st]
    add_seg_locs(1) [OF group_refs_upds(6) [OF assms(1)] assms(3)]
  show "installHardState (add_seg t w) g s h = add_seg t (installHardState w g s h)"
    "wal_installSnapshot (add_seg t w) g s m = add_seg t (wal_installSnapshot w g s m)"
    "dropGroup (add_seg t w) g = add_seg t (dropGroup w g)"
    by (simp_all add: installHardState_def wal_installSnapshot_def dropGroup_def * Let_def)
  show "installCommit (add_seg t w) g s i = add_seg t (installCommit w g s i)"
    by (cases "i \<le> gs_commit g \<and> gs_cmtSeg g \<noteq> None") (simp_all only: installCommit_def * add_seg_simps if_P if_not_P not_False_eq_True)
qed

lemma add_seg_installEntries:
  assumes "group_refs g \<subseteq> A" "s \<in> A" "t \<notin> A"
  shows "installEntries (add_seg t w) g s off es os n = add_seg t (installEntries w g s off es os n)"
proof -
  have l: "el_seg ` set (entry_locs s off es os n) \<subseteq> A" using entry_locs_seg assms(2) by fast
  show ?thesis
    by (simp add: installEntries_def Let_def add_seg_drops [OF assms(1,3)] add_seg_locs(2) [OF l assms(3)])
qed

lemma add_seg_replay:
  assumes "wal_refs w \<subseteq> A" "s \<in> A" "t \<notin> A"
  shows "replay_rec s off r (add_seg t w) = omap (add_seg t) (replay_rec s off r w)"
proof -
  obtain i k b where r: "r = (i, k, b)" by (cases r)
  have g: "group_refs (wal_group w i) \<subseteq> A" using group_refs_wal assms(1) by (rule subset_trans)
  note * = add_seg_drops [OF g assms(3)] add_seg_installs [OF g assms(2,3)] add_seg_installEntries [OF g assms(2,3)]
  show ?thesis by (simp add: r replay_rec_def wal_replay_def * Let_def omap_obind omap_prod if_distrib [of "omap (add_seg t)"])
qed

lemma add_seg_put_recs:
  "wal_refs w \<subseteq> A \<Longrightarrow> s \<in> A \<Longrightarrow> t \<notin> A \<Longrightarrow> put_recs s off rs (add_seg t w) = add_seg t (put_recs s off rs w)"
proof (induction rs arbitrary: off w)
  case (Cons r rs)
  have "put_rec s off r (add_seg t w) = add_seg t (put_rec s off r w)"
    unfolding put_rec_def add_seg_replay [OF Cons.prems] by (cases "replay_rec s off r w") simp_all
  moreover have "wal_refs (put_rec s off r w) \<subseteq> A" using refs_put_recs [OF Cons.prems(1,2), of off "[r]"] by simp
  ultimately show ?case using Cons by simp
qed simp

section \<open>Requests\<close>

text \<open>A request whose bytes are the frames of some records and whose effect is theirs.\<close>

definition implements :: "writeRequest \<Rightarrow> walRec list \<Rightarrow> bool" where
  "implements r recs \<longleftrightarrow> list_all good_rec recs \<and> recs \<noteq> [] \<and> wr_records r = recs_bytes recs
    \<and> (\<forall>s base w. wr_apply r s base w = put_recs s base recs w)"

definition state_recs :: "nat \<Rightarrow> HardState option \<Rightarrow> LogEntry list \<Rightarrow> walRec list" where
  "state_recs i hs es = (case hs of None \<Rightarrow> [] | Some h \<Rightarrow> [(i, kindHardState, encodeHardStateBody h)])
    @ (if es = [] then [] else [(i, kindEntries, fst (encodeEntriesBody es))])"

text \<open>What fits into the fields of a record.\<close>

definition state_ok :: "nat \<Rightarrow> HardState option \<Rightarrow> LogEntry list \<Rightarrow> bool" where
  "state_ok i hs es \<longleftrightarrow> i < 2 ^ 64 \<and> pred_option hs_ok hs \<and> list_all entry_ok es
    \<and> length (fst (encodeEntriesBody es)) < 2 ^ 32 \<and> (hs \<noteq> None \<or> es \<noteq> [])"

lemma entries_count_bound: "length es \<le> length (fst (encodeEntriesBody es))"
proof -
  have "length es \<le> length (concat (map encodeEntry es))"
    by (induction es) (simp_all add: entry_size_def entryHeaderSize_def)
  then show ?thesis by (simp add: encodeEntriesBody_eq)
qed

lemma put_hard: "hs_ok h \<Longrightarrow> put_rec s off (i, kindHardState, encodeHardStateBody h) w = installHardState w (wal_group w i) s h"
  by (simp add: put_rec_def replay_rec_def wal_replay_def record_kinds hard_state_body_roundtrip)

lemma put_entries: "list_all entry_ok es \<Longrightarrow> length es < 2 ^ 32 \<Longrightarrow>
    put_rec s off (i, kindEntries, fst (encodeEntriesBody es)) w =
    installEntries w (wal_group w i) s (off + recordHeaderSize) es (snd (encodeEntriesBody es)) (length (fst (encodeEntriesBody es)))"
  by (simp add: put_rec_def replay_rec_def wal_replay_def entries_body_roundtrip)

lemma state_implements: "state_ok i hs es \<Longrightarrow> implements (state_request i hs es) (state_recs i hs es)"
proof -
  assume ok: "state_ok i hs es"
  then have n: "length es < 2 ^ 32" using entries_count_bound [of es] by (simp add: state_ok_def)
  have h: "length (encodeHardStateBody h) < 2 ^ 32" if "hs_ok h" for h
    using that by (simp add: encodeHardStateBody_def hs_ok_def)
  have "list_all good_rec (state_recs i hs es)"
    using ok n entries_body_roundtrip [of es] hard_state_body_roundtrip h
    by (auto simp: state_ok_def state_recs_def good_rec_def split: option.splits)
  moreover have "wr_records (state_request i hs es) = recs_bytes (state_recs i hs es)" "state_recs i hs es \<noteq> []"
    using ok by (cases hs; simp add: state_request_def state_recs_def state_ok_def appendRecord_frame Let_def)+
  moreover have "wr_apply (state_request i hs es) s base w = put_recs s base (state_recs i hs es) w" for s base w
    using ok n put_hard [of _ s base i w] put_entries [of es s _ i]
    by (cases hs) (simp_all add: state_request_def state_recs_def state_ok_def appendRecord_frame add.assoc Let_def)
  ultimately show ?thesis by (simp add: implements_def)
qed

lemma index_implements:
  assumes "i < 2 ^ 64" "j < 2 ^ 64"
  shows "implements (suffix_request i j) [(i, kindTruncateSuffix, encodeIndexBody j)]"
    "implements (prefix_request i j) [(i, kindTruncatePrefix, encodeIndexBody j)]"
    "implements (commit_request i j) [(i, kindCommitIndex, encodeIndexBody j)]"
  using assms index_body_roundtrip [OF assms(2)]
  by (simp_all add: implements_def good_rec_def suffix_request_def prefix_request_def commit_request_def appendRecord_frame put_rec_def
      replay_rec_def wal_replay_def record_kinds) (simp_all add: encodeIndexBody_def)

lemma snapshot_implements:
  "i < 2 ^ 64 \<Longrightarrow> meta_ok m \<Longrightarrow> implements (snapshot_request i m) [(i, kindSnapshot, encodeSnapshotBody m)]"
  using snapshot_body_roundtrip [of m]
  by (simp add: implements_def good_rec_def snapshot_request_def appendRecord_frame put_rec_def replay_rec_def wal_replay_def record_kinds)
    (simp add: encodeSnapshotBody_def)

lemma dropGroup_new: "wl_groups w i = None \<Longrightarrow> dropGroup w (new_group i) = w"
  by (simp add: dropGroup_def new_group_def wal_release_def unpin_def fun_upd_idem)

lemma remove_implements: "i < 2 ^ 64 \<Longrightarrow> implements (remove_request i) [(i, kindRemoveGroup, [])]"
  using dropGroup_new
  by (auto simp: implements_def good_rec_def remove_request_def appendRecord_frame put_rec_def replay_rec_def wal_replay_def record_kinds
      wal_group_def split: option.splits)

end
