(* ===== verification/Wal_Commit.thy ===== *)
theory Wal_Commit
  imports Wal_Batch
begin

text \<open>
  Group commit and its layout on disk: a batch is its requests one after the other, and each of
  them extends the records of the last segment or begins a new one.
\<close>

section \<open>Writing without faults\<close>

definition put_bytes :: "nat \<Rightarrow> nat \<Rightarrow> bytes \<Rightarrow> WAL \<Rightarrow> WAL" where
  "put_bytes s base b w = w\<lparr>wl_files := assoc_put s (write_at (file_of w s) base b) (wl_files w)\<rparr>"

definition add_file :: "nat \<Rightarrow> WAL \<Rightarrow> WAL" where
  "add_file t w = w\<lparr>wl_files := wl_files w @ [(t, [])]\<rparr>"

definition calm :: "WAL \<Rightarrow> WAL" where
  "calm w = w\<lparr>wl_faults := []\<rparr>"

interpretation bytes: wal_context "put_bytes s base b" for s base b
  by unfold_locales (simp_all add: put_bytes_def upd_seg_def file_of_def)

interpretation newfile: wal_context "add_file t" for t
  by unfold_locales (simp_all add: add_file_def upd_seg_def)

interpretation calm: wal_context calm
  by unfold_locales (simp_all add: calm_def upd_seg_def)

definition keys :: "WAL \<Rightarrow> nat set" where
  "keys w = fst ` set (wl_files w)"

lemma assoc_put_keys [simp]: "fst ` set (assoc_put k v al) = insert k (fst ` set al)"
  by (force simp: assoc_put_def)

lemma keys_simps [simp]: "keys (put_bytes s base b w) = insert s (keys w)" "keys (add_file t w) = insert t (keys w)"
  "keys (add_seg t w) = keys w" "keys (resize t f w) = keys w" "keys (upd_seg t g w) = keys w"
  by (simp_all add: keys_def put_bytes_def add_file_def add_seg_def resize_def upd_seg_def)

lemma keys_put_recs [simp]: "keys (put_recs s off rs w) = keys w"
  using aroundD(1) [OF around.view_put_recs [of s off rs w]] by (simp add: keys_def)

lemma writeFile_calm: "wl_faults w = [] \<Longrightarrow> writeFile w s base b = (put_bytes s base b w, None)"
  by (simp add: writeFile_def io_call_def put_bytes_def)

lemma createSegment_calm: "wl_faults w = [] \<Longrightarrow> t \<notin> keys w \<Longrightarrow> createSegment w t = (add_seg t (add_file t w), Ok t)"
  by (simp add: createSegment_def no_faults keys_def add_seg_def add_file_def)

lemma faults_simps [simp]: "wl_faults (put_bytes s base b w) = wl_faults w" "wl_faults (add_file t w) = wl_faults w"
  "wl_faults (add_seg t w) = wl_faults w" "wl_faults (resize t f w) = wl_faults w" "wl_faults (put_recs s off rs w) = wl_faults w"
  using aroundD(2) [OF around.view_put_recs [of s off rs w]]
  by (simp_all add: put_bytes_def add_file_def add_seg_def resize_def upd_seg_def)

definition write_placed :: "placement list \<Rightarrow> WAL \<Rightarrow> WAL" where
  "write_placed ps w = fold (\<lambda>(r, s, base). put_bytes s base (wr_records r)) ps w"

lemma write_all_calm: "wl_faults w = [] \<Longrightarrow> write_all ps prev w = (write_placed ps w, None)"
  by (induction ps prev w rule: write_all.induct)
    (auto simp: write_placed_def writeFile_calm no_faults split: option.splits)

lemma seg_size_shape: "seg_size w s = (case map_of (shape w) s of Some n \<Rightarrow> n | None \<Rightarrow> 0)"
proof -
  have "find (\<lambda>x. sg_seq x = s) xs = None \<longleftrightarrow> map_of (map (\<lambda>x. (sg_seq x, sg_size x)) xs) s = None"
    "find (\<lambda>x. sg_seq x = s) xs = Some y \<Longrightarrow> map_of (map (\<lambda>x. (sg_seq x, sg_size x)) xs) s = Some (sg_size y)" for xs :: "segment list" and y
    by (induction xs) (auto split: if_splits)
  then show ?thesis by (auto simp: seg_size_def shape_def split: option.split)
qed

definition rotates :: "writeRequest \<Rightarrow> nat \<Rightarrow> WAL \<Rightarrow> bool" where
  "rotates r s w \<longleftrightarrow> 0 < seg_size w s \<and> wl_segmentSize w < seg_size w s + length (wr_records r)"

text \<open>Where a request goes, and the log with room made for it.\<close>

definition spot :: "writeRequest \<Rightarrow> nat \<Rightarrow> WAL \<Rightarrow> nat" where
  "spot r s w = (if rotates r s w then s + 1 else s)"

definition make_room :: "writeRequest \<Rightarrow> nat \<Rightarrow> WAL \<Rightarrow> WAL" where
  "make_room r s w = (if rotates r s w then add_seg (s + 1) (add_file (s + 1) w) else w)"

definition place_room :: "writeRequest \<Rightarrow> nat \<Rightarrow> WAL \<Rightarrow> WAL" where
  "place_room r s w = resize (spot r s w) (\<lambda>n. n + length (wr_records r)) (make_room r s w)"

definition placed :: "writeRequest \<Rightarrow> nat \<Rightarrow> WAL \<Rightarrow> placement" where
  "placed r s w = (r, spot r s w, seg_size (make_room r s w) (spot r s w))"

text \<open>Nothing lies beyond the active segment.\<close>

definition topmost :: "nat \<Rightarrow> WAL \<Rightarrow> bool" where
  "topmost s w \<longleftrightarrow> wl_faults w = [] \<and> keys w \<subseteq> {..s} \<and> wal_refs w \<subseteq> {..s} \<and> s \<in> keys w"

lemma refs_files [simp]: "wal_refs (add_file t w) = wal_refs w" "wal_refs (put_bytes s base b w) = wal_refs w" "wal_refs (resize t f w) = wal_refs w"
  by (simp_all add: wal_refs_def add_file_def put_bytes_def resize_def upd_seg_def)

lemma topmost_place: "topmost s w \<Longrightarrow> topmost (spot r s w) (place_room r s w)"
  by (auto simp: topmost_def place_room_def make_room_def spot_def atMost_Suc)

lemma place_all_Cons:
  assumes "topmost s w"
  shows "place_all (r # rs) s w = (case place_all rs (spot r s w) (place_room r s w) of (w', ps, err) \<Rightarrow> (w', placed r s w # ps, err))"
proof -
  have "s + 1 \<notin> keys w" "wl_faults w = []" using assms by (auto simp: topmost_def)
  then show ?thesis
    by (simp add: rotates_def [symmetric] spot_def make_room_def place_room_def placed_def place_one_def no_faults createSegment_calm
        resize_def split: prod.splits)
qed

lemma place_all_calm: "topmost s w \<Longrightarrow> \<exists>w' ps. place_all rs s w = (w', ps, None) \<and> wl_faults w' = []"
proof (induction rs arbitrary: s w)
  case (Cons r rs)
  obtain w' ps where "place_all rs (spot r s w) (place_room r s w) = (w', ps, None)" "wl_faults w' = []"
    using Cons.IH [OF topmost_place [OF Cons.prems, of r]] by blast
  then show ?case by (simp add: place_all_Cons [OF Cons.prems] del: place_all.simps)
qed (simp add: topmost_def)

section \<open>A request takes effect before or after others are placed\<close>

text \<open>One request written and applied at its place.\<close>

definition settle :: "nat \<Rightarrow> nat \<Rightarrow> walRec list \<Rightarrow> WAL \<Rightarrow> WAL" where
  "settle s base recs w = put_recs s base recs (put_bytes s base (recs_bytes recs) w)"

lemma shape_simps [simp]: "shape (put_bytes s base b w) = shape w" "shape (add_file t w) = shape w" "shape (put_recs s off rs w) = shape w"
  by (simp_all add: shape_def put_bytes_def add_file_def shape.view_put_recs [unfolded shape_def])

lemma shape_more [simp]: "shape (add_seg t w) = shape w @ [(t, 0)]"
  "shape (resize t f w) = map (\<lambda>(s, n). (s, if s = t then f n else n)) (shape w)"
  by (auto simp: shape_def add_seg_def resize_def upd_seg_def new_segment_def)

lemma limit_simps [simp]: "wl_segmentSize (put_bytes s base b w) = wl_segmentSize w" "wl_segmentSize (add_file t w) = wl_segmentSize w"
  "wl_segmentSize (put_recs s off rs w) = wl_segmentSize w" "wl_segmentSize (add_seg t w) = wl_segmentSize w"
  "wl_segmentSize (resize t f w) = wl_segmentSize w"
  using aroundD(4) [OF around.view_put_recs [of s off rs w]]
  by (simp_all add: put_bytes_def add_file_def add_seg_def resize_def upd_seg_def)

lemma settle_simps [simp]: "shape (settle s base recs w) = shape w" "wl_segmentSize (settle s base recs w) = wl_segmentSize w"
  "seg_size (settle s base recs w) t = seg_size w t" "rotates r t (settle s base recs w) = rotates r t w"
  "spot r t (settle s base recs w) = spot r t w"
  by (simp_all add: settle_def seg_size_shape rotates_def spot_def)

lemma put_bytes_add_file: "s \<in> keys w \<Longrightarrow> t \<notin> keys w \<Longrightarrow> put_bytes s base b (add_file t w) = add_file t (put_bytes s base b w)"
  by (cases "s = t") (auto simp: put_bytes_def add_file_def assoc_put_def keys_def file_of_def map_add_def map_of_eq_None_iff split: option.splits)

lemma put_bytes_segs: "put_bytes s base b (add_seg t w) = add_seg t (put_bytes s base b w)"
  "put_bytes s base b (resize t f w) = resize t f (put_bytes s base b w)"
  by (simp_all add: put_bytes_def add_seg_def resize_def upd_seg_def file_of_def)

lemma settle_resize: "settle s base recs (resize t f w) = resize t f (settle s base recs w)"
  by (simp add: settle_def put_bytes_segs sizes.at_put_recs)

lemma settle_new:
  assumes "topmost t w" "s \<le> t" "s \<in> keys w"
  shows "settle s base recs (add_seg (Suc t) (add_file (Suc t) w)) = add_seg (Suc t) (add_file (Suc t) (settle s base recs w))"
proof -
  have "Suc t \<notin> keys w" "wal_refs w \<subseteq> {..t}" using assms(1) by (auto simp: topmost_def)
  then show ?thesis using assms(2,3)
    by (simp add: settle_def put_bytes_segs put_bytes_add_file newfile.at_put_recs add_seg_put_recs [where A = "{..t}"])
qed

lemma settle_room:
  assumes "topmost t w" "s \<le> t" "s \<in> keys w"
  shows "place_room r t (settle s base recs w) = settle s base recs (place_room r t w)"
  using settle_new [OF assms] by (simp add: place_room_def make_room_def settle_resize)

lemma topmost_settle: "topmost t w \<Longrightarrow> s \<le> t \<Longrightarrow> topmost t (settle s base recs w)"
  using refs_put_recs [of "put_bytes s base (recs_bytes recs) w" "{..t}" s] by (auto simp: topmost_def settle_def)

lemma place_all_settle:
  assumes "topmost t w" "s \<le> t" "s \<in> keys w" "place_all rs t w = (w', ps, err)"
  shows "place_all rs t (settle s base recs w) = (settle s base recs w', ps, err)"
  using assms
proof (induction rs arbitrary: t w w' ps)
  case (Cons r rs)
  obtain v qs where v: "place_all rs (spot r t w) (place_room r t w) = (v, qs, err)" "w' = v" "ps = placed r t w # qs"
    using Cons.prems(4) by (auto simp: place_all_Cons [OF Cons.prems(1)] simp del: place_all.simps split: prod.splits)
  have s: "s \<le> spot r t w" "s \<in> keys (place_room r t w)"
    using Cons.prems(2,3) by (auto simp: spot_def place_room_def make_room_def)
  have "placed r t (settle s base recs w) = placed r t w"
    by (simp add: placed_def make_room_def seg_size_shape split: option.splits)
  then show ?case
    using Cons.IH [OF topmost_place [OF Cons.prems(1)] s v(1)] v settle_room [OF Cons.prems(1-3)]
    by (simp add: place_all_Cons [OF topmost_settle [OF Cons.prems(1,2)]] del: place_all.simps)
qed simp

section \<open>A batch is its requests in order\<close>

lemma write_placed_recs: "write_placed ps (put_recs s off rs w) = put_recs s off rs (write_placed ps w)"
  by (induction ps arbitrary: w) (auto simp: write_placed_def bytes.at_put_recs [symmetric])

lemma wal_active_shape: "wal_active w = (if shape w = [] then createSegment w 0 else (w, Ok (fst (last (shape w)))))"
  by (cases "wl_segments w" rule: rev_exhaust) (simp_all add: wal_active_def shape_def nth_append)

lemma apply_all_Cons: "apply_all ((r, s, base) # ps) w = apply_all ps (wr_apply r s base w)"
  by (simp add: apply_all_def)

lemma write_placed_Cons: "write_placed ((r, s, base) # ps) w = write_placed ps (put_bytes s base (wr_records r) w)"
  by (simp add: write_placed_def)

text \<open>The log before a batch: no faults to come, nothing failed, and the active segment is the last.\<close>

definition ready :: "WAL \<Rightarrow> WAL \<Rightarrow> nat \<Rightarrow> bool" where
  "ready w w1 s \<longleftrightarrow> wl_faults w = [] \<and> wl_syncErr w = None \<and> wl_syncErr w1 = None \<and> wal_active w = (w1, Ok s) \<and> topmost s w1
    \<and> shape w1 \<noteq> [] \<and> fst (last (shape w1)) = s"

lemma writeBatch_calm:
  assumes "ready w w1 s" "place_all batch s w1 = (w2, ps, None)"
  shows "writeBatch batch w = (apply_all ps (write_placed ps w2), None)"
proof -
  have "wl_faults w2 = []" using place_all_calm [of s w1 batch] assms by (auto simp: ready_def)
  then show ?thesis using assms by (simp add: writeBatch_def ready_def write_all_calm)
qed

lemma syncErr_simps [simp]: "wl_syncErr (settle s base recs w) = wl_syncErr w" "wl_syncErr (place_room r s w) = wl_syncErr w"
  using aroundD(6) [OF around.view_put_recs [of s base recs "put_bytes s base (recs_bytes recs) w"]]
  by (simp_all add: settle_def put_bytes_def place_room_def make_room_def resize_def upd_seg_def add_seg_def add_file_def)

lemma one_settles:
  assumes "ready w w1 s" "implements r recs"
  defines "v \<equiv> settle (spot r s w1) (seg_size (make_room r s w1) (spot r s w1)) recs (place_room r s w1)"
  shows "writeBatch [r] w = (v, None)" "ready v v (spot r s w1)"
proof -
  have t: "topmost s w1" using assms(1) by (simp add: ready_def)
  have "place_all [r] s w1 = (place_room r s w1, [placed r s w1], None)" by (simp only: place_all_Cons [OF t]) simp
  from writeBatch_calm [OF assms(1) this] show "writeBatch [r] w = (v, None)"
    using assms(2) by (simp add: placed_def apply_all_Cons write_placed_Cons v_def settle_def implements_def)
      (simp add: apply_all_def write_placed_def)
  have tv: "topmost (spot r s w1) v" unfolding v_def by (intro topmost_settle topmost_place t) simp
  have sh: "shape v \<noteq> [] \<and> fst (last (shape v)) = spot r s w1"
    using assms(1) by (auto simp: v_def ready_def place_room_def make_room_def spot_def last_map case_prod_unfold)
  show "ready v v (spot r s w1)"
    using tv sh assms(1) by (simp add: ready_def wal_active_shape topmost_def) (simp add: v_def)
qed

lemma batch_Cons:
  assumes "ready w w1 s" "implements r recs"
  shows "writeBatch (r # rs) w = writeBatch rs (fst (writeBatch [r] w))"
proof -
  let ?t = "spot r s w1" and ?v = "place_room r s w1"
  let ?b = "seg_size (make_room r s w1) ?t"
  have t: "topmost s w1" using assms(1) by (simp add: ready_def)
  note o1 = one_settles [OF assms]
  obtain w3 ps where p: "place_all rs ?t ?v = (w3, ps, None)" using place_all_calm [OF topmost_place [OF t]] by blast
  have "place_all (r # rs) s w1 = (w3, placed r s w1 # ps, None)" using p by (simp only: place_all_Cons [OF t]) simp
  from writeBatch_calm [OF assms(1) this]
  have "writeBatch (r # rs) w = (apply_all ps (write_placed ps (settle ?t ?b recs w3)), None)"
    using assms(2) by (simp add: placed_def apply_all_Cons write_placed_Cons implements_def settle_def write_placed_recs)
  moreover have "?t \<in> keys ?v" "topmost ?t ?v" using topmost_place [OF t, of r] by (simp_all add: topmost_def)
  from place_all_settle [OF this(2) order_refl this(1) p]
  have "place_all rs ?t (settle ?t ?b recs ?v) = (settle ?t ?b recs w3, ps, None)" .
  ultimately show ?thesis using writeBatch_calm [OF o1(2)] o1(1) by simp
qed

section \<open>The layout of the log\<close>

definition laid_out :: "WAL \<Rightarrow> layout \<Rightarrow> bool" where
  "laid_out w L \<longleftrightarrow> layout_ok L \<and> wl_files w = layout_files L \<and> w = build L (around w)"

definition grow :: "nat \<Rightarrow> layout \<Rightarrow> walRec list \<Rightarrow> layout" where
  "grow lim L recs =
    (if L = [] then [(0, recs)]
     else case last L of (s, rs) \<Rightarrow>
       if 0 < length (recs_bytes rs) \<and> lim < length (recs_bytes rs) + length (recs_bytes recs)
       then L @ [(s + 1, recs)] else butlast L @ [(s, rs @ recs)])"

lemma refs_build: "wal_refs w \<subseteq> A \<Longrightarrow> fst ` set L \<subseteq> A \<Longrightarrow> wal_refs (build L w) \<subseteq> A"
proof (induction L w rule: build.induct)
  case (2 s rs L w)
  have "wal_refs (build_seg s rs w) \<subseteq> A" using refs_put_recs [of "add_seg s w" A s] 2 by (simp add: build_seg_def)
  then show ?case using 2 by simp
qed simp

lemma shape_build:
  "distinct (map fst (shape w) @ map fst L) \<Longrightarrow> shape (build L w) = shape w @ map (\<lambda>(s, rs). (s, length (recs_bytes rs))) L"
proof (induction L w rule: build.induct)
  case (2 s rs L w)
  have "s \<notin> fst ` set (shape w)" using 2 by auto
  then have "shape (build_seg s rs w) = shape w @ [(s, length (recs_bytes rs))]"
    by (simp add: build_seg_def) (force intro!: map_idI)
  then show ?case using 2 by simp
qed simp

lemma around_fields [simp]: "shape (around w) = []" "wal_refs (around w) = {}" "around (around w) = around w"
  "wl_segmentSize (around w) = wl_segmentSize w" "wl_files (around w) = wl_files w" "dress v (around w) = around v"
  by (simp_all add: around_def shape_def wal_refs_def dress_def)

lemma laid_out_shape: "laid_out w L \<Longrightarrow> shape w = map (\<lambda>(s, rs). (s, length (recs_bytes rs))) L"
  unfolding laid_out_def using shape_build [of "around w" L] by (metis append_Nil around_fields(1) layout_ok_def map_is_Nil_conv strict_sorted_iff)

lemma laid_out_top:
  assumes "laid_out w L" "L \<noteq> []" "wl_faults w = []"
  shows "topmost (fst (last L)) w" "shape w \<noteq> []" "fst (last (shape w)) = fst (last L)"
proof -
  have s: "sorted_wrt (<) (map fst L)" "keys w = fst ` set L"
    using assms(1) by (force simp: laid_out_def layout_ok_def keys_def layout_files_def)+
  have "fst ` set L \<subseteq> {..fst (last L)}"
    using s(1) assms(2) by (cases L rule: rev_exhaust) (auto simp: sorted_wrt_append)
  moreover from this have "wal_refs w \<subseteq> {..fst (last L)}"
    using refs_build [of "around w" "{..fst (last L)}" L] assms(1) by (simp add: laid_out_def)
  ultimately show "topmost (fst (last L)) w" using s(2) assms(2,3) by (simp add: topmost_def)
  show "shape w \<noteq> []" "fst (last (shape w)) = fst (last L)"
    using assms(2) by (simp_all add: laid_out_shape [OF assms(1)] last_map case_prod_unfold)
qed

lemma laid_out_seg_size:
  assumes "laid_out w (M @ [(s, rs)])"
  shows "seg_size w s = length (recs_bytes rs)" "s \<notin> fst ` set M"
proof -
  show "s \<notin> fst ` set M" using assms by (auto simp: laid_out_def layout_ok_def sorted_wrt_append)
  then have "map_of (map (\<lambda>(s, rs). (s, length (recs_bytes rs))) M) s = None" by (force simp: map_of_eq_None_iff)
  then show "seg_size w s = length (recs_bytes rs)"
    by (simp add: seg_size_shape laid_out_shape [OF assms] map_add_def)
qed

lemma resize_twice: "resize s f (resize s g w) = resize s (\<lambda>n. f (g n)) w"
  by (simp add: resize_def upd_seg_def comp_def)

text \<open>A log whose groups and segments are those of another, apart from its files.\<close>

lemma dress_bytes: "dress (put_bytes s base b w) w = put_bytes s base b w" "dress (put_bytes s base b (add_file t w)) w = put_bytes s base b (add_file t w)"
  by (simp_all add: dress_def put_bytes_def add_file_def)

lemma dress_same: "around v = around v' \<Longrightarrow> dress v w = dress v' w"
  by (cases v; cases v') (simp add: around_def dress_def)

lemma dress_around: "around w = around v \<Longrightarrow> dress v w = w"
  by (cases v; cases w) (simp add: around_def dress_def)

lemma write_at_end: "length d = n \<Longrightarrow> write_at d n b = d @ b"
  by (simp add: write_at_def)

lemma assoc_put_last: "s \<notin> fst ` set al \<Longrightarrow> assoc_put s v (al @ [(s, d)]) = al @ [(s, v)]"
  by (force simp: assoc_put_def intro!: map_idI)

lemma layout_files_snoc: "layout_files (M @ [(s, rs)]) = layout_files M @ [(s, recs_bytes rs)]"
  by (simp add: layout_files_def)

lemma keys_layout: "fst ` set (layout_files M) = fst ` set M"
  by (force simp: layout_files_def)

lemma file_of_last: "wl_files w = layout_files M @ [(s, d)] \<Longrightarrow> s \<notin> fst ` set M \<Longrightarrow> file_of w s = d"
  using keys_layout [of M] map_of_eq_None_iff [of "layout_files M" s] by (simp add: file_of_def map_add_def)

lemma settle_dress:
  assumes "around v = around (put_bytes s base (recs_bytes recs) w)" "v = settle s base recs w"
  shows "v = put_recs s base recs (dress v w)"
  using assms(2) dress_same [OF assms(1), of w] by (simp add: settle_def dress_bytes)

lemma grow_same:
  assumes "laid_out w (M @ [(s, rs)])" "list_all good_rec recs"
  defines "v \<equiv> settle s (length (recs_bytes rs)) recs (resize s (\<lambda>n. n + length (recs_bytes recs)) w)"
  shows "laid_out v (M @ [(s, rs @ recs)])"
proof -
  let ?n = "length (recs_bytes rs)" and ?k = "length (recs_bytes recs)"
  let ?w = "resize s (\<lambda>n. n + ?k) w"
  note ns = laid_out_seg_size(2) [OF assms(1)]
  have f: "wl_files ?w = layout_files M @ [(s, recs_bytes rs)]"
    using assms(1) by (simp add: laid_out_def layout_files_snoc resize_def upd_seg_def)
  have a: "around v = around (put_bytes s ?n (recs_bytes recs) ?w)" by (simp add: v_def settle_def around.view_put_recs)
  have "wl_files v = layout_files (M @ [(s, rs @ recs)])"
    using aroundD(1) [OF a] f ns by (simp add: put_bytes_def file_of_last [OF f ns] write_at_end assoc_put_last keys_layout layout_files_snoc)
  moreover have "layout_ok (M @ [(s, rs @ recs)])" using assms(1,2) by (simp add: laid_out_def layout_ok_def)
  moreover have "v = build (M @ [(s, rs @ recs)]) (around v)"
  proof -
    have "v = put_recs s ?n recs (dress v ?w)" by (rule settle_dress [OF a]) (simp add: v_def)
    also have "dress v ?w = resize s (\<lambda>n. n + ?k) (dress v w)" by (simp add: dress_def resize_def upd_seg_def)
    also have "dress v w = build (M @ [(s, rs)]) (around v)"
      using assms(1) dress_build [of v "M @ [(s, rs)]" "around w"] by (simp add: laid_out_def)
    finally show ?thesis
      by (simp add: build_append build_seg_def sizes.at_put_recs resize_twice put_recs_append)
  qed
  ultimately show ?thesis by (simp add: laid_out_def)
qed

lemma resize_new: "t \<notin> fst ` set (shape w) \<Longrightarrow> resize t (\<lambda>n. n + k) (add_seg t w) = resize t (\<lambda>_. k) (add_seg t w)"
proof -
  assume "t \<notin> fst ` set (shape w)"
  then have "map (\<lambda>x. if sg_seq x = t then x\<lparr>sg_size := f (sg_size x)\<rparr> else x) (wl_segments w) = wl_segments w" for f
    by (force simp: shape_def intro!: map_idI)
  from this [of "\<lambda>n. n + k"] this [of "\<lambda>_. k"] show ?thesis
    by (simp add: resize_def upd_seg_def add_seg_def new_segment_def)
qed

lemma grow_new:
  assumes "laid_out w L" "list_all good_rec recs" "\<forall>s\<in>fst ` set L. s < t"
  defines "v \<equiv> settle t 0 recs (resize t (\<lambda>n. n + length (recs_bytes recs)) (add_seg t (add_file t w)))"
  shows "laid_out v (L @ [(t, recs)])"
proof -
  let ?k = "length (recs_bytes recs)"
  let ?w = "resize t (\<lambda>n. n + ?k) (add_seg t (add_file t w))"
  have ns: "t \<notin> fst ` set L" using assms(3) by blast
  have f: "wl_files ?w = layout_files L @ [(t, [])]"
    using assms(1) by (simp add: laid_out_def resize_def upd_seg_def add_seg_def add_file_def)
  have a: "around v = around (put_bytes t 0 (recs_bytes recs) ?w)" by (simp add: v_def settle_def around.view_put_recs)
  have "wl_files v = layout_files (L @ [(t, recs)])"
    using aroundD(1) [OF a] f ns by (simp add: put_bytes_def file_of_last [OF f ns] write_at_end assoc_put_last keys_layout layout_files_snoc)
  moreover have "layout_ok (L @ [(t, recs)])" using assms(1-3) by (auto simp: laid_out_def layout_ok_def sorted_wrt_append)
  moreover have "v = build (L @ [(t, recs)]) (around v)"
  proof -
    have sh: "t \<notin> fst ` set (shape w)" using ns by (force simp: laid_out_shape [OF assms(1)])
    have "v = put_recs t 0 recs (dress v ?w)" by (rule settle_dress [OF a]) (simp add: v_def)
    also have "dress v ?w = resize t (\<lambda>n. n + ?k) (add_seg t (dress v w))"
      by (simp add: dress_def resize_def upd_seg_def add_seg_def add_file_def)
    also have "\<dots> = resize t (\<lambda>_. ?k) (add_seg t (dress v w))"
      using sh by (intro resize_new) (simp add: dress_def shape_def)
    also have "dress v w = build L (around v)" using assms(1) dress_build [of v L "around w"] by (simp add: laid_out_def)
    finally show ?thesis by (simp add: build_append build_seg_def sizes.at_put_recs)
  qed
  ultimately show ?thesis by (simp add: laid_out_def)
qed

text \<open>The log is in order: what it holds in memory is what its files say.\<close>

definition in_order :: "nat \<Rightarrow> WAL \<Rightarrow> layout \<Rightarrow> bool" where
  "in_order lim w L \<longleftrightarrow> laid_out w L \<and> wl_faults w = [] \<and> wl_syncErr w = None \<and> wl_segmentSize w = lim"

lemma in_order_ready:
  assumes "in_order lim w L"
  shows "\<exists>w1. ready w w1 (if L = [] then 0 else fst (last L)) \<and> (L \<noteq> [] \<longrightarrow> w1 = w) \<and> (L = [] \<longrightarrow> w1 = add_seg 0 (add_file 0 w))"
proof (cases "L = []")
  case True
  then have w: "wl_files w = []" "w = around w" "wl_faults w = []" "wl_syncErr w = None"
    using assms by (simp_all add: in_order_def laid_out_def layout_files_def)
  have g: "shape w = []" "wal_refs w = {}" using w(2) around_fields(1,2) by metis+
  have k: "keys w = {}" using w(1) by (simp add: keys_def)
  have "wal_active w = (add_seg 0 (add_file 0 w), Ok 0)" using g k w(3) by (simp add: wal_active_shape createSegment_calm)
  moreover have "topmost 0 (add_seg 0 (add_file 0 w))" using g k w(3) by (simp add: topmost_def)
  ultimately show ?thesis using True w g by (simp add: ready_def) (simp add: add_seg_def add_file_def)
next
  case False
  then show ?thesis using assms laid_out_top [of w L] by (simp add: ready_def in_order_def wal_active_shape)
qed

lemma in_order_one:
  assumes "in_order lim w L" "implements r recs"
  shows "snd (writeBatch [r] w) = None" "in_order lim (fst (writeBatch [r] w)) (grow lim L recs)"
proof -
  obtain w1 where r: "ready w w1 (if L = [] then 0 else fst (last L))" and w1: "L \<noteq> [] \<longrightarrow> w1 = w" "L = [] \<longrightarrow> w1 = add_seg 0 (add_file 0 w)"
    using in_order_ready [OF assms(1)] by blast
  let ?s = "if L = [] then 0 else fst (last L)"
  define v where "v = settle (spot r ?s w1) (seg_size (make_room r ?s w1) (spot r ?s w1)) recs (place_room r ?s w1)"
  have o1: "writeBatch [r] w = (v, None)" "ready v v (spot r ?s w1)" using one_settles [OF r assms(2)] by (simp_all add: v_def)
  have lo: "laid_out w L" using assms(1) by (simp add: in_order_def)
  have g: "list_all good_rec recs" "length (wr_records r) = length (recs_bytes recs)" using assms(2) by (simp_all add: implements_def)
  have lim: "wl_segmentSize w = lim" using assms(1) by (simp add: in_order_def)
  have "wl_segmentSize w1 = wl_segmentSize w" using w1 by (cases "L = []") simp_all
  then have vl: "wl_segmentSize v = lim" by (simp add: v_def place_room_def make_room_def lim)
  have "laid_out v (grow lim L recs)"
  proof (cases "L = []")
    case True
    then have e: "shape w = []" using lo around_fields(1) by (metis laid_out_shape list.simps(8))
    have "seg_size w1 0 = 0" using w1 True by (simp add: seg_size_shape e)
    then have "v = settle 0 0 recs (resize 0 (\<lambda>n. n + length (recs_bytes recs)) (add_seg 0 (add_file 0 w)))"
      using True w1 g(2) by (simp add: v_def spot_def rotates_def make_room_def place_room_def)
    then show ?thesis using grow_new [OF lo g(1), of 0] True by (simp add: grow_def)
  next
    case False
    then obtain M s rs where L: "L = M @ [(s, rs)]" by (cases L rule: rev_exhaust) auto
    note sz = laid_out_seg_size [OF lo [unfolded L]]
    have w1: "w1 = w" using w1 False by simp
    have gr: "grow lim L recs = (if rotates r s w then L @ [(s + 1, recs)] else M @ [(s, rs @ recs)])"
      using g(2) by (simp add: rotates_def sz grow_def L lim)
    show ?thesis
    proof (cases "rotates r s w")
      case True
      have lt: "\<forall>x\<in>fst ` set L. x < s + 1" using lo by (auto simp: L laid_out_def layout_ok_def sorted_wrt_append less_Suc_eq)
      then have "s + 1 \<notin> fst ` set (shape w)" by (force simp: laid_out_shape [OF lo])
      then have "map_of (shape w) (s + 1) = None" by (simp only: map_of_eq_None_iff not_False_eq_True)
      then have "seg_size (add_seg (s + 1) (add_file (s + 1) w)) (s + 1) = 0"
        by (simp add: seg_size_shape map_add_def)
      then show ?thesis using grow_new [OF lo g(1) lt] True g(2)
        by (simp add: v_def w1 gr spot_def make_room_def place_room_def) (simp add: L)
    next
      case False
      then show ?thesis using grow_same [OF lo [unfolded L] g(1)] g(2) sz(1)
        by (simp add: v_def w1 gr spot_def make_room_def place_room_def) (simp add: L)
    qed
  qed
  then show "snd (writeBatch [r] w) = None" "in_order lim (fst (writeBatch [r] w)) (grow lim L recs)"
    using o1 vl by (simp_all add: in_order_def ready_def)
qed

lemma in_order_batch:
  assumes "in_order lim w L" "list_all2 implements batch recss" "batch \<noteq> []"
  shows "snd (writeBatch batch w) = None" "in_order lim (fst (writeBatch batch w)) (foldl (grow lim) L recss)"
proof -
  have "snd (writeBatch batch w) = None \<and> in_order lim (fst (writeBatch batch w)) (foldl (grow lim) L recss)"
    using assms
  proof (induction batch arbitrary: w L recss)
    case (Cons r rs)
    from Cons.prems(2) obtain recs rest where c: "recss = recs # rest" "implements r recs" "list_all2 implements rs rest"
      by (auto simp: list_all2_Cons1)
    note o1 = in_order_one [OF Cons.prems(1) c(2)]
    obtain w1 where "ready w w1 (if L = [] then 0 else fst (last L))" using in_order_ready [OF Cons.prems(1)] by blast
    note b = batch_Cons [OF this c(2), of rs]
    show ?case
    proof (cases "rs = []")
      case True
      then show ?thesis using o1 c by simp
    next
      case False
      then show ?thesis using Cons.IH [OF o1(2) c(3) False] b c(1) by simp
    qed
  qed simp
  then show "snd (writeBatch batch w) = None" "in_order lim (fst (writeBatch batch w)) (foldl (grow lim) L recss)" by simp_all
qed

text \<open>Batches written one after the other are one batch.\<close>

lemma batch_append:
  assumes "in_order lim w L" "list_all2 implements as recss" "as \<noteq> []" "list_all2 implements bs recss'" "bs \<noteq> []"
  shows "writeBatch (as @ bs) w = writeBatch bs (fst (writeBatch as w))"
  using assms(1-3)
proof (induction as arbitrary: w L recss)
  case (Cons r rs)
  from Cons.prems(2) obtain recs rest where c: "recss = recs # rest" "implements r recs" "list_all2 implements rs rest"
    by (auto simp: list_all2_Cons1)
  obtain w1 where r: "ready w w1 (if L = [] then 0 else fst (last L))" using in_order_ready [OF Cons.prems(1)] by blast
  show ?case
  proof (cases "rs = []")
    case True
    then show ?thesis using batch_Cons [OF r c(2), of bs] by simp
  next
    case False
    then show ?thesis
      using Cons.IH [OF in_order_one(2) [OF Cons.prems(1) c(2)] c(3) False] batch_Cons [OF r c(2), of "rs @ bs"] batch_Cons [OF r c(2), of rs]
      by simp
  qed
qed simp

section \<open>Faults that did not happen\<close>

text \<open>A batch that succeeds leaves what it would have left with no fault to come.\<close>

lemma calm_simps [simp]: "wl_faults (calm w) = []" "wl_syncErr (calm w) = wl_syncErr w" "keys (calm w) = keys w" "shape (calm w) = shape w"
  "seg_size (calm w) s = seg_size w s" "wl_segmentSize (calm w) = wl_segmentSize w" "calm (calm w) = calm w"
  by (simp_all add: calm_def keys_def shape_def seg_size_def)

lemma calm_io: "io_call w = (None, w') \<Longrightarrow> calm w' = calm w \<and> io_call (calm w) = (None, calm w)"
  by (auto simp: io_call_def calm_def split: list.splits)

lemma calm_sync: "syncFile w = (w', None) \<Longrightarrow> calm w' = calm w \<and> syncFile (calm w) = (calm w, None)"
  by (auto simp: syncFile_def dest: calm_io split: prod.splits option.splits)

lemma calm_create: "createSegment w t = (w', Ok s) \<Longrightarrow> createSegment (calm w) t = (calm w', Ok s)"
proof -
  assume c: "createSegment w t = (w', Ok s)"
  obtain f w1 where f: "io_call w = (f, w1)" by (metis surj_pair)
  obtain e w2 where e: "syncFile (w1\<lparr>wl_files := wl_files w1 @ [(t, [])]\<rparr>) = (w2, e)" by (metis surj_pair)
  have "f = None" "t \<notin> fst ` set (wl_files w1)" "e = None" "w' = w2\<lparr>wl_segments := wl_segments w2 @ [new_segment t]\<rparr>" "s = t"
    using c f e by (cases f; cases e; simp add: createSegment_def split: if_splits)+
  then have io: "io_call w = (None, w1)" "t \<notin> fst ` set (wl_files w1)" "syncFile (w1\<lparr>wl_files := wl_files w1 @ [(t, [])]\<rparr>) = (w2, None)"
    "w' = w2\<lparr>wl_segments := wl_segments w2 @ [new_segment t]\<rparr>" "s = t"
    using f e by simp_all
  note a = calm_io [OF io(1)] and b = calm_sync [OF io(3)]
  have k: "keys (calm w) = fst ` set (wl_files w1)" using a by (metis calm_simps(3) keys_def)
  have "calm w' = add_seg t (calm w2)" by (simp add: io(4) calm_def add_seg_def)
  also have "calm w2 = add_file t (calm w1)" using b by (simp add: add_file_def calm_def)
  also have "calm w1 = calm w" using a by simp
  finally show ?thesis using io(2,5) k by (simp add: createSegment_calm)
qed

lemma calm_upd: "upd_seg s f (calm w) = calm (upd_seg s f w)" "put_bytes s base b (calm w) = calm (put_bytes s base b w)"
  by (simp_all add: calm_def upd_seg_def put_bytes_def file_of_def)

lemma rotates_calm [simp]: "rotates r s (calm w) = rotates r s w"
  by (simp add: rotates_def)

text \<open>The segment for a request, or the error that kept it from being made.\<close>

definition seg_for :: "writeRequest \<Rightarrow> nat \<Rightarrow> WAL \<Rightarrow> WAL \<times> nat result" where
  "seg_for r s w = (if rotates r s w then case syncFile w of (w, Some e) \<Rightarrow> (w, Fail e) | (w, None) \<Rightarrow> createSegment w (s + 1) else (w, Ok s))"

lemma calm_seg_for: "seg_for r s w = (w', Ok t) \<Longrightarrow> seg_for r s (calm w) = (calm w', Ok t)"
proof (cases "rotates r s w")
  case True
  assume a: "seg_for r s w = (w', Ok t)"
  obtain w1 e where s: "syncFile w = (w1, e)" by (metis surj_pair)
  then have e: "e = None" "createSegment w1 (s + 1) = (w', Ok t)" using a True by (cases e; simp add: seg_for_def)+
  have c: "calm w1 = calm w" "syncFile (calm w) = (calm w, None)" using calm_sync s e(1) by simp_all
  show ?thesis using calm_create [OF e(2)] c True by (simp add: seg_for_def)
qed (simp add: seg_for_def)

lemma place_all_seg_for:
  "place_all (r # rs) s w = (case seg_for r s w of
     (w, Ok s) \<Rightarrow> (case place_one r s w of (w, p) \<Rightarrow> case place_all rs s w of (w, ps, err) \<Rightarrow> (w, p # ps, err))
   | (w, Fail e) \<Rightarrow> (w, [], Some e) | (w, Panic) \<Rightarrow> (w, [], Some io_error))"
  unfolding seg_for_def rotates_def by (simp only: place_all.simps)

lemma calm_place_all: "place_all rs s w = (w', ps, None) \<Longrightarrow> place_all rs s (calm w) = (calm w', ps, None)"
proof (induction rs arbitrary: s w ps)
  case (Cons r rs)
  obtain w1 o1 where s: "seg_for r s w = (w1, o1)" by (metis surj_pair)
  then obtain t where t: "o1 = Ok t" using Cons.prems by (cases o1) (simp_all add: place_all_seg_for del: place_all.simps)
  let ?w2 = "fst (place_one r t w1)"
  obtain w3 qs where q: "place_all rs t ?w2 = (w3, qs, None)" "w' = w3" "ps = snd (place_one r t w1) # qs"
    using Cons.prems s t by (auto simp: place_all_seg_for simp del: place_all.simps split: prod.splits)
  have "place_one r t (calm w1) = (calm ?w2, snd (place_one r t w1))" by (simp add: place_one_def calm_upd)
  then show ?case
    using Cons.IH [OF q(1) [folded q(2)]] calm_seg_for [OF s [unfolded t]] q(2,3) by (simp add: place_all_seg_for del: place_all.simps)
qed simp

lemma calm_write_all: "write_all ps prev w = (w', None) \<Longrightarrow> write_placed ps (calm w) = calm w'"
proof (induction ps arbitrary: prev w)
  case Nil
  then show ?case using calm_sync [of w w'] by (auto simp: write_placed_def split: if_splits)
next
  case (Cons p ps)
  obtain r s base where p: "p = (r, s, base)" by (cases p)
  obtain f w0 where io: "io_call w = (f, w0)" by (metis surj_pair)
  have f: "f = None" using Cons.prems io by (cases f) (simp_all add: p writeFile_def)
  let ?w1 = "put_bytes s base (wr_records r) w0"
  have wf: "writeFile w s base (wr_records r) = (?w1, None)" using io f by (simp add: writeFile_def put_bytes_def)
  have "\<exists>w2. calm w2 = calm ?w1 \<and> write_all ps (Some s) w2 = (w', None)"
  proof (cases "prev \<noteq> None \<and> prev \<noteq> Some s")
    case True
    obtain e w2 where e: "syncFile ?w1 = (w2, e)" by (metis surj_pair)
    then have "e = None" using Cons.prems wf True by (cases e) (simp_all add: p)
    then show ?thesis using Cons.prems wf True e calm_sync [of ?w1 w2] by (intro exI [of _ w2]) (simp add: p)
  next
    case False
    then have "(if prev \<noteq> None \<and> prev \<noteq> Some s then syncFile ?w1 else (?w1, None)) = (?w1, None)" by (rule if_not_P)
    then show ?thesis using Cons.prems wf by (intro exI [of _ ?w1]) (simp add: p)
  qed
  then obtain w2 where w2: "calm w2 = calm ?w1" "write_all ps (Some s) w2 = (w', None)" by blast
  have "calm ?w1 = put_bytes s base (wr_records r) (calm w)" using calm_io [of w w0] io f by (simp add: calm_upd [symmetric])
  then show ?case using Cons.IH [OF w2(2)] w2(1) by (simp add: p write_placed_Cons)
qed

lemma calm_active: "wal_active w = (w1, Ok s) \<Longrightarrow> wal_active (calm w) = (calm w1, Ok s)"
  using calm_create [of w 0 w1 s] by (auto simp: wal_active_shape split: if_splits)

lemma placed_requests: "place_all rs s w = (w', ps, err) \<Longrightarrow> fst ` set ps \<subseteq> set rs"
proof (induction rs arbitrary: s w ps)
  case (Cons r rs)
  obtain w1 o1 where s: "seg_for r s w = (w1, o1)" by (metis surj_pair)
  show ?case
  proof (cases o1)
    case (Ok t)
    obtain w2 p where p: "place_one r t w1 = (w2, p)" by (metis surj_pair)
    then have "fst p = r" by (auto simp: place_one_def)
    moreover obtain w3 qs e where q: "place_all rs t w2 = (w3, qs, e)" by (metis surj_pair)
    moreover have e: "ps = p # qs" "w3 = w'" "e = err"
      using Cons.prems s Ok p q by (simp_all add: place_all_seg_for del: place_all.simps)
    moreover have "fst ` set qs \<subseteq> set rs" using Cons.IH [of t w2 qs] q e by simp
    ultimately show ?thesis by auto
  qed (use Cons.prems s in \<open>auto simp: place_all_seg_for simp del: place_all.simps\<close>)
qed simp

lemma calm_apply_all:
  "(\<And>r. r \<in> fst ` set ps \<Longrightarrow> \<exists>recs. implements r recs) \<Longrightarrow> apply_all ps (calm w) = calm (apply_all ps w)"
proof (induction ps arbitrary: w)
  case (Cons p ps)
  obtain r s base where p: "p = (r, s, base)" by (cases p)
  have "\<exists>recs. implements r recs" using Cons.prems [of r] p by simp
  then obtain recs where "implements r recs" by blast
  then have "wr_apply r s base (calm w) = calm (wr_apply r s base w)" by (simp add: implements_def calm.at_put_recs)
  then show ?case using Cons by (simp add: p apply_all_Cons)
qed (simp add: apply_all_def)

lemma calm_batch:
  assumes "writeBatch batch w = (w', None)" "\<And>r. r \<in> set batch \<Longrightarrow> \<exists>recs. implements r recs"
  shows "writeBatch batch (calm w) = (calm w', None)"
proof -
  have se: "wl_syncErr w = None" using assms(1) by (cases "wl_syncErr w") (simp_all add: writeBatch_def)
  obtain w1 o1 where a: "wal_active w = (w1, o1)" by (metis surj_pair)
  obtain s where s: "o1 = Ok s" using assms(1) se a by (cases o1) (simp_all add: writeBatch_def)
  obtain w2 ps e where p: "place_all batch s w1 = (w2, ps, e)" by (metis surj_pair)
  have e: "e = None" using assms(1) se a s p by (cases e) (simp_all add: writeBatch_def)
  obtain w3 f where wr: "write_all ps None w2 = (w3, f)" by (metis surj_pair)
  have f: "f = None" "w' = apply_all ps w3" using assms(1) se a s p e wr by (cases f; simp add: writeBatch_def)+
  have im: "\<exists>recs. implements r recs" if "r \<in> fst ` set ps" for r using placed_requests [OF p] assms(2) that by blast
  have "writeBatch batch (calm w) = (apply_all ps (calm w3), None)"
    using calm_active [OF a [unfolded s]] calm_place_all [OF p [unfolded e]] calm_write_all [OF wr [unfolded f]] se
    by (simp add: writeBatch_def write_all_calm)
  then show ?thesis using f(2) calm_apply_all [OF im, of ps w3] by simp
qed

end
