(* ===== verification/Wal_Crash.thy ===== *)
theory Wal_Crash
  imports Wal_Commit
begin

text \<open>
  What a batch leaves on disk when a file operation fails or the process dies in it, at whatever
  operation, and what opening such a directory gives: the requests written before the fault, some
  of the records of the one that was cut short, and empty segments for those that were placed and
  never written.
\<close>

section \<open>Where the requests go\<close>

text \<open>The segments a batch creates before it writes to them.\<close>

definition blank_files :: "nat \<Rightarrow> nat \<Rightarrow> (nat \<times> bytes) list" where
  "blank_files s u = map (\<lambda>t. (t, [])) [s ..< u]"

text \<open>The places of the requests of a batch when the active segment \<open>s\<close> has \<open>n\<close> bytes.\<close>

fun plan :: "nat \<Rightarrow> nat \<Rightarrow> nat \<Rightarrow> writeRequest list \<Rightarrow> placement list" where
  "plan lim s n [] = []"
| "plan lim s n (r # rs) =
    (if 0 < n \<and> lim < n + length (wr_records r)
     then (r, s + 1, 0) # plan lim (s + 1) (length (wr_records r)) rs
     else (r, s, n) # plan lim s (n + length (wr_records r)) rs)"

lemma blank_files_simps [simp]: "u \<le> s \<Longrightarrow> blank_files s u = []" "fst ` set (blank_files s u) = {s ..< u}"
  "length (blank_files s u) = u - s" "blank_files s u = [] \<longleftrightarrow> u \<le> s"
  by (auto simp: blank_files_def image_image)

lemma blank_files_Cons: "s < u \<Longrightarrow> blank_files s u = (s, []) # blank_files (Suc s) u"
  by (simp add: blank_files_def upt_conv_Cons)

lemma sync_keeps:
  assumes "syncFile w = (w', e)"
  shows "wl_files w' = wl_files w" "shape w' = shape w" "wl_segmentSize w' = wl_segmentSize w"
  using assms by (auto simp: syncFile_def io_call_def shape_def split: list.splits option.splits prod.splits)

lemma create_files:
  assumes "createSegment w t = (w', o1)" "t \<notin> keys w"
  shows "o1 = Ok s \<Longrightarrow> s = t \<and> wl_files w' = wl_files w @ [(t, [])] \<and> shape w' = shape w @ [(t, 0)] \<and> wl_segmentSize w' = wl_segmentSize w"
    "\<exists>u\<in>{t, Suc t}. wl_files w' = wl_files w @ blank_files t u"
proof -
  obtain f w1 where f: "io_call w = (f, w1)" by (metis surj_pair)
  have w1: "wl_files w1 = wl_files w" "wl_segments w1 = wl_segments w" "wl_segmentSize w1 = wl_segmentSize w"
    using f by (auto simp: io_call_def split: list.splits)
  let ?w = "w1\<lparr>wl_files := wl_files w1 @ [(t, [])]\<rparr>"
  obtain w2 e where e: "syncFile ?w = (w2, e)" by (metis surj_pair)
  note k = sync_keeps [OF e]
  have nk: "t \<notin> fst ` set (wl_files w1)" using assms(2) w1(1) by (simp add: keys_def)
  have b: "blank_files t (Suc t) = [(t, [])]" by (simp add: blank_files_def)
  consider (no) x where "f = Some x" "w' = w1" "o1 = Fail io_error"
    | (bad) x where "f = None" "e = Some x" "w' = w2" "o1 = Fail x"
    | (ok) "f = None" "e = None" "w' = w2\<lparr>wl_segments := wl_segments w2 @ [new_segment t]\<rparr>" "o1 = Ok t"
    using assms(1) f e nk by (cases f; cases e) (simp_all add: createSegment_def)
  then have "(o1 = Ok s \<longrightarrow> s = t \<and> wl_files w' = wl_files w @ [(t, [])] \<and> shape w' = shape w @ [(t, 0)] \<and> wl_segmentSize w' = wl_segmentSize w)
    \<and> (\<exists>u\<in>{t, Suc t}. wl_files w' = wl_files w @ blank_files t u)"
    by cases (use k w1 b in \<open>simp_all add: shape_def new_segment_def\<close>)
  then show "o1 = Ok s \<Longrightarrow> s = t \<and> wl_files w' = wl_files w @ [(t, [])] \<and> shape w' = shape w @ [(t, 0)] \<and> wl_segmentSize w' = wl_segmentSize w"
    "\<exists>u\<in>{t, Suc t}. wl_files w' = wl_files w @ blank_files t u" by blast+
qed

text \<open>The segment of one request.\<close>

lemma seg_for_files:
  assumes "seg_for r s w = (w', o1)" "keys w \<subseteq> {..s}"
  shows "o1 = Ok t \<Longrightarrow> if rotates r s w
      then t = Suc s \<and> wl_files w' = wl_files w @ [(Suc s, [])] \<and> shape w' = shape w @ [(Suc s, 0)] \<and> wl_segmentSize w' = wl_segmentSize w
      else t = s \<and> w' = w"
    "\<exists>u\<in>{Suc s, Suc (Suc s)}. wl_files w' = wl_files w @ blank_files (Suc s) u"
proof -
  have "(o1 = Ok t \<longrightarrow> (if rotates r s w
      then t = Suc s \<and> wl_files w' = wl_files w @ [(Suc s, [])] \<and> shape w' = shape w @ [(Suc s, 0)] \<and> wl_segmentSize w' = wl_segmentSize w
      else t = s \<and> w' = w)) \<and> (\<exists>u\<in>{Suc s, Suc (Suc s)}. wl_files w' = wl_files w @ blank_files (Suc s) u)"
  proof (cases "rotates r s w")
    case True
    obtain w1 e where e: "syncFile w = (w1, e)" by (metis surj_pair)
    note k = sync_keeps [OF e]
    show ?thesis
    proof (cases e)
      case None
      then have c: "createSegment w1 (Suc s) = (w', o1)" using assms(1) True e by (simp add: seg_for_def)
      have "Suc s \<notin> keys w1" using assms(2) k(1) by (auto simp: keys_def)
      from create_files [OF c this] show ?thesis using True k by auto
    next
      case (Some x)
      then show ?thesis using assms(1) True e k by (auto simp: seg_for_def)
    qed
  next
    case False
    then show ?thesis using assms(1) by (auto simp: seg_for_def)
  qed
  then show "o1 = Ok t \<Longrightarrow> if rotates r s w
      then t = Suc s \<and> wl_files w' = wl_files w @ [(Suc s, [])] \<and> shape w' = shape w @ [(Suc s, 0)] \<and> wl_segmentSize w' = wl_segmentSize w
      else t = s \<and> w' = w"
    "\<exists>u\<in>{Suc s, Suc (Suc s)}. wl_files w' = wl_files w @ blank_files (Suc s) u" by blast+
qed

lemma shape_place: "shape (fst (place_one r s w)) = map (\<lambda>(t, n). (t, if t = s then n + length (wr_records r) else n)) (shape w)"
  by (auto simp: place_one_def shape_def upd_seg_def)

lemma place_keeps: "wl_files (fst (place_one r s w)) = wl_files w" "wl_segmentSize (fst (place_one r s w)) = wl_segmentSize w"
  "snd (place_one r s w) = (r, s, seg_size w s)"
  by (simp_all add: place_one_def upd_seg_def)

lemma map_of_adjust: "map_of (map (\<lambda>(t, n). (t, if t = s then n + k else n)) al) s = map_option (\<lambda>n. n + k) (map_of al s)"
  by (induction al) auto

lemma place_files:
  assumes "place_all rs s w = (w', ps, err)" "map_of (shape w) s = Some n" "fst ` set (shape w) \<subseteq> {..s}" "keys w \<subseteq> {..s}"
    and "wl_segmentSize w = lim"
  shows "\<exists>u>s. wl_files w' = wl_files w @ blank_files (Suc s) u
    \<and> (err = None \<longrightarrow> ps = plan lim s n rs \<and> (\<forall>p\<in>set ps. fst (snd p) < u))"
  using assms
proof (induction rs arbitrary: s n w ps)
  case Nil
  then show ?case by (intro exI [of _ "Suc s"]) auto
next
  case (Cons r rs)
  obtain w1 o1 where f: "seg_for r s w = (w1, o1)" by (metis surj_pair)
  note sf = seg_for_files [OF f Cons.prems(4)]
  show ?case
  proof (cases o1)
    case (Ok t)
    let ?w2 = "fst (place_one r t w1)"
    obtain qs where q: "place_all rs t ?w2 = (w', qs, err)" "ps = (r, t, seg_size w1 t) # qs"
      using Cons.prems(1) f Ok place_keeps(3) [of r t w1] by (auto simp: place_all_seg_for simp del: place_all.simps split: prod.splits)
    have rot: "rotates r s w \<longleftrightarrow> 0 < n \<and> lim < n + length (wr_records r)"
      using Cons.prems(2,5) by (simp add: rotates_def seg_size_shape)
    show ?thesis
    proof (cases "rotates r s w")
      case True
      have w1: "t = Suc s" "wl_files w1 = wl_files w @ [(Suc s, [])]" "shape w1 = shape w @ [(Suc s, 0)]" "wl_segmentSize w1 = lim"
        using sf(1) [OF Ok] True Cons.prems(5) by simp_all
      have nn: "map_of (shape w) (Suc s) = None" using Cons.prems(3) by (fastforce simp: map_of_eq_None_iff)
      then have m: "map_of (shape w1) (Suc s) = Some 0" by (simp add: w1(3) map_add_def)
      have "\<exists>u>t. wl_files w' = wl_files ?w2 @ blank_files (Suc t) u
          \<and> (err = None \<longrightarrow> qs = plan lim t (length (wr_records r)) rs \<and> (\<forall>p\<in>set qs. fst (snd p) < u))"
      proof (rule Cons.IH [OF q(1)])
        show "map_of (shape ?w2) t = Some (length (wr_records r))" using m w1(1) by (simp add: shape_place map_of_adjust)
        show "fst ` set (shape ?w2) \<subseteq> {..t}" using Cons.prems(3) w1(1,3) by (force simp: shape_place)
        show "keys ?w2 \<subseteq> {..t}" using Cons.prems(4) w1(1,2) by (force simp: keys_def place_keeps)
      qed (simp add: place_keeps w1)
      then obtain u where u: "t < u" "wl_files w' = wl_files ?w2 @ blank_files (Suc t) u"
        "err = None \<longrightarrow> qs = plan lim t (length (wr_records r)) rs \<and> (\<forall>p\<in>set qs. fst (snd p) < u)" by blast
      have "seg_size w1 t = 0" using m w1(1) by (simp add: seg_size_shape)
      then show ?thesis using u True rot w1 q(2) by (intro exI [of _ u]) (auto simp: place_keeps blank_files_Cons)
    next
      case False
      have w1: "t = s" "w1 = w" using sf(1) [OF Ok] False by simp_all
      have "\<exists>u>t. wl_files w' = wl_files ?w2 @ blank_files (Suc t) u
          \<and> (err = None \<longrightarrow> qs = plan lim t (n + length (wr_records r)) rs \<and> (\<forall>p\<in>set qs. fst (snd p) < u))"
      proof (rule Cons.IH [OF q(1)])
        show "map_of (shape ?w2) t = Some (n + length (wr_records r))" using Cons.prems(2) w1 by (simp add: shape_place map_of_adjust)
        show "fst ` set (shape ?w2) \<subseteq> {..t}" using Cons.prems(3) w1 by (force simp: shape_place)
        show "keys ?w2 \<subseteq> {..t}" using Cons.prems(4) w1 by (simp add: keys_def place_keeps)
      qed (simp add: place_keeps w1 Cons.prems(5))
      then obtain u where u: "t < u" "wl_files w' = wl_files ?w2 @ blank_files (Suc t) u"
        "err = None \<longrightarrow> qs = plan lim t (n + length (wr_records r)) rs \<and> (\<forall>p\<in>set qs. fst (snd p) < u)" by blast
      have "seg_size w1 t = n" using Cons.prems(2) w1 by (simp add: seg_size_shape)
      then show ?thesis using u False rot w1 q(2) by (intro exI [of _ u]) (auto simp: place_keeps)
    qed
  next
    case (Fail x)
    then have "w' = w1" "err = Some x" using Cons.prems(1) f by (simp_all add: place_all_seg_for del: place_all.simps)
    moreover obtain u where "u \<in> {Suc s, Suc (Suc s)}" "wl_files w1 = wl_files w @ blank_files (Suc s) u" using sf(2) by blast
    ultimately show ?thesis by (intro exI [of _ u]) auto
  next
    case Panic
    then have "w' = w1" "err = Some io_error" using Cons.prems(1) f by (simp_all add: place_all_seg_for del: place_all.simps)
    moreover obtain u where "u \<in> {Suc s, Suc (Suc s)}" "wl_files w1 = wl_files w @ blank_files (Suc s) u" using sf(2) by blast
    ultimately show ?thesis by (intro exI [of _ u]) auto
  qed
qed

section \<open>What is on disk\<close>

text \<open>The files after a batch with the records \<open>recss\<close> has come to a halt: \<open>n\<close> requests are written,
  the next one is perhaps in part, in the segment where it belongs, and the segments beyond are
  empty.\<close>

definition leaves :: "nat \<Rightarrow> layout \<Rightarrow> walRec list list \<Rightarrow> (nat \<times> bytes) list \<Rightarrow> bool" where
  "leaves lim L recss files \<longleftrightarrow> (\<exists>n M s x part u. n \<le> length recss
    \<and> files = layout_files M @ (s, recs_bytes x @ part) # blank_files (Suc s) u
    \<and> (part = [] \<and> foldl (grow lim) L (take n recss) = M @ [(s, x)]
       \<or> n < length recss \<and> (\<exists>k. part = take k (recs_bytes (recss ! n)))
         \<and> grow lim (foldl (grow lim) L (take n recss)) (recss ! n) = M @ [(s, x @ recss ! n)]
         \<and> (foldl (grow lim) L (take n recss) = M @ [(s, x)] \<or> foldl (grow lim) L (take n recss) = M \<and> x = [])))"

lemma leaves_stop: "leaves lim (M @ [(s, x)]) recss (layout_files (M @ [(s, x)]) @ blank_files (Suc s) u)"
  unfolding leaves_def
  by (intro exI [of _ 0] exI [of _ M] exI [of _ s] exI [of _ x] exI [of _ "[]"] exI [of _ u]) (simp add: layout_files_snoc)

lemma leaves_part:
  assumes "grow lim L recs = M @ [(s, x @ recs)]" "L = M @ [(s, x)] \<or> L = M \<and> x = []"
  shows "leaves lim L (recs # recss) (layout_files M @ (s, recs_bytes x @ take k (recs_bytes recs)) # blank_files (Suc s) u)"
  unfolding leaves_def
  by (intro exI [of _ 0] exI [of _ M] exI [of _ s] exI [of _ x] exI [of _ "take k (recs_bytes recs)"] exI [of _ u]) (use assms in auto)

lemma leaves_more:
  assumes "leaves lim (grow lim L recs) recss files"
  shows "leaves lim L (recs # recss) files"
proof -
  obtain n M s x part u where "n \<le> length recss" "files = layout_files M @ (s, recs_bytes x @ part) # blank_files (Suc s) u"
    "part = [] \<and> foldl (grow lim) (grow lim L recs) (take n recss) = M @ [(s, x)]
       \<or> n < length recss \<and> (\<exists>k. part = take k (recs_bytes (recss ! n)))
         \<and> grow lim (foldl (grow lim) (grow lim L recs) (take n recss)) (recss ! n) = M @ [(s, x @ recss ! n)]
         \<and> (foldl (grow lim) (grow lim L recs) (take n recss) = M @ [(s, x)] \<or> foldl (grow lim) (grow lim L recs) (take n recss) = M \<and> x = [])"
    using assms unfolding leaves_def by blast
  then show ?thesis unfolding leaves_def
    by (intro exI [of _ "Suc n"] exI [of _ M] exI [of _ s] exI [of _ x] exI [of _ part] exI [of _ u]) simp
qed

lemma write_middle:
  assumes "writeFile w s n b = (w', e)" "wl_files w = al @ (s, d) # bl" "s \<notin> fst ` set al" "s \<notin> fst ` set bl" "length d = n"
  shows "\<exists>k. wl_files w' = al @ (s, d @ take k b) # bl \<and> (e = None \<longrightarrow> take k b = b)"
proof -
  have put: "assoc_put s v (al @ (s, d) # bl) = al @ (s, v) # bl" for v
    using assms(3,4) by (force simp: assoc_put_def intro!: map_idI)
  have "map_of al s = None" using assms(3) by (simp add: map_of_eq_None_iff)
  then have d: "map_of (wl_files w) s = Some d" by (simp add: assms(2) map_add_def)
  obtain f w1 where f: "io_call w = (f, w1)" by (metis surj_pair)
  then have w1: "wl_files w1 = wl_files w" by (auto simp: io_call_def split: list.splits)
  show ?thesis
  proof (cases f)
    case None
    then show ?thesis using assms(1,2,5) f w1 put d by (intro exI [of _ "length b"]) (auto simp: writeFile_def file_of_def write_at_end)
  next
    case (Some k)
    then show ?thesis using assms(1,2,5) f w1 put d by (intro exI [of _ k]) (auto simp: writeFile_def file_of_def write_at_end)
  qed
qed

lemma grow_cases:
  "grow lim (M @ [(s, x)]) recs = (if 0 < length (recs_bytes x) \<and> lim < length (recs_bytes x) + length (recs_bytes recs)
    then (M @ [(s, x)]) @ [(Suc s, recs)] else M @ [(s, x @ recs)])"
  by (simp add: grow_def)

text \<open>One request of the plan is written to a segment that ends where it begins.\<close>

lemma write_next:
  assumes "write_all ((r, s, length (recs_bytes x)) # ps) prev w = (w', e)" "wr_records r = recs_bytes recs"
    and "wl_files w = layout_files M @ (s, recs_bytes x) # blank_files (Suc s) u" "\<forall>t\<in>fst ` set M. t < s"
    and "grow lim L recs = M @ [(s, x @ recs)]" "L = M @ [(s, x)] \<or> L = M \<and> x = []"
    and "\<And>v. write_all ps (Some s) v = (w', e) \<Longrightarrow> wl_files v = layout_files (M @ [(s, x @ recs)]) @ blank_files (Suc s) u
      \<Longrightarrow> leaves lim (M @ [(s, x @ recs)]) recss (wl_files w')"
  shows "leaves lim L (recs # recss) (wl_files w')"
proof -
  obtain w1 e1 where 1: "writeFile w s (length (recs_bytes x)) (recs_bytes recs) = (w1, e1)" by (metis surj_pair)
  have "s \<notin> fst ` set (layout_files M)" "s \<notin> fst ` set (blank_files (Suc s) u)" using assms(4) keys_layout [of M] by auto
  from write_middle [OF 1 assms(3) this refl] obtain k where k:
    "wl_files w1 = layout_files M @ (s, recs_bytes x @ take k (recs_bytes recs)) # blank_files (Suc s) u"
    "e1 = None \<longrightarrow> take k (recs_bytes recs) = recs_bytes recs" by blast
  show ?thesis
  proof (cases e1)
    case (Some x1)
    then have "w' = w1" using assms(1,2) 1 by simp
    then show ?thesis using leaves_part [OF assms(5,6), of recss k u] k(1) by simp
  next
    case None
    obtain w2 e2 where 2: "(if prev \<noteq> None \<and> prev \<noteq> Some s then syncFile w1 else (w1, None)) = (w2, e2)" by (metis surj_pair)
    then have "wl_files w2 = wl_files w1" using sync_keeps(1) [of w1 w2 e2] by (auto split: if_splits)
    then have f: "wl_files w2 = layout_files (M @ [(s, x @ recs)]) @ blank_files (Suc s) u" using k None by (simp add: layout_files_snoc)
    have "leaves lim (M @ [(s, x @ recs)]) recss (wl_files w')"
    proof (cases e2)
      case None
      then have "write_all ps (Some s) w2 = (w', e)" using assms(1,2) 1 2 \<open>e1 = None\<close> by simp
      then show ?thesis using f by (rule assms(7))
    next
      case (Some x2)
      then have "w' = w2" using assms(1,2) 1 2 None by simp
      then show ?thesis using leaves_stop f by metis
    qed
    then show ?thesis using leaves_more [of lim L recs recss] assms(5) by simp
  qed
qed

lemma write_files:
  assumes "write_all (plan lim s (length (recs_bytes x)) rs) prev w = (w', e)" "list_all2 implements rs recss"
    and "wl_files w = layout_files (M @ [(s, x)]) @ blank_files (Suc s) u" "\<forall>t\<in>fst ` set M. t < s"
    and "\<forall>p\<in>set (plan lim s (length (recs_bytes x)) rs). fst (snd p) < u"
  shows "leaves lim (M @ [(s, x)]) recss (wl_files w')"
  using assms
proof (induction rs arbitrary: M s x prev w recss)
  case Nil
  then have "wl_files w' = wl_files w" using sync_keeps(1) [of w w' e] by (auto split: if_splits)
  then show ?case using leaves_stop Nil by metis
next
  case (Cons r rs)
  from Cons.prems(2) obtain recs rest where c: "recss = recs # rest" "implements r recs" "list_all2 implements rs rest"
    by (auto simp: list_all2_Cons1)
  have b: "wr_records r = recs_bytes recs" using c(2) by (simp add: implements_def)
  show ?case
  proof (cases "0 < length (recs_bytes x) \<and> lim < length (recs_bytes x) + length (recs_bytes recs)")
    case True
    let ?L = "M @ [(s, x)]" and ?ps = "plan lim (Suc s) (length (recs_bytes recs)) rs"
    have pl: "plan lim s (length (recs_bytes x)) (r # rs) = (r, Suc s, length (recs_bytes [])) # ?ps" using True b by simp
    have u: "Suc s < u" "\<forall>p\<in>set ?ps. fst (snd p) < u" using Cons.prems(5) unfolding pl by simp_all
    have lt: "\<forall>t\<in>fst ` set ?L. t < Suc s" using Cons.prems(4) by auto
    show ?thesis unfolding c(1)
    proof (rule write_next [OF Cons.prems(1) [unfolded pl] b _ lt])
      show "wl_files w = layout_files ?L @ (Suc s, recs_bytes []) # blank_files (Suc (Suc s)) u"
        using Cons.prems(3) u(1) by (simp add: blank_files_Cons)
      show "grow lim ?L recs = ?L @ [(Suc s, [] @ recs)]" using True by (simp add: grow_cases)
      show "leaves lim (?L @ [(Suc s, [] @ recs)]) rest (wl_files w')"
        if "write_all ?ps (Some (Suc s)) v = (w', e)" "wl_files v = layout_files (?L @ [(Suc s, [] @ recs)]) @ blank_files (Suc (Suc s)) u" for v
        using Cons.IH [OF _ c(3) _ lt, of recs "Some (Suc s)" v] that u(2) by simp
    qed simp
  next
    case False
    let ?ps = "plan lim s (length (recs_bytes (x @ recs))) rs"
    have pl: "plan lim s (length (recs_bytes x)) (r # rs) = (r, s, length (recs_bytes x)) # ?ps" using False b by simp
    have u: "\<forall>p\<in>set ?ps. fst (snd p) < u" using Cons.prems(5) unfolding pl by simp
    show ?thesis unfolding c(1)
    proof (rule write_next [OF Cons.prems(1) [unfolded pl] b _ Cons.prems(4)])
      show "wl_files w = layout_files M @ (s, recs_bytes x) # blank_files (Suc s) u" using Cons.prems(3) by (simp add: layout_files_snoc)
      show "grow lim (M @ [(s, x)]) recs = M @ [(s, x @ recs)]" using False by (simp add: grow_cases)
      show "leaves lim (M @ [(s, x @ recs)]) rest (wl_files w')"
        if "write_all ?ps (Some s) v = (w', e)" "wl_files v = layout_files (M @ [(s, x @ recs)]) @ blank_files (Suc s) u" for v
        using Cons.IH [OF that(1) c(3) that(2) Cons.prems(4) u] .
    qed simp
  qed
qed

lemma apply_all_files:
  "(\<And>r. r \<in> fst ` set ps \<Longrightarrow> \<exists>recs. implements r recs) \<Longrightarrow> wl_files (apply_all ps w) = wl_files w"
proof (induction ps arbitrary: w)
  case (Cons p ps)
  obtain r s base where p: "p = (r, s, base)" by (cases p)
  obtain recs where "implements r recs" using Cons.prems [of r] p by auto
  then have "wl_files (wr_apply r s base w) = wl_files w"
    using aroundD(1) [OF around.view_put_recs] by (simp add: implements_def)
  then show ?case using Cons by (simp add: p apply_all_Cons)
qed (simp add: apply_all_def)

text \<open>A batch, failed or not, from a log whose active segment is the last.\<close>

lemma batch_files:
  assumes "wl_syncErr w = None" "wal_active w = (w1, Ok s)" "writeBatch rs w = (w', e)" "list_all2 implements rs recss"
    and "wl_files w1 = layout_files (M @ [(s, x)])" "map_of (shape w1) s = Some (length (recs_bytes x))" "fst ` set (shape w1) \<subseteq> {..s}"
    and "\<forall>t\<in>fst ` set M. t < s" "wl_segmentSize w1 = lim"
  shows "leaves lim (M @ [(s, x)]) recss (wl_files w')"
proof -
  obtain w2 ps err where p: "place_all rs s w1 = (w2, ps, err)" by (metis surj_pair)
  have k: "keys w1 \<subseteq> {..s}" using assms(5,8) keys_layout [of M] by (auto simp: keys_def layout_files_snoc less_imp_le)
  obtain u where u: "wl_files w2 = wl_files w1 @ blank_files (Suc s) u"
    "err = None \<longrightarrow> ps = plan lim s (length (recs_bytes x)) rs \<and> (\<forall>p\<in>set ps. fst (snd p) < u)"
    using place_files [OF p assms(6,7) k assms(9)] by blast
  show ?thesis
  proof (cases err)
    case (Some x1)
    then have "wl_files w' = wl_files w2" using assms(1-3) p by (auto simp: writeBatch_def)
    then show ?thesis using leaves_stop u(1) assms(5) by metis
  next
    case None
    obtain w3 e3 where w: "write_all ps None w2 = (w3, e3)" by (metis surj_pair)
    have "\<exists>recs. implements r recs" if "r \<in> set rs" for r using assms(4) that by (auto simp: list_all2_conv_all_nth in_set_conv_nth)
    then have "wl_files (apply_all ps w3) = wl_files w3" using placed_requests [OF p] by (intro apply_all_files) blast
    then have "wl_files w' = wl_files w3" using assms(1-3) p None w by (cases e3) (auto simp: writeBatch_def)
    moreover have "leaves lim (M @ [(s, x)]) recss (wl_files w3)"
      using write_files [of lim s x rs None w2 w3 e3 recss M u] w u None assms(4,5,8) by simp
    ultimately show ?thesis by simp
  qed
qed

lemma halted_files:
  assumes "laid_out w L" "wl_segmentSize w = lim" "wl_syncErr w = None" "list_all2 implements rs recss" "writeBatch rs w = (w', e)"
  shows "L = [] \<and> wl_files w' = [] \<or> leaves lim (if L = [] then [(0, [])] else L) recss (wl_files w')"
proof (cases L rule: rev_exhaust)
  case Nil
  then have w: "shape w = []" "wl_files w = []" using laid_out_shape [OF assms(1)] assms(1) by (simp_all add: laid_out_def layout_files_def)
  obtain w1 o1 where a: "createSegment w 0 = (w1, o1)" by (metis surj_pair)
  then have act: "wal_active w = (w1, o1)" using w(1) by (simp add: wal_active_shape)
  have k: "0 \<notin> keys w" using w(2) by (simp add: keys_def)
  note cf = create_files [OF a k]
  show ?thesis
  proof (cases "\<exists>s. o1 = Ok s")
    case True
    then have o1: "o1 = Ok 0" "wl_files w1 = [(0, [])]" "shape w1 = [(0, 0)]" "wl_segmentSize w1 = lim"
      using cf(1) w assms(2) by auto
    have "leaves lim ([] @ [(0, [])]) recss (wl_files w')"
      using o1 by (intro batch_files [OF assms(3) act [unfolded o1(1)] assms(5,4)]) (simp_all add: layout_files_def)
    then show ?thesis using Nil by simp
  next
    case False
    then have "wl_files w' = wl_files w1" using assms(3,5) act by (cases o1) (auto simp: writeBatch_def)
    then have "\<exists>u\<in>{0, Suc 0}. wl_files w' = blank_files 0 u" using cf(2) w(2) by simp
    then have "wl_files w' = [] \<or> wl_files w' = [(0, [])]" by (auto simp: blank_files_def)
    moreover have "leaves lim ([] @ [(0, [])]) recss (layout_files ([] @ [(0, [])]) @ blank_files (Suc 0) 0)" by (rule leaves_stop)
    ultimately show ?thesis using Nil by (auto simp: layout_files_def)
  qed
next
  case (snoc M y)
  obtain s x where y: "y = (s, x)" by (cases y)
  note lo = assms(1) [unfolded snoc y]
  have sh: "shape w = map (\<lambda>(s, rs). (s, length (recs_bytes rs))) M @ [(s, length (recs_bytes x))]" using laid_out_shape [OF lo] by simp
  have lt: "\<forall>t\<in>fst ` set M. t < s" using lo by (auto simp: laid_out_def layout_ok_def sorted_wrt_append)
  have "map_of (map (\<lambda>(s, rs). (s, length (recs_bytes rs))) M) s = None" using lt by (force simp: map_of_eq_None_iff)
  then have m: "map_of (shape w) s = Some (length (recs_bytes x))" by (simp add: sh map_add_def)
  have "leaves lim (M @ [(s, x)]) recss (wl_files w')"
  proof (rule batch_files [OF assms(3) _ assms(5,4) _ m _ lt assms(2)])
    show "wal_active w = (w, Ok s)" by (simp add: wal_active_shape sh)
    show "wl_files w = layout_files (M @ [(s, x)])" using lo by (simp add: laid_out_def)
    show "fst ` set (shape w) \<subseteq> {..s}" using lt by (force simp: sh less_imp_le)
  qed
  then show ?thesis using snoc y by simp
qed

section \<open>Opening what is on disk\<close>

text \<open>Two logs that hold the same in memory.\<close>

definition same_memory :: "WAL \<Rightarrow> WAL \<Rightarrow> bool" where
  "same_memory w w' \<longleftrightarrow> wl_groups w' = wl_groups w \<and> wl_segments w' = wl_segments w"

lemma same_dress: "dress a w = w' \<Longrightarrow> same_memory w w'"
  by (auto simp: same_memory_def dress_def)

lemma build_opened: "laid_out w L \<Longrightarrow> build L (opened sz thr files snaps) = dress (opened sz thr files snaps) w"
proof -
  assume "laid_out w L"
  then have "w = build L (around w)" by (simp add: laid_out_def)
  then have "dress (opened sz thr files snaps) w = build L (dress (opened sz thr files snaps) (around w))" by (metis dress_build)
  also have "dress (opened sz thr files snaps) (around w) = opened sz thr files snaps" by (simp add: dress_def around_def opened_def)
  finally show ?thesis by simp
qed

lemma Open_torn:
  assumes "laid_out w (M @ [(s, rs)])" "0 < sz" "tail = [] \<or> parseRecord tail = Fail e"
  shows "\<exists>w'. wal_Open (int sz) thr (layout_files M @ [(s, recs_bytes rs @ tail)]) snaps [] = Ok w' \<and> same_memory w w' \<and> wl_files w' = wl_files w"
proof -
  let ?f = "layout_files M @ [(s, recs_bytes rs @ tail)]"
  obtain w' where w': "wal_Open (int sz) thr ?f snaps [] = Ok w'" "dress w' (build (M @ [(s, rs)]) (opened sz thr ?f snaps)) = w'"
    "wl_files w' = layout_files (M @ [(s, rs)])"
    using Open_layout [of M s rs tail e sz ?f thr snaps] assms by (auto simp: laid_out_def)
  have "dress w' (dress (opened sz thr ?f snaps) w) = dress w' w" by (simp add: dress_def)
  then have "same_memory w w'" using w'(2) same_dress [of w' w w'] unfolding build_opened [OF assms(1)] by simp
  then show ?thesis using w' assms(1) by (auto simp: laid_out_def)
qed

lemma Open_laid_out:
  assumes "laid_out w L" "0 < sz"
  shows "\<exists>w'. wal_Open (int sz) thr (wl_files w) snaps [] = Ok w' \<and> same_memory w w' \<and> wl_files w' = wl_files w"
proof (cases L rule: rev_exhaust)
  case Nil
  then have w: "wl_files w = []" "w = around w" using assms(1) by (simp_all add: laid_out_def layout_files_def)
  have "wl_groups w = Map.empty" "wl_segments w = []"
    using arg_cong [OF w(2), of wl_groups] arg_cong [OF w(2), of wl_segments] by (simp_all add: around_def)
  moreover obtain snaps' where "pruneSnapshotFiles (opened sz thr [] snaps) = Ok (opened sz thr [] snaps\<lparr>wl_snapFiles := snaps'\<rparr>)"
    using prune_calm [of "opened sz thr [] snaps"] by (auto simp: opened_def)
  ultimately show ?thesis using assms(2) w(1)
    by (simp add: wal_Open_def wal_recover_def same_memory_def opened_def)
next
  case (snoc M x)
  then show ?thesis using Open_torn [of w M "fst x" "snd x" sz "[]"] assms by (simp add: laid_out_def layout_files_def case_prod_unfold)
qed

lemma build_seg_append:
  "build_seg s (rs @ rs') w = resize s (\<lambda>_. length (recs_bytes (rs @ rs'))) (put_recs s (length (recs_bytes rs)) rs' (build_seg s rs w))"
  by (simp add: build_seg_def put_recs_append sizes.at_put_recs resize_twice)

lemma groups_resize [simp]: "wl_groups (resize s f w) = wl_groups w"
  by (simp add: resize_def upd_seg_def)

lemma groups_dress [simp]: "wl_groups (dress a w) = wl_groups w"
  by (simp add: dress_def)

lemma groups_recs: "same_memory w w' \<Longrightarrow> wl_groups (put_recs s off rs w') = wl_groups (put_recs s off rs w)"
proof -
  assume "same_memory w w'"
  then have "w' = dress w' w" by (simp add: dress_def same_memory_def)
  then show ?thesis using rest.at_put_recs [of s off rs w' w] by (metis groups_dress)
qed

lemma last_file:
  assumes "laid_out w L" "wl_files w = fs @ [(s, d)]"
  obtains M rs where "L = M @ [(s, rs)]" "fs = layout_files M" "d = recs_bytes rs"
proof (cases L rule: rev_exhaust)
  case Nil
  then show ?thesis using assms by (simp add: laid_out_def layout_files_def)
next
  case (snoc M x)
  then show ?thesis using assms that [of M "snd x"] by (auto simp: laid_out_def layout_files_def case_prod_unfold)
qed

lemma seg_size_upd: "map_of (shape w) s = Some n \<Longrightarrow> seg_size (upd_seg s (\<lambda>x. x\<lparr>sg_size := sg_size x + k\<rparr>) w) s = n + k"
proof -
  have "map_of (map (\<lambda>x. (sg_seq x, sg_size x)) xs) s = Some n \<Longrightarrow>
    (case find (\<lambda>x. sg_seq x = s) (map (\<lambda>x. if sg_seq x = s then x\<lparr>sg_size := sg_size x + k\<rparr> else x) xs) of
       Some x \<Rightarrow> sg_size x | None \<Rightarrow> 0) = n + k" for xs
    by (induction xs) (auto split: if_splits)
  then show "map_of (shape w) s = Some n \<Longrightarrow> ?thesis" by (simp add: seg_size_def upd_seg_def shape_def)
qed

lemma Open_corrupt:
  assumes "layout_ok (M @ [(s, rs)])" "tail \<noteq> []" "parseRecord tail = Fail e" "0 < sz" "bl \<noteq> []" "sorted_wrt (<) (s # map fst bl)"
  shows "wal_Open (int sz) thr (layout_files M @ (s, recs_bytes rs @ tail) # bl) snaps [] = Fail (BadSegment s e)"
proof -
  let ?f = "layout_files M @ (s, recs_bytes rs @ tail) # bl"
  have ok: "layout_ok M" "list_all good_rec rs" "\<forall>x\<in>fst ` set M. x < s"
    using assms(1) by (auto simp: layout_ok_def sorted_wrt_append)
  have fs: "map fst ?f = map fst M @ s # map fst bl" by (simp add: layout_files_def case_prod_unfold)
  have "sorted_wrt (<) (map fst M @ s # map fst bl)"
    using assms(1,6) by (fastforce simp: layout_ok_def sorted_wrt_append)
  then have "sorted (map fst M @ s # map fst bl)" by (rule sorted_wrt_mono_rel [rotated]) simp
  then have so: "sort (map fst ?f) = map fst M @ s # map fst bl" unfolding fs by (rule sorted_sort_id)
  have "map_of (layout_files M) s = None" using ok(3) by (fastforce simp: map_of_eq_None_iff keys_layout)
  then have "map_of ?f s = Some (recs_bytes rs @ tail)" by (simp add: map_add_def)
  moreover have "list_all (\<lambda>(s, rs). list_all good_rec rs \<and> map_of ?f s = Some (recs_bytes rs)) M"
    using ok(1) map_of_layout [OF ok(1)] by (fastforce simp: layout_ok_def list_all_iff)
  ultimately have "recover_all (map fst M @ s # map fst bl) (opened sz thr ?f snaps) = Fail (BadSegment s e)"
    using recover_all_corrupt [of "opened sz thr ?f snaps" M s rs tail e "map fst bl"] ok(2) assms(2,3,5) by (simp add: opened_def)
  then show ?thesis using assms(4) so by (simp add: wal_Open_def wal_recover_def opened_def)
qed

lemma opened_around [simp]: "dress w (opened sz thr files snaps) = around w"
  by (simp add: dress_def opened_def around_def)

lemma Open_laid:
  assumes "layout_ok (L @ [(s, rs)])" "tail = [] \<or> parseRecord tail = Fail e" "0 < sz"
    and "files = layout_files L @ [(s, recs_bytes rs @ tail)]"
  shows "\<exists>w. wal_Open (int sz) thr files snaps [] = Ok w \<and> in_order sz w (L @ [(s, rs)])
    \<and> wl_groups w = wl_groups (build (L @ [(s, rs)]) (opened sz thr files snaps))"
proof -
  let ?o = "opened sz thr files snaps" and ?L = "L @ [(s, rs)]"
  obtain w where w: "wal_Open (int sz) thr files snaps [] = Ok w" "dress w (build ?L ?o) = w" "wl_files w = layout_files ?L"
    "wl_faults w = []" "wl_syncErr w = None" "wl_segmentSize w = sz" using Open_layout [OF assms] by blast
  have "w = build ?L (around w)" using w(2) dress_build [of w ?L ?o] by simp
  then have "in_order sz w ?L" using w assms(1) by (simp add: in_order_def laid_out_def)
  moreover have "wl_groups w = wl_groups (build ?L ?o)" using w(2) by (metis groups_dress)
  ultimately show ?thesis using w(1) by blast
qed

lemma grow_ok: "layout_ok L \<Longrightarrow> list_all good_rec recs \<Longrightarrow> layout_ok (grow lim L recs)"
proof (cases L rule: rev_exhaust)
  case (snoc M y)
  assume "layout_ok L" "list_all good_rec recs"
  then show ?thesis using snoc by (cases y) (auto simp: grow_cases layout_ok_def sorted_wrt_append)
qed (simp add: grow_def layout_ok_def)

lemma foldl_grow_ok: "layout_ok L \<Longrightarrow> list_all (list_all good_rec) recss \<Longrightarrow> layout_ok (foldl (grow lim) L recss)"
  by (induction recss arbitrary: L) (simp_all add: grow_ok)

lemma build_blank: "wl_groups (build (map (\<lambda>t. (t, [])) ts) w) = wl_groups w"
  by (induction ts arbitrary: w) (simp_all add: build_seg_def)

text \<open>The groups after a record depend on the groups before it only.\<close>

lemma groups_parts [simp]: "wl_groups (unpin p w) = wl_groups w" "wl_groups (pin s w) = wl_groups w"
  "wl_groups (wal_release ls w) = wl_groups w" "wl_groups (fold credit_loc ls w) = wl_groups w"
  "wl_groups (upd_seg s f w) = wl_groups w" "wl_groups (put_group g w) = (wl_groups w)(gs_id g \<mapsto> g)"
proof -
  show u: "wl_groups (upd_seg s f w) = wl_groups w" for s f w by (simp add: upd_seg_def)
  show "wl_groups (unpin p w) = wl_groups w" "wl_groups (pin s w) = wl_groups w" "wl_groups (put_group g w) = (wl_groups w)(gs_id g \<mapsto> g)"
    by (simp_all add: unpin_def pin_def put_group_def u split: option.split)
  show "wl_groups (wal_release ls w) = wl_groups w" "wl_groups (fold credit_loc ls w) = wl_groups w"
    by (induction ls arbitrary: w) (simp_all add: wal_release_def release_loc_def credit_loc_def u)
qed

lemma groups_transitions:
  assumes "wl_groups w = wl_groups v"
  shows "wal_group w i = wal_group v i" "wl_groups (dropSuffix w g j) = wl_groups (dropSuffix v g j)"
    "wl_groups (dropPrefix w g j) = wl_groups (dropPrefix v g j)" "wl_groups (dropGroup w g) = wl_groups (dropGroup v g)"
    "wl_groups (installHardState w g s h) = wl_groups (installHardState v g s h)"
    "wl_groups (wal_installSnapshot w g s m) = wl_groups (wal_installSnapshot v g s m)"
    "wl_groups (installCommit w g s j) = wl_groups (installCommit v g s j)"
  using assms by (simp_all add: wal_group_def dropSuffix_def dropPrefix_def dropGroup_def installHardState_def
      wal_installSnapshot_def installCommit_def Let_def) auto

lemma groups_installEntries:
  assumes "wl_groups w = wl_groups v"
  shows "wl_groups (installEntries w g s off es os n) = wl_groups (installEntries v g s off es os n)"
  using assms groups_transitions(2) [OF assms, of g "e_Index (es ! 0)"]
  by (simp add: installEntries_def Let_def wal_group_def)

lemma groups_put_rec:
  assumes "wl_groups w = wl_groups v"
  shows "wl_groups (put_rec s off r w) = wl_groups (put_rec s off r v)"
proof -
  obtain i k b where r: "r = (i, k, b)" by (cases r)
  note t = groups_transitions [OF assms] groups_installEntries [OF assms]
  have "omap wl_groups (replay_rec s off r w) = omap wl_groups (replay_rec s off r v)"
    by (simp add: r replay_rec_def wal_replay_def t Let_def omap_obind omap_prod if_distrib [of "omap wl_groups"])
  then show ?thesis using assms unfolding put_rec_def by (cases "replay_rec s off r w"; cases "replay_rec s off r v") simp_all
qed

lemma groups_put_recs: "wl_groups w = wl_groups v \<Longrightarrow> wl_groups (put_recs s off rs w) = wl_groups (put_recs s off rs v)"
proof (induction rs arbitrary: off w v)
  case (Cons r rs)
  show ?case using Cons.IH [OF groups_put_rec [OF Cons.prems]] by simp
qed simp

text \<open>What opening gives.  The directory opens unless a request was cut short and there are segments
  beyond it; the groups are those of the requests that were written and of some records of the
  next one.\<close>

lemma leaves_parts:
  assumes "leaves lim L recss files" "layout_ok L" "list_all (list_all good_rec) recss"
  shows "\<exists>n j M s x tail u. n \<le> length recss \<and> j \<le> length (recss ! n) \<and> (n = length recss \<longrightarrow> j = 0)
    \<and> files = layout_files M @ (s, recs_bytes (x @ take j (recss ! n)) @ tail) # blank_files (Suc s) u
    \<and> (tail = [] \<or> parseRecord tail = Fail errBadRecord)
    \<and> layout_ok (M @ [(s, x @ take j (recss ! n))])
    \<and> (\<forall>w. wl_groups (build (M @ [(s, x)]) w) = wl_groups (build (foldl (grow lim) L (take n recss)) w))
    \<and> length (foldl (grow lim) L (take n recss)) \<le> Suc (length M)
    \<and> (j = length (recss ! n) \<and> j \<noteq> 0 \<longrightarrow> foldl (grow lim) L (take (Suc n) recss) = M @ [(s, x @ recss ! n)])"
proof -
  obtain n M s x part u where n: "n \<le> length recss" "files = layout_files M @ (s, recs_bytes x @ part) # blank_files (Suc s) u"
    and or: "part = [] \<and> foldl (grow lim) L (take n recss) = M @ [(s, x)]
       \<or> n < length recss \<and> (\<exists>k. part = take k (recs_bytes (recss ! n)))
         \<and> grow lim (foldl (grow lim) L (take n recss)) (recss ! n) = M @ [(s, x @ recss ! n)]
         \<and> (foldl (grow lim) L (take n recss) = M @ [(s, x)] \<or> foldl (grow lim) L (take n recss) = M \<and> x = [])"
    using assms(1) unfolding leaves_def by blast
  have ok: "layout_ok (foldl (grow lim) L (take n recss))"
    using assms(2,3) by (intro foldl_grow_ok) (auto simp: list_all_iff dest: in_set_takeD)
  let ?P = "foldl (grow lim) L (take n recss)" and ?r = "recss ! n"
  from or consider (whole) "part = []" "?P = M @ [(s, x)]"
    | (part) k where "n < length recss" "part = take k (recs_bytes ?r)" "grow lim ?P ?r = M @ [(s, x @ ?r)]" "?P = M @ [(s, x)] \<or> ?P = M \<and> x = []"
    by blast
  then show ?thesis
  proof cases
    case whole
    then show ?thesis using n ok
      by (intro exI [of _ n] exI [of _ 0] exI [of _ M] exI [of _ s] exI [of _ x] exI [of _ "[]"] exI [of _ u]) simp
  next
    case a: part
    have g: "list_all good_rec ?r" using assms(3) a(1) by (simp add: list_all_length)
    obtain j tail where j: "j \<le> length ?r" "take k (recs_bytes ?r) = recs_bytes (take j ?r) @ tail" "tail = [] \<or> parseRecord tail = Fail errBadRecord"
      using torn_records [OF g, of k] by blast
    have "layout_ok (M @ [(s, x @ ?r)])" using grow_ok [OF ok g, of lim] a(3) by simp
    then have "layout_ok (M @ [(s, x @ take j ?r)])" by (auto simp: layout_ok_def list_all_iff dest: in_set_takeD)
    moreover have "wl_groups (build (M @ [(s, x)]) w) = wl_groups (build ?P w)" for w
      using a(4) build_blank [of "[s]"] by (auto simp: build_append)
    moreover have "length ?P \<le> Suc (length M)" using a(4) by auto
    moreover have "foldl (grow lim) L (take (Suc n) recss) = M @ [(s, x @ ?r)]" using a(1,3) by (simp add: take_Suc_conv_app_nth)
    ultimately show ?thesis using n a(1,2) j
      by (intro exI [of _ n] exI [of _ j] exI [of _ M] exI [of _ s] exI [of _ x] exI [of _ tail] exI [of _ u]) simp
  qed
qed

lemma Open_blank:
  assumes "layout_ok (M @ [(s, y)])" "tail = [] \<or> parseRecord tail = Fail e" "0 < sz"
    and "files = layout_files M @ (s, recs_bytes y @ tail) # blank_files (Suc s) u"
  shows "if tail = [] \<or> u \<le> Suc s
    then \<exists>w K. wal_Open (int sz) thr files snaps [] = Ok w \<and> in_order sz w K
      \<and> wl_groups w = wl_groups (build (M @ [(s, y)]) (opened sz thr files snaps))
    else wal_Open (int sz) thr files snaps [] = Fail (BadSegment s e)"
proof (cases "u \<le> Suc s")
  case True
  then show ?thesis using Open_laid [OF assms(1-3), of files thr snaps] assms(4) by auto
next
  case False
  then have u: "Suc s < u" by simp
  show ?thesis
  proof (cases "tail = []")
    case True
    let ?B = "map (\<lambda>t. (t, [])) [Suc s ..< u - 1]" and ?z = "u - 1"
    have b: "[Suc s ..< u] = [Suc s ..< ?z] @ [?z]" using u by (cases u) simp_all
    have "\<forall>t\<in>fst ` set M. t < s" "sorted_wrt (<) (map fst M)" using assms(1) by (auto simp: layout_ok_def sorted_wrt_append)
    then have "sorted_wrt (<) (map fst M @ s # [Suc s ..< u])" by (fastforce simp: sorted_wrt_append)
    then have "layout_ok (((M @ [(s, y)]) @ ?B) @ [(?z, [])])"
      using assms(1) unfolding b by (auto simp: layout_ok_def comp_def list_all_iff)
    moreover have "files = layout_files ((M @ [(s, y)]) @ ?B) @ [(?z, recs_bytes [] @ [])]"
      using assms(4) True by (simp add: layout_files_def blank_files_def b comp_def)
    ultimately obtain w where "wal_Open (int sz) thr files snaps [] = Ok w" "in_order sz w (((M @ [(s, y)]) @ ?B) @ [(?z, [])])"
      "wl_groups w = wl_groups (build (((M @ [(s, y)]) @ ?B) @ [(?z, [])]) (opened sz thr files snaps))"
      using Open_laid [of "(M @ [(s, y)]) @ ?B" ?z "[]" "[]" e sz files thr snaps] assms(3) by blast
    moreover have "wl_groups (build (((M @ [(s, y)]) @ ?B) @ [(?z, [])]) v) = wl_groups (build (M @ [(s, y)]) v)" for v
      using build_blank [of "[?z]"] build_blank [of "[Suc s ..< ?z]"] by (simp add: build_append)
    ultimately show ?thesis using True by auto
  next
    case t: False
    have "map fst (blank_files (Suc s) u) = [Suc s ..< u]" by (simp add: blank_files_def comp_def)
    then have "sorted_wrt (<) (s # map fst (blank_files (Suc s) u))" by simp
    then show ?thesis using Open_corrupt [OF assms(1) t _ assms(3), of e "blank_files (Suc s) u" thr snaps] assms(2,4) t u by auto
  qed
qed

lemma grow_longer: "length L \<le> length (foldl (grow lim) L recss)"
proof (induction recss arbitrary: L)
  case (Cons recs recss)
  have "length L \<le> length (grow lim L recs)" by (auto simp: grow_def split: prod.split)
  then show ?case using Cons.IH [of "grow lim L recs"] by simp
qed simp

lemma Open_leaves:
  assumes "leaves lim L recss files" "layout_ok L" "list_all (list_all good_rec) recss" "0 < sz"
  shows "length files \<le> length L \<Longrightarrow> \<exists>w. wal_Open (int sz) thr files snaps [] = Ok w"
    "wal_Open (int sz) thr files snaps [] = Ok w \<Longrightarrow> (\<exists>K. in_order sz w K) \<and>
      (\<exists>n\<le>length recss. wl_groups w = wl_groups (build (foldl (grow lim) L (take n recss)) (opened sz thr files snaps))
        \<or> (\<exists>j s off. n < length recss \<and> 0 < j \<and> j < length (recss ! n) \<and> wl_groups w
            = wl_groups (put_recs s off (take j (recss ! n)) (build (foldl (grow lim) L (take n recss)) (opened sz thr files snaps)))))"
proof -
  let ?o = "opened sz thr files snaps"
  obtain n j M s x tail u where p: "n \<le> length recss" "j \<le> length (recss ! n)" "n = length recss \<longrightarrow> j = 0"
    "files = layout_files M @ (s, recs_bytes (x @ take j (recss ! n)) @ tail) # blank_files (Suc s) u"
    "tail = [] \<or> parseRecord tail = Fail errBadRecord" "layout_ok (M @ [(s, x @ take j (recss ! n))])"
    and g: "\<And>w. wl_groups (build (M @ [(s, x)]) w) = wl_groups (build (foldl (grow lim) L (take n recss)) w)"
    and l: "length (foldl (grow lim) L (take n recss)) \<le> Suc (length M)"
    and f: "j = length (recss ! n) \<and> j \<noteq> 0 \<longrightarrow> foldl (grow lim) L (take (Suc n) recss) = M @ [(s, x @ recss ! n)]"
    using leaves_parts [OF assms(1-3)] by blast
  note ob = Open_blank [OF p(6,5) assms(4) p(4), of thr snaps]
  {
    assume "length files \<le> length L"
    moreover have "length files = length M + Suc (u - Suc s)" by (simp add: p(4) layout_files_def)
    ultimately have "u \<le> Suc s" using grow_longer [of L lim "take n recss"] l by linarith
    then show "\<exists>w. wal_Open (int sz) thr files snaps [] = Ok w" using ob by auto
  }
  assume ok: "wal_Open (int sz) thr files snaps [] = Ok w"
  then have w: "\<exists>K. in_order sz w K" "wl_groups w = wl_groups (build (M @ [(s, x @ take j (recss ! n))]) ?o)"
    using ob by (auto split: if_splits)
  have "wl_groups w = wl_groups (put_recs s (length (recs_bytes x)) (take j (recss ! n)) (build (M @ [(s, x)]) ?o))"
    using w(2) by (simp add: build_append build_seg_append)
  then have b: "wl_groups w = wl_groups (put_recs s (length (recs_bytes x)) (take j (recss ! n)) (build (foldl (grow lim) L (take n recss)) ?o))"
    using groups_put_recs [OF g] by metis
  consider "j = 0" | "0 < j" "j < length (recss ! n)" | "j = length (recss ! n)" "j \<noteq> 0" using p(2) by linarith
  then have "\<exists>n\<le>length recss. wl_groups w = wl_groups (build (foldl (grow lim) L (take n recss)) ?o)
      \<or> (\<exists>j s off. n < length recss \<and> 0 < j \<and> j < length (recss ! n) \<and> wl_groups w
          = wl_groups (put_recs s off (take j (recss ! n)) (build (foldl (grow lim) L (take n recss)) ?o)))"
  proof cases
    case 1
    then show ?thesis using b p(1) by (intro exI [of _ n]) simp
  next
    case 2
    then have "n < length recss" using p(1,3) by (cases "n = length recss") simp_all
    then show ?thesis using b 2 p(1) by blast
  next
    case 3
    then have "Suc n \<le> length recss" using p(1,3) by (cases "n = length recss") simp_all
    then show ?thesis using w(2) f 3 by (intro exI [of _ "Suc n"]) simp
  qed
  then show "(\<exists>K. in_order sz w K) \<and>
      (\<exists>n\<le>length recss. wl_groups w = wl_groups (build (foldl (grow lim) L (take n recss)) ?o)
        \<or> (\<exists>j s off. n < length recss \<and> 0 < j \<and> j < length (recss ! n) \<and> wl_groups w
            = wl_groups (put_recs s off (take j (recss ! n)) (build (foldl (grow lim) L (take n recss)) ?o))))"
    using w(1) by blast
qed

end
