(* ===== verification/Wal_Properties.thy ===== *)
theory Wal_Properties
  imports Wal_Crash
begin

text \<open>
  The properties of the shared write-ahead log as long as nothing is reclaimed: what is read back
  after a restart and after a crash in the middle of a batch, that group commit is invisible, and
  a crash after which the log does not open again.
\<close>

section \<open>Runs\<close>

text \<open>The requests the stores of the groups make, with arguments that fit their fields.\<close>

inductive group_request :: "writeRequest \<Rightarrow> bool" where
  state: "state_ok i hs es \<Longrightarrow> group_request (state_request i hs es)"
| suffix: "i < 2 ^ 64 \<Longrightarrow> j < 2 ^ 64 \<Longrightarrow> group_request (suffix_request i j)"
| prefix: "i < 2 ^ 64 \<Longrightarrow> j < 2 ^ 64 \<Longrightarrow> group_request (prefix_request i j)"
| commit: "i < 2 ^ 64 \<Longrightarrow> j < 2 ^ 64 \<Longrightarrow> group_request (commit_request i j)"
| snapshot: "i < 2 ^ 64 \<Longrightarrow> meta_ok m \<Longrightarrow> group_request (snapshot_request i m)"
| remove: "i < 2 ^ 64 \<Longrightarrow> group_request (remove_request i)"

text \<open>The records of a request.\<close>

inductive group_recs :: "writeRequest \<Rightarrow> walRec list \<Rightarrow> bool" where
  state: "state_ok i hs es \<Longrightarrow> group_recs (state_request i hs es) (state_recs i hs es)"
| single: "implements r [rec] \<Longrightarrow> group_recs r [rec]"

lemma request_recs: "group_request r \<Longrightarrow> \<exists>recs. group_recs r recs"
  by (induction rule: group_request.induct)
    (blast intro: group_recs.intros index_implements snapshot_implements remove_implements)+

lemma recs_implements: "group_recs r recs \<Longrightarrow> implements r recs"
  by (induction rule: group_recs.induct) (simp_all add: state_implements)

lemma request_implements: "group_request r \<Longrightarrow> \<exists>recs. implements r recs"
  using request_recs recs_implements by blast

text \<open>Only the two records of a \<open>SaveState\<close> can come apart.\<close>

lemma recs_apart:
  assumes "group_recs r recs" "0 < j" "j < length recs"
  obtains i h es where "r = state_request i (Some h) es" "state_ok i (Some h) es" "take j recs = state_recs i (Some h) []"
  using assms
proof (induction rule: group_recs.induct)
  case (state i hs es)
  then obtain h where "hs = Some h" "es \<noteq> []" "j = 1" by (cases hs) (auto simp: state_recs_def split: if_splits)
  then show ?case using state by (simp add: state_recs_def)
qed simp

text \<open>The runs of a log from which nothing has been reclaimed: it was opened on an empty directory
  and has written batches of requests, while file operations failed or not and snapshot files came
  and went; and it may have been opened again on the files that a batch left, whether the batch
  was completed, failed or was cut short.  \<open>Reclaim\<close> and the deletion of segments after a
  \<open>TruncatePrefix\<close> or a \<open>Remove\<close> are no steps of these runs.\<close>

inductive wal_run :: "nat \<Rightarrow> int \<Rightarrow> WAL \<Rightarrow> bool" for lim thr where
  start: "0 < lim \<Longrightarrow> wal_Open (int lim) thr [] [] flt = Ok w \<Longrightarrow> wal_run lim thr w"
| batch: "wal_run lim thr w \<Longrightarrow> rs \<noteq> [] \<Longrightarrow> \<forall>r\<in>set rs. group_request r \<Longrightarrow> writeBatch rs w = (w', None) \<Longrightarrow> wal_run lim thr w'"
| reopen: "wal_run lim thr w \<Longrightarrow> \<forall>r\<in>set rs. group_request r \<Longrightarrow> writeBatch rs w = (w', e) \<Longrightarrow>
    wal_Open (int lim) thr (wl_files w') snaps [] = Ok w'' \<Longrightarrow> wal_run lim thr w''"
| around: "wal_run lim thr w \<Longrightarrow> wal_run lim thr (w\<lparr>wl_faults := flt, wl_snapFiles := snaps\<rparr>)"

lemma laid_out_change:
  "laid_out w L \<Longrightarrow> laid_out (w\<lparr>wl_faults := flt, wl_snapFiles := snaps\<rparr>) L"
proof -
  assume l: "laid_out w L"
  let ?v = "w\<lparr>wl_faults := flt, wl_snapFiles := snaps\<rparr>"
  have "dress ?v w = build L (around ?v)" using l dress_build [of ?v L "around w"] by (simp add: laid_out_def)
  moreover have "dress ?v w = ?v" by (simp add: dress_def)
  ultimately show ?thesis using l by (simp add: laid_out_def)
qed

lemma laid_out_calm: "laid_out (calm w) L \<longleftrightarrow> laid_out w L"
  using laid_out_change [of w L "wl_snapFiles w" "[]"] laid_out_change [of "calm w" L "wl_snapFiles w" "wl_faults w"]
  by (auto simp: calm_def)

lemma list_recs: "\<forall>r\<in>set rs. group_request r \<Longrightarrow> \<exists>recss. list_all2 group_recs rs recss"
proof (induction rs)
  case (Cons r rs)
  then obtain recs recss where "group_recs r recs" "list_all2 group_recs rs recss" using request_recs [of r] by auto
  then show ?case by (intro exI [of _ "recs # recss"]) simp
qed (auto intro: exI [of _ "[]"])

lemma list_recs_implements: "list_all2 group_recs rs recss \<Longrightarrow> list_all2 implements rs recss"
  by (erule list_all2_mono) (rule recs_implements)

lemma list_implements: "\<forall>r\<in>set rs. group_request r \<Longrightarrow> \<exists>recss. list_all2 implements rs recss"
  using list_recs list_recs_implements by blast

lemma recss_good: "list_all2 implements rs recss \<Longrightarrow> list_all (list_all good_rec) recss"
  by (induction rule: list_all2_induct) (simp_all add: implements_def)

lemma open_start: "0 < lim \<Longrightarrow> wal_Open (int lim) thr [] snaps [] = Ok w \<Longrightarrow> in_order lim w []"
proof -
  assume a: "0 < lim" "wal_Open (int lim) thr [] snaps [] = Ok w"
  obtain snaps' where "pruneSnapshotFiles (opened lim thr [] snaps) = Ok (opened lim thr [] snaps\<lparr>wl_snapFiles := snaps'\<rparr>)"
    using prune_calm [of "opened lim thr [] snaps"] by (auto simp: opened_def)
  then have "w = opened lim thr [] snaps\<lparr>wl_snapFiles := snaps'\<rparr>"
    using a by (simp add: wal_Open_def wal_recover_def opened_def)
  then show ?thesis by (simp add: in_order_def laid_out_def layout_ok_def layout_files_def opened_def around_def)
qed

text \<open>What a batch leaves, whatever becomes of it.\<close>

lemma halted_batch:
  assumes "in_order lim (calm w) L" "list_all2 implements rs recss" "writeBatch rs w = (w', e)"
  shows "L = [] \<and> wl_files w' = [] \<or> leaves lim (if L = [] then [(0, [])] else L) recss (wl_files w')"
  using assms by (intro halted_files) (simp_all add: in_order_def laid_out_calm)

lemma start_ok: "in_order lim w L \<Longrightarrow> layout_ok (if L = [] then [(0, [])] else L)"
  by (simp add: in_order_def laid_out_def layout_ok_def)

lemma Open_empty: "wal_Open (int lim) thr [] [] flt = Ok w \<Longrightarrow> 0 < lim \<Longrightarrow> \<exists>flt'. w = opened lim thr [] []\<lparr>wl_faults := flt'\<rparr>"
proof -
  assume a: "wal_Open (int lim) thr [] [] flt = Ok w" "0 < lim"
  have step: "\<exists>flt'. k (v\<lparr>wl_faults := flt'\<rparr>) = Ok w" if "io_step k v = Ok w" for k v
  proof (cases "wl_faults v")
    case Nil
    moreover have "v\<lparr>wl_faults := wl_faults v\<rparr> = v" by simp
    ultimately show ?thesis using that by (metis io_step_calm)
  next
    case (Cons f fs)
    then show ?thesis using that by (intro exI [of _ fs]) (simp add: io_step_def io_call_def split: option.splits)
  qed
  let ?o = "\<lambda>f. opened lim thr [] []\<lparr>wl_faults := f\<rparr>"
  have later: "\<exists>f. k (?o f) = Ok w" if ex: "\<exists>f. io_step k (?o f) = Ok w" for k
  proof -
    obtain f where "io_step k (?o f) = Ok w" using ex by blast
    from step [OF this] show ?thesis by simp
  qed
  have "\<exists>f. io_step (io_step (io_step wal_recover)) (?o f) = Ok w"
    using a by (intro exI [of _ flt]) (simp add: wal_Open_def opened_def)
  then have "\<exists>f. wal_recover (?o f) = Ok w" by (rule later [OF later [OF later]])
  then have "\<exists>f. obind (recover_all (sort (map fst (wl_files (?o f)))) (?o f)) pruneSnapshotFiles = Ok w"
    unfolding wal_recover_def by (rule later)
  then have "\<exists>f. pruneSnapshotFiles (?o f) = Ok w" by (simp add: opened_def)
  then have "\<exists>f. remove_stray (map fst (wl_snapFiles (?o f))) False (?o f) = Ok w" unfolding pruneSnapshotFiles_def by (rule later)
  then show ?thesis by (auto simp: opened_def)
qed

lemma run_layout: "wal_run lim thr w \<Longrightarrow> 0 < lim \<and> (\<exists>L. in_order lim (calm w) L)"
proof (induction rule: wal_run.induct)
  case (start flt w)
  then obtain flt' where "w = opened lim thr [] []\<lparr>wl_faults := flt'\<rparr>" using Open_empty by blast
  then show ?case using start
    by (intro conjI exI [of _ "[]"]) (simp_all add: in_order_def laid_out_def layout_ok_def layout_files_def calm_def opened_def around_def)
next
  case (batch w rs w')
  then obtain L recss where L: "in_order lim (calm w) L" "list_all2 implements rs recss" using list_implements by blast
  have "writeBatch rs (calm w) = (calm w', None)" using calm_batch [OF batch(4)] batch(3) request_implements by blast
  then show ?case using in_order_batch(2) [OF L batch(2)] batch by auto
next
  case (reopen w rs w' e snaps w'')
  then obtain L recss where L: "in_order lim (calm w) L" "list_all2 implements rs recss" using list_implements by blast
  from halted_batch [OF this reopen(3)] have "\<exists>K. in_order lim w'' K"
  proof
    assume "L = [] \<and> wl_files w' = []"
    then show ?thesis using open_start [of lim thr snaps w''] reopen by auto
  next
    assume "leaves lim (if L = [] then [(0, [])] else L) recss (wl_files w')"
    from Open_leaves(2) [OF this start_ok [OF L(1)] recss_good [OF L(2)] _ reopen(4)] show ?thesis using reopen by blast
  qed
  then obtain K where K: "in_order lim w'' K" by blast
  then have "calm w'' = w''" by (cases w'') (simp add: calm_def in_order_def)
  then show ?case using K reopen by auto
next
  case (around w snaps flt)
  then obtain L where "in_order lim (calm w) L" by blast
  then have "in_order lim (calm (w\<lparr>wl_faults := flt, wl_snapFiles := snaps\<rparr>)) L"
    using laid_out_change [of w L snaps flt] by (simp add: in_order_def laid_out_calm)
  then show ?case using around by blast
qed

lemma run_calm: "wal_run lim thr w \<Longrightarrow> wl_faults w = [] \<Longrightarrow> \<exists>L. in_order lim w L"
proof -
  assume r: "wal_run lim thr w" "wl_faults w = []"
  then have "calm w = w" by (cases w) (simp add: calm_def)
  then show ?thesis using run_layout [OF r(1)] by simp
qed

section \<open>A small log\<close>

text \<open>A log of segments of 60 bytes in which group 1 has saved a hard state.\<close>

definition demo_hs :: HardState where
  "demo_hs = \<lparr>hs_CurrentTerm = 1, hs_VotedFor = [1]\<rparr>"

definition demo_request :: writeRequest where
  "demo_request = state_request 1 (Some demo_hs) []"

definition demo_wal :: WAL where
  "demo_wal = fst (writeBatch [demo_request] (opened 60 0 [] []))"

lemma demo_ok: "hs_ok demo_hs" "state_ok 1 (Some demo_hs) []" "group_request demo_request"
proof -
  show h: "hs_ok demo_hs" by (simp add: hs_ok_def demo_hs_def)
  then show s: "state_ok 1 (Some demo_hs) []" by (simp add: state_ok_def encodeEntriesBody_eq)
  then show "group_request demo_request" unfolding demo_request_def by (rule group_request.state)
qed

lemma demo_length: "length (wr_records demo_request) = 28"
  by (simp add: demo_request_def state_request_def appendRecord_frame length_rec_bytes recordHeaderSize_def encodeHardStateBody_def demo_hs_def)

lemma opened_in_order: "in_order lim (opened lim thr [] []) []"
  by (simp add: in_order_def laid_out_def layout_ok_def layout_files_def opened_def around_def)

lemma opened_run: "0 < lim \<Longrightarrow> wal_run lim thr (opened lim thr [] [])"
  by (rule wal_run.start [where flt = "[]"]) (simp_all add: wal_Open_def wal_recover_def pruneSnapshotFiles_def opened_def)

lemma run_write:
  assumes "wal_run lim thr w" "wl_faults w = []" "rs \<noteq> []" "\<forall>r\<in>set rs. group_request r"
  shows "wal_run lim thr (fst (writeBatch rs w))" "wl_faults (fst (writeBatch rs w)) = []" "snd (writeBatch rs w) = None"
proof -
  obtain L recss where L: "in_order lim w L" "list_all2 implements rs recss"
    using run_calm [OF assms(1,2)] list_implements [OF assms(4)] by blast
  note b = in_order_batch [OF L assms(3)]
  show "snd (writeBatch rs w) = None" "wl_faults (fst (writeBatch rs w)) = []" using b by (simp_all add: in_order_def)
  then show "wal_run lim thr (fst (writeBatch rs w))"
    using wal_run.batch [OF assms(1,3,4), of "fst (writeBatch rs w)"] by (simp add: prod_eq_iff)
qed

lemma wal_demo_run: "wal_run 60 0 demo_wal" "wl_faults demo_wal = []"
  using run_write [OF opened_run, of 60 0 "[demo_request]"] demo_ok(3) by (simp_all add: demo_wal_def opened_def)

lemma demo_files: "wl_files demo_wal = [(0, wr_records demo_request)]"
proof -
  have im: "implements demo_request (state_recs 1 (Some demo_hs) [])"
    unfolding demo_request_def by (rule state_implements [OF demo_ok(2)])
  then have "wl_files demo_wal = layout_files (grow 60 [] (state_recs 1 (Some demo_hs) []))"
    using in_order_one(2) [OF opened_in_order im, of 60 0] by (simp add: demo_wal_def in_order_def laid_out_def)
  then show ?thesis using im by (simp add: grow_def layout_files_def implements_def)
qed

section \<open>Recovery\<close>

text \<open>C21. Recovery is exact, as long as nothing has been reclaimed. In every run of a log none of whose
  segments has been reclaimed, through completed batches, crashes in the middle of others and
  restarts, opening the directory between two batches gives the log that was in memory: for every
  group the same hard state, snapshot, commit index and entry locations, and the same segments with
  the same counts. After a reclaim this can fail: the theory \<open>Wal_Reclaim\<close> follows two runs with one.
\<close>

theorem recovery_is_exact:
  assumes "wal_run lim thr w"
  shows "\<exists>w'. wal_Open (int lim) thr (wl_files w) (wl_snapFiles w) [] = Ok w'
    \<and> wl_groups w' = wl_groups w \<and> wl_segments w' = wl_segments w \<and> wl_files w' = wl_files w"
proof -
  obtain L where "laid_out w L" "0 < lim" using run_layout [OF assms] by (auto simp: in_order_def laid_out_calm)
  then show ?thesis using Open_laid_out [of w L lim thr "wl_snapFiles w"] by (auto simp: same_memory_def)
qed

theorem recovery_is_exact_witness:
  "\<exists>w'. wal_Open (int 60) 0 (wl_files demo_wal) (wl_snapFiles demo_wal) [] = Ok w'
    \<and> wl_groups w' = wl_groups demo_wal \<and> wl_segments w' = wl_segments demo_wal \<and> wl_files w' = wl_files demo_wal"
  by (rule recovery_is_exact [OF wal_demo_run(1)])

section \<open>Crashes\<close>

text \<open>The log after some requests were written with no fault.\<close>

definition undisturbed :: "writeRequest list \<Rightarrow> WAL \<Rightarrow> WAL" where
  "undisturbed rs w = (if rs = [] then w else fst (writeBatch rs (calm w)))"

lemma undisturbed_layout:
  assumes "in_order lim (calm w) L" "list_all2 implements rs recss"
  shows "laid_out (undisturbed rs w) (foldl (grow lim) L recss)"
  using assms in_order_batch(2) [OF assms] by (auto simp: undisturbed_def in_order_def laid_out_calm)

lemma build_start:
  "wl_groups (build (foldl (grow lim) (if L = [] then [(0, [])] else L) recss) v) = wl_groups (build (foldl (grow lim) L recss) v)"
  using build_blank [of "[0]"] by (cases recss) (simp_all add: grow_def)

lemma undisturbed_groups:
  assumes "in_order lim (calm w) L" "list_all2 implements rs recss" "n \<le> length recss"
  shows "wl_groups (build (foldl (grow lim) (if L = [] then [(0, [])] else L) (take n recss)) (opened sz thr files snaps))
    = wl_groups (undisturbed (take n rs) w)"
proof -
  have "list_all2 implements (take n rs) (take n recss)" using assms(2) by (rule list_all2_takeI)
  from build_opened [OF undisturbed_layout [OF assms(1) this]] show ?thesis by (simp only: build_start groups_dress)
qed

lemma state_apply:
  assumes "state_ok i (Some h) es"
  shows "wr_apply (state_request i (Some h) []) s base w = put_recs s base (state_recs i (Some h) []) w"
proof -
  have "state_ok i (Some h) []" using assms by (simp add: state_ok_def encodeEntriesBody_eq)
  from state_implements [OF this] show ?thesis by (simp add: implements_def)
qed

lemma halted_groups:
  assumes "in_order lim (calm w) L" "list_all2 group_recs rs recss" "0 < sz"
    and "leaves lim (if L = [] then [(0, [])] else L) recss files" "wal_Open (int sz) thr files snaps [] = Ok w''"
  shows "\<exists>as bs. rs = as @ bs \<and> (wl_groups w'' = wl_groups (undisturbed as w)
    \<or> (\<exists>i h es bs' s base. bs = state_request i (Some h) es # bs'
        \<and> wl_groups w'' = wl_groups (wr_apply (state_request i (Some h) []) s base (undisturbed as w))))"
proof -
  have im: "list_all2 implements rs recss" using assms(2) by (rule list_recs_implements)
  let ?B = "\<lambda>n. build (foldl (grow lim) (if L = [] then [(0, [])] else L) (take n recss)) (opened sz thr files snaps)"
  obtain n where n: "n \<le> length recss" and or: "wl_groups w'' = wl_groups (?B n)
      \<or> (\<exists>j s off. n < length recss \<and> 0 < j \<and> j < length (recss ! n) \<and> wl_groups w'' = wl_groups (put_recs s off (take j (recss ! n)) (?B n)))"
    using Open_leaves(2) [OF assms(4) start_ok [OF assms(1)] recss_good [OF im] assms(3,5)] by blast
  note g = undisturbed_groups [OF assms(1) im n, of sz thr files snaps]
  from or consider "wl_groups w'' = wl_groups (?B n)"
    | (part) j s off where "n < length recss" "0 < j" "j < length (recss ! n)" "wl_groups w'' = wl_groups (put_recs s off (take j (recss ! n)) (?B n))"
    by blast
  then show ?thesis
  proof cases
    case 1
    then show ?thesis using g by (intro exI [of _ "take n rs"] exI [of _ "drop n rs"]) simp
  next
    case part
    then have r: "n < length rs" "group_recs (rs ! n) (recss ! n)" using assms(2) by (simp_all add: list_all2_conv_all_nth)
    obtain i h es where h: "rs ! n = state_request i (Some h) es" "state_ok i (Some h) es" "take j (recss ! n) = state_recs i (Some h) []"
      using recs_apart [OF r(2) part(2,3)] by blast
    have "wl_groups w'' = wl_groups (wr_apply (state_request i (Some h) []) s off (undisturbed (take n rs) w))"
      using part(4) h(3) state_apply [OF h(2)] groups_put_recs [OF g] by simp
    moreover have "drop n rs = state_request i (Some h) es # drop (Suc n) rs" using r(1) h(1) by (simp add: Cons_nth_drop_Suc [symmetric])
    ultimately show ?thesis using append_take_drop_id [of n rs] by (intro exI [of _ "take n rs"] exI [of _ "drop n rs"]) auto
  qed
qed

lemma completed_groups:
  assumes "wal_run lim thr w" "\<forall>r\<in>set rs. group_request r" "rs \<noteq> []" "writeBatch rs w = (w', None)" "0 < sz"
    and "wal_Open (int sz) thr' (wl_files w') snaps [] = Ok w''"
  shows "wl_groups w'' = wl_groups (undisturbed rs w)"
proof -
  obtain L where "laid_out w' L" using run_layout [OF wal_run.batch [OF assms(1,3,2,4)]] by (auto simp: in_order_def laid_out_calm)
  then have "wl_groups w'' = wl_groups w'" using Open_laid_out [of w' L sz thr' snaps] assms(5,6) by (auto simp: same_memory_def)
  moreover have "writeBatch rs (calm w) = (calm w', None)" using calm_batch [OF assms(4)] assms(2) request_implements by blast
  ultimately show ?thesis using assms(3) by (simp add: undisturbed_def calm_def)
qed

text \<open>C22. A crash in the middle of a batch, on a log from which nothing has been reclaimed. Let a batch
  of requests of any groups end in any way, completed or stopped by a fault at any of its file
  operations, after any number of the bytes of a write. If the directory opens again, with
  whatever options, every group is as after a prefix of the requests, each in whole; or the
  request after that prefix is a \<open>SaveState\<close> of which the hard state was read back without the
  entries, so that the hard state is durable no later than the entries, and no torn entry is ever
  read. A batch that was answered with success is read back whole. And the directory does open if
  the batch had not created a further segment; the case of one that had is below.
\<close>

theorem crash_during_a_batch:
  assumes "wal_run lim thr w" "\<forall>r\<in>set rs. group_request r" "writeBatch rs w = (w', e)" "0 < sz"
  shows "(length (wl_files w') \<le> max 1 (length (wl_files w)) \<longrightarrow> (\<exists>w''. wal_Open (int sz) thr' (wl_files w') snaps [] = Ok w''))
    \<and> (\<forall>w''. wal_Open (int sz) thr' (wl_files w') snaps [] = Ok w'' \<longrightarrow>
        (\<exists>as bs. rs = as @ bs \<and> (e = None \<longrightarrow> bs = []) \<and> (wl_groups w'' = wl_groups (undisturbed as w)
          \<or> (\<exists>i h es bs' s base. bs = state_request i (Some h) es # bs'
              \<and> wl_groups w'' = wl_groups (wr_apply (state_request i (Some h) []) s base (undisturbed as w))))))"
proof -
  obtain L recss where L: "in_order lim (calm w) L" "list_all2 group_recs rs recss" "0 < lim"
    using run_layout [OF assms(1)] list_recs [OF assms(2)] by blast
  note im = list_recs_implements [OF L(2)]
  have len: "length (if L = [] then [(0, [])] else L) = max 1 (length (wl_files w))"
    using L(1) by (cases L) (simp_all add: in_order_def laid_out_def layout_files_def calm_def)
  note or = halted_batch [OF L(1) im assms(3)]
  have empty_dir: "\<exists>v. wal_Open (int sz) thr' (wl_files w') snaps [] = Ok v \<and> wl_groups v = wl_groups w" if "L = []" "wl_files w' = []"
    using L(1) Open_laid_out [of w "[]" sz thr' snaps] assms(4) that
    by (auto simp: in_order_def laid_out_calm same_memory_def) (auto simp: laid_out_def layout_files_def)
  have "\<exists>w''. wal_Open (int sz) thr' (wl_files w') snaps [] = Ok w''" if "length (wl_files w') \<le> max 1 (length (wl_files w))"
    using or
  proof
    assume "L = [] \<and> wl_files w' = []"
    then have "L = []" "wl_files w' = []" by simp_all
    from empty_dir [OF this] show ?thesis by blast
  next
    assume "leaves lim (if L = [] then [(0, [])] else L) recss (wl_files w')"
    from Open_leaves(1) [OF this start_ok [OF L(1)] recss_good [OF im] assms(4)] show ?thesis using that len by simp
  qed
  moreover have "\<exists>as bs. rs = as @ bs \<and> (e = None \<longrightarrow> bs = []) \<and> (wl_groups w'' = wl_groups (undisturbed as w)
          \<or> (\<exists>i h es bs' s base. bs = state_request i (Some h) es # bs'
              \<and> wl_groups w'' = wl_groups (wr_apply (state_request i (Some h) []) s base (undisturbed as w))))"
    if ok: "wal_Open (int sz) thr' (wl_files w') snaps [] = Ok w''" for w''
  proof (cases "e = None \<and> rs \<noteq> []")
    case True
    then have "wl_groups w'' = wl_groups (undisturbed rs w)" using completed_groups [OF assms(1-2) _ _ assms(4) ok] assms(3) by simp
    then show ?thesis by (intro exI [of _ rs] exI [of _ "[]"]) simp
  next
    case False
    from or show ?thesis
    proof
      assume "L = [] \<and> wl_files w' = []"
      then have "wl_groups w'' = wl_groups (undisturbed [] w)" using empty_dir ok by (auto simp: undisturbed_def)
      then show ?thesis using False by (intro exI [of _ "[]"] exI [of _ rs]) auto
    next
      assume "leaves lim (if L = [] then [(0, [])] else L) recss (wl_files w')"
      from halted_groups [OF L(1,2) assms(4) this ok] show ?thesis using False by fastforce
    qed
  qed
  ultimately show ?thesis by blast
qed

text \<open>The first batch of a new log, stopped after 20 bytes of its write.\<close>

definition demo_halted :: WAL where
  "demo_halted = opened 60 0 [] []\<lparr>wl_faults := [None, None, Some 20]\<rparr>"

lemma demo_halted_run: "wal_run 60 0 demo_halted"
  using wal_run.around [OF opened_run [of 60 0], of "[]" "[None, None, Some 20]"] by (simp add: demo_halted_def opened_def)

lemma demo_halted_batch: "\<exists>w'. writeBatch [demo_request] demo_halted = (w', Some io_error) \<and> wl_files w' = [(0, take 20 (wr_records demo_request))]"
  by (simp add: demo_halted_def opened_def writeBatch_def wal_active_def createSegment_def io_call_def syncFile_def seg_size_def new_segment_def
      place_one_def upd_seg_def writeFile_def file_of_def assoc_put_def write_at_def)

theorem crash_during_a_batch_witness:
  "\<exists>w' w''. writeBatch [demo_request] demo_halted = (w', Some io_error) \<and> wal_Open (int 60) 0 (wl_files w') [] [] = Ok w''
    \<and> (\<exists>as bs. [demo_request] = as @ bs \<and> (wl_groups w'' = wl_groups (undisturbed as demo_halted)
        \<or> (\<exists>i h es bs' s base. bs = state_request i (Some h) es # bs'
            \<and> wl_groups w'' = wl_groups (wr_apply (state_request i (Some h) []) s base (undisturbed as demo_halted)))))"
proof -
  obtain w' where w': "writeBatch [demo_request] demo_halted = (w', Some io_error)" "wl_files w' = [(0, take 20 (wr_records demo_request))]"
    using demo_halted_batch by blast
  have "\<forall>r\<in>set [demo_request]. group_request r" using demo_ok(3) by simp
  note c = crash_during_a_batch [OF demo_halted_run this w'(1), of 60 0 "[]"]
  obtain w'' where "wal_Open (int 60) 0 (wl_files w') [] [] = Ok w''" using c w'(2) by auto
  then show ?thesis using c w'(1) by (intro exI [of _ w'] exI [of _ w'']) auto
qed

section \<open>Group commit\<close>

text \<open>C23. Group commit is invisible. While no file operation fails, requests of any groups that are
  written together in one batch, with one sync, leave exactly what they leave when they are
  written in two batches, and all of them succeed; so it does not matter how the goroutine that
  writes groups the requests it finds in its channel.
\<close>

theorem group_commit_is_invisible:
  assumes "wal_run lim thr w" "wl_faults w = []" "as \<noteq> []" "bs \<noteq> []" "\<forall>r\<in>set (as @ bs). group_request r"
  shows "writeBatch (as @ bs) w = writeBatch bs (fst (writeBatch as w)) \<and> snd (writeBatch (as @ bs) w) = None"
proof -
  obtain L where L: "in_order lim w L" using run_calm [OF assms(1,2)] by blast
  obtain ra rb where r: "list_all2 implements as ra" "list_all2 implements bs rb"
    using list_implements [of as] list_implements [of bs] assms(5) by auto
  have "list_all2 implements (as @ bs) (ra @ rb)" using r by (rule list_all2_appendI)
  then show ?thesis using batch_append [OF L r(1) assms(3) r(2) assms(4)] in_order_batch(1) [OF L, of "as @ bs" "ra @ rb"] assms(3) by simp
qed

theorem group_commit_is_invisible_witness:
  "writeBatch ([demo_request] @ [remove_request 1]) demo_wal = writeBatch [remove_request 1] (fst (writeBatch [demo_request] demo_wal))
    \<and> snd (writeBatch ([demo_request] @ [remove_request 1]) demo_wal) = None"
  using group_request.remove [of 1] demo_ok(3) by (intro group_commit_is_invisible [OF wal_demo_run]) simp_all

section \<open>A crash during a rotation\<close>

lemma assoc_put_inner: "s \<notin> fst ` set al \<Longrightarrow> t \<noteq> s \<Longrightarrow> assoc_put s v (al @ [(s, d), (t, e)]) = al @ [(s, v), (t, e)]"
  using assoc_put_last [of s al v d] by (simp add: assoc_put_def split: if_splits)

text \<open>The batch rotates before its second request; the write of the first one stops after some
  bytes of its header.\<close>

lemma rotation_files:
  assumes "laid_out w (M @ [(s, rs)])" "wl_syncErr w = None" "wl_segmentSize w = lim" "recs_bytes rs \<noteq> []"
    and "length (recs_bytes rs) + length (wr_records r1) \<le> lim"
    and "lim < length (recs_bytes rs) + length (wr_records r1) + length (wr_records r2)"
  shows "\<exists>w'. writeBatch [r1, r2] (w\<lparr>wl_faults := [None, None, None, Some k]\<rparr>) = (w', Some io_error)
    \<and> wl_files w' = layout_files M @ [(s, recs_bytes rs @ take k (wr_records r1)), (s + 1, [])]"
proof -
  let ?w = "w\<lparr>wl_faults := [None, None, None, Some k]\<rparr>" and ?d = "recs_bytes rs"
  let ?u = "upd_seg s (\<lambda>x. x\<lparr>sg_size := sg_size x + length (wr_records r1)\<rparr>)"
  have sh: "shape w = map (\<lambda>(s, rs). (s, length (recs_bytes rs))) M @ [(s, length ?d)]" using laid_out_shape [OF assms(1)] by simp
  have lt: "\<forall>t\<in>fst ` set M. t < s" using assms(1) by (auto simp: laid_out_def layout_ok_def sorted_wrt_append)
  have fs: "wl_files w = layout_files M @ [(s, ?d)]" using assms(1) by (simp add: laid_out_def layout_files_snoc)
  have new: "s + 1 \<notin> fst ` set (wl_files w)" "s \<notin> fst ` set (layout_files M)"
    using lt by (auto simp: fs image_Un keys_layout simp del: image_iff)
  have "map_of (map (\<lambda>(s, rs). (s, length (recs_bytes rs))) M) s = None" using lt by (force simp: map_of_eq_None_iff)
  then have "map_of (shape ?w) s = Some (length ?d)" by (simp add: sh map_add_def shape_def [of ?w] shape_def [of w, symmetric])
  note sz = laid_out_seg_size(1) [OF assms(1)] seg_size_upd [OF this, of "length (wr_records r1)"]
  have szw: "seg_size ?w s = length ?d" using sz(1) by (simp add: seg_size_def)
  have "wal_active ?w = (?w, Ok s)" using sh by (simp add: wal_active_shape shape_def)
  moreover obtain w1 p2 where p: "place_all [r1, r2] s ?w = (w1, [(r1, s, length ?d), p2], None)" "wl_faults w1 = [Some k]"
      "wl_files w1 = wl_files w @ [(s + 1, [])]"
    using assms(3-6) new(1) szw sz(2)
    by (simp add: place_one_def syncFile_def createSegment_def io_call_def upd_seg_def)
  moreover have "\<exists>w2. write_all [(r1, s, length ?d), p2] None w1 = (w2, Some io_error)
      \<and> wl_files w2 = layout_files M @ [(s, ?d @ take k (wr_records r1)), (s + 1, [])]"
  proof -
    have "map_of (layout_files M) s = None" using new(2) by (simp add: map_of_eq_None_iff)
    then have "file_of (w1\<lparr>wl_faults := []\<rparr>) s = ?d" using p(3) by (simp add: file_of_def fs map_add_def)
    then show ?thesis using p(2,3) assoc_put_inner [OF new(2), of "s + 1" _ ?d]
      by (cases p2) (simp add: writeFile_def io_call_def fs write_at_end)
  qed
  ultimately show ?thesis using assms(2) by (auto simp: writeBatch_def simp del: place_all.simps write_all.simps)
qed

text \<open>C24. A crash during a rotation can make the log unreadable. When a batch goes over the segment
  size after its first request, the next segment is created, and its directory entry synced,
  before the bytes of the first request are written to the old one. If the process dies within
  the header of the first record of that write, the torn record is not in the last segment, and
  Open reports corruption whatever its options are, although no acknowledged record was lost. The
  package documentation promises the contrary, that a crash in the middle of a write leaves a tail
  that is cut off on the next open.
\<close>

theorem rotation_crash_is_permanent:
  assumes "wal_run lim thr w" "wl_files w = fs @ [(s, d)]" "d \<noteq> []" "group_request r1" "group_request r2"
    and "length d + length (wr_records r1) \<le> lim" "lim < length d + length (wr_records r1) + length (wr_records r2)"
    and "0 < k" "k < recordHeaderSize" "0 < sz"
  shows "\<exists>w'. writeBatch [r1, r2] (w\<lparr>wl_faults := [None, None, None, Some k]\<rparr>) = (w', Some io_error)
    \<and> wl_files w' = fs @ [(s, d @ take k (wr_records r1)), (s + 1, [])]
    \<and> wal_Open (int sz) thr' (wl_files w') snaps [] = Fail (BadSegment s errBadRecord)"
proof -
  obtain L where L: "in_order lim (calm w) L" using run_layout [OF assms(1)] by blast
  then have lo: "laid_out w L" "wl_syncErr w = None" "wl_segmentSize w = lim"
    by (simp_all add: in_order_def laid_out_calm)
  obtain M rs where M: "L = M @ [(s, rs)]" "fs = layout_files M" "d = recs_bytes rs" by (rule last_file [OF lo(1) assms(2)])
  obtain recs where r1: "implements r1 recs" using request_implements [OF assms(4)] by blast
  let ?t = "take k (wr_records r1)"
  have "wr_records r1 \<noteq> []" using r1 by (cases recs) (auto simp: implements_def recordHeaderSize_def dest: arg_cong [of _ "[]" length])
  then have t: "?t \<noteq> []" "parseRecord ?t = Fail errBadRecord" using assms(8,9) by (auto simp: parseRecord_def min_def)
  obtain w' where "writeBatch [r1, r2] (w\<lparr>wl_faults := [None, None, None, Some k]\<rparr>) = (w', Some io_error)"
    "wl_files w' = layout_files M @ [(s, recs_bytes rs @ ?t), (s + 1, [])]"
    using rotation_files [OF lo(1) [unfolded M(1)] lo(2,3), of r1 r2 k] assms(3,6,7) M(3) by blast
  moreover have "layout_ok (M @ [(s, rs)])" using lo(1) M(1) by (simp add: laid_out_def)
  ultimately show ?thesis
    using Open_corrupt [OF _ t assms(10), of M s rs "[(s + 1, [])]" thr' snaps] M(2,3) by (intro exI [of _ w']) simp
qed

theorem rotation_crash_is_permanent_witness:
  "\<exists>w'. writeBatch [demo_request, demo_request] (demo_wal\<lparr>wl_faults := [None, None, None, Some 5]\<rparr>) = (w', Some io_error)
    \<and> wl_files w' = [] @ [(0, wr_records demo_request @ take 5 (wr_records demo_request)), (0 + 1, [])]
    \<and> wal_Open (int 1000) 7 (wl_files w') [] [] = Fail (BadSegment 0 errBadRecord)"
proof (rule rotation_crash_is_permanent [OF wal_demo_run(1)])
  show "wr_records demo_request \<noteq> []" using demo_length by auto
qed (simp_all add: demo_files demo_length demo_ok(3) recordHeaderSize_def)

end
