(* ===== verification/Wal_Reclaim.thy ===== *)
theory Wal_Reclaim
  imports Wal_Properties
begin

text \<open>
  What reclaiming segments of the shared log does to the state that a restart reads back. Two runs
  are followed in which it differs from the state in memory.
\<close>

section \<open>Requests in order\<close>

text \<open>What no request changes.\<close>

definition settings :: "WAL \<Rightarrow> bool \<times> int" where
  "settings w = (wl_closed w, wl_rewriteThreshold w)"

lemma settings_simps [simp]: "settings (put_bytes s base b w) = settings w" "settings (place_room r s w) = settings w"
    "settings (put_recs s base recs w) = settings w"
proof -
  have "around v = around v' \<Longrightarrow> settings v = settings v'" for v v' by (cases v; cases v') (simp add: around_def settings_def)
  then show "settings (put_recs s base recs w) = settings w" using around.view_put_recs by blast
qed (simp_all add: settings_def put_bytes_def place_room_def make_room_def resize_def upd_seg_def add_seg_def add_file_def)

lemma in_order_first:
  assumes "in_order lim w L"
  obtains w1 where "ready w w1 (if L = [] then 0 else fst (last L))" "settings w1 = settings w" "wl_groups w1 = wl_groups w"
proof -
  obtain w1 where "ready w w1 (if L = [] then 0 else fst (last L))" "L \<noteq> [] \<longrightarrow> w1 = w" "L = [] \<longrightarrow> w1 = add_seg 0 (add_file 0 w)"
    using in_order_ready [OF assms] by blast
  then show ?thesis using that [of w1] by (cases "L = []") (simp_all add: add_seg_def add_file_def settings_def)
qed

lemma submit_in_order:
  assumes "in_order lim w L" "implements r recs" "\<not> wl_closed w"
  shows "\<exists>w'. wal_submit w r True = (w', Ok ()) \<and> in_order lim w' (grow lim L recs) \<and> settings w' = settings w"
proof -
  have "wl_syncErr w = None" using assms(1) by (simp add: in_order_def)
  then have "wal_submit w r True = (fst (writeBatch [r] w), Ok ())"
    using in_order_one(1) [OF assms(1,2)] assms(3) by (cases "writeBatch [r] w") (simp add: wal_submit_def)
  moreover obtain w1 where w1: "ready w w1 (if L = [] then 0 else fst (last L))" "settings w1 = settings w"
    using in_order_first [OF assms(1)] .
  have "settings (fst (writeBatch [r] w)) = settings w" using one_settles(1) [OF w1(1) assms(2)] w1(2) by (simp add: settle_def)
  ultimately show ?thesis using in_order_one(2) [OF assms(1,2)] by auto
qed

text \<open>The bytes of a request that changes nothing in memory are written all the same.\<close>

lemma idle_write:
  assumes "in_order lim w L" "wr_records r = recs_bytes recs" "list_all good_rec recs" "recs \<noteq> []"
    and idle: "\<And>s base v. wl_groups v = wl_groups w \<Longrightarrow> wr_apply r s base v = v"
  shows "snd (writeBatch [r] w) = None" "wl_groups (fst (writeBatch [r] w)) = wl_groups w"
    "wl_files (fst (writeBatch [r] w)) = layout_files (grow lim L recs)" "layout_ok (grow lim L recs)"
    "settings (fst (writeBatch [r] w)) = settings w"
proof -
  define r' where "r' = \<lparr>wr_records = recs_bytes recs, wr_apply = \<lambda>s base. put_recs s base recs\<rparr>"
  have im: "implements r' recs" using assms(3,4) by (simp add: r'_def implements_def)
  obtain w1 where rd: "ready w w1 (if L = [] then 0 else fst (last L))" and w1: "settings w1 = settings w" "wl_groups w1 = wl_groups w"
    using in_order_first [OF assms(1)] .
  let ?s = "if L = [] then 0 else fst (last L)"
  let ?t = "spot r ?s w1" and ?b = "seg_size (make_room r ?s w1) (spot r ?s w1)" and ?v = "place_room r ?s w1"
  have same: "spot r' ?s w1 = ?t" "make_room r' ?s w1 = make_room r ?s w1" "place_room r' ?s w1 = ?v"
    using assms(2) by (simp_all add: r'_def spot_def rotates_def make_room_def place_room_def)
  have t: "topmost ?s w1" using rd by (simp add: ready_def)
  have "place_all [r] ?s w1 = (?v, [placed r ?s w1], None)" by (simp only: place_all_Cons [OF t]) simp
  from writeBatch_calm [OF rd this]
  have "writeBatch [r] w = (wr_apply r ?t ?b (put_bytes ?t ?b (recs_bytes recs) ?v), None)"
    using assms(2) by (simp add: placed_def apply_all_Cons write_placed_Cons) (simp add: apply_all_def write_placed_def)
  moreover have g: "wl_groups (put_bytes ?t ?b (recs_bytes recs) ?v) = wl_groups w"
    using w1(2) by (simp add: put_bytes_def place_room_def make_room_def add_seg_def add_file_def)
  ultimately have b: "writeBatch [r] w = (put_bytes ?t ?b (recs_bytes recs) ?v, None)" using idle by simp
  then show "snd (writeBatch [r] w) = None" "wl_groups (fst (writeBatch [r] w)) = wl_groups w" using g by simp_all
  show "settings (fst (writeBatch [r] w)) = settings w" using b w1(1) by simp
  have "writeBatch [r'] w = (settle ?t ?b recs ?v, None)" using one_settles(1) [OF rd im] same by simp
  moreover have "wl_files (settle ?t ?b recs ?v) = wl_files (put_bytes ?t ?b (recs_bytes recs) ?v)"
    unfolding settle_def by (rule aroundD(1) [OF around.view_put_recs])
  moreover have "laid_out (fst (writeBatch [r'] w)) (grow lim L recs)" using in_order_one(2) [OF assms(1) im] by (simp add: in_order_def)
  ultimately show "wl_files (fst (writeBatch [r] w)) = layout_files (grow lim L recs)" "layout_ok (grow lim L recs)"
    using b by (simp_all add: laid_out_def)
qed

text \<open>The groups of a log whose files are known.\<close>

lemma groups_laid_out: "laid_out w L \<Longrightarrow> wl_groups w = wl_groups (build L (opened sz thr files snaps))"
  by (simp add: build_opened)

lemma segments_laid_out: "laid_out w L \<Longrightarrow> wl_segments w = wl_segments (build L (opened sz thr files snaps))"
  by (simp add: build_opened dress_def)

definition hard_rec :: "nat \<Rightarrow> HardState \<Rightarrow> walRec" where
  "hard_rec i h = (i, kindHardState, encodeHardStateBody h)"

lemma groups_fields [simp]:
  "wl_groups (upd_seg s f w) = wl_groups w" "wl_groups (pin s w) = wl_groups w" "wl_groups (unpin o1 w) = wl_groups w"
  "wl_groups (add_seg s w) = wl_groups w" "wl_groups (opened sz thr files snaps) = Map.empty"
  by (simp_all add: upd_seg_def pin_def unpin_def add_seg_def opened_def split: option.split)

lemma groups_hard: "hs_ok h \<Longrightarrow> gs_id (wal_group w i) = i \<Longrightarrow> wl_groups (build_seg s [hard_rec i h] w) =
    (wl_groups w)(i \<mapsto> (wal_group w i)\<lparr>gs_hs := h, gs_hsSeg := Some s\<rparr>)"
  by (simp add: build_seg_def hard_rec_def put_hard installHardState_def put_group_def wal_group_def)

lemma Open_new: "0 < lim \<Longrightarrow> wal_Open (int lim) thr [] [] [] = Ok (opened lim thr [] [])"
  by (simp add: wal_Open_def wal_recover_def pruneSnapshotFiles_def opened_def)

lemma hard_implements: "i < 2 ^ 64 \<Longrightarrow> hs_ok h \<Longrightarrow> implements (state_request i (Some h) []) [hard_rec i h]"
  using state_implements [of i "Some h" "[]"] by (simp add: state_ok_def state_recs_def hard_rec_def encodeEntriesBody_eq)

section \<open>A copy that is older than what it was copied for\<close>

text \<open>Segments so small that every request opens a new one. Group 1 saves a hard state and group
  2 another; a reclaim pass begins and notes under the lock what segment 0 still holds; group 1
  saves a newer hard state, which is acknowledged; then the pass writes its copy.\<close>

definition stale_copy :: "int \<Rightarrow> HardState \<Rightarrow> HardState \<Rightarrow> WAL \<times> unit result list" where
  "stale_copy thr h h' =
    (case wal_Open (int 1) thr [] [] [] of
       Ok w \<Rightarrow>
         (case wal_SaveHardState 1 w h of (w, r1) \<Rightarrow>
          case wal_SaveHardState 2 w h of (w, r2) \<Rightarrow>
          let todo = rewrite_collect w 0 [1, 2]
          in case wal_SaveHardState 1 w h' of (w, r3) \<Rightarrow>
             case rewrite_each 0 todo w of (w, r4) \<Rightarrow> (w, [r1, r2, r3, r4]))
     | _ \<Rightarrow> (opened 1 thr [] [], []))"

lemma save_hard:
  assumes "in_order lim w L" "i < 2 ^ 64" "hs_ok h" "\<not> wl_closed w"
  shows "\<exists>w'. wal_SaveHardState i w h = (w', Ok ()) \<and> in_order lim w' (grow lim L [hard_rec i h]) \<and> settings w' = settings w"
  using submit_in_order [OF assms(1) hard_implements [OF assms(2,3)] assms(4)] by (simp add: wal_SaveHardState_def wal_SaveState_def)

lemma length_hard_rec: "2 \<le> length (rec_bytes (hard_rec i h))"
  by (simp add: hard_rec_def length_rec_bytes recordHeaderSize_def)

lemma grow_each: "grow 1 (L @ [(s, [hard_rec j k])]) [hard_rec i h] = L @ [(s, [hard_rec j k]), (s + 1, [hard_rec i h])]"
  using length_hard_rec [of i h] length_hard_rec [of j k] by (auto simp: grow_def)

lemma Open_groups:
  assumes "layout_ok (L @ [(s, rs)])" "0 < sz"
  shows "\<exists>w. wal_Open (int sz) thr (layout_files (L @ [(s, rs)])) snaps [] = Ok w \<and> \<not> wl_closed w
    \<and> wl_groups w = wl_groups (build (L @ [(s, rs)]) (opened sz thr (layout_files (L @ [(s, rs)])) snaps))"
proof -
  let ?o = "opened sz thr (layout_files (L @ [(s, rs)])) snaps"
  obtain w where w: "wal_Open (int sz) thr (layout_files (L @ [(s, rs)])) snaps [] = Ok w" "dress w (build (L @ [(s, rs)]) ?o) = w" "\<not> wl_closed w"
    using Open_layout [OF assms(1), of "[]" _ sz _ thr snaps] assms(2) by (auto simp: layout_files_snoc)
  then show ?thesis using groups_dress [of w "build (L @ [(s, rs)]) ?o"] by auto
qed

text \<open>The groups after each of the four requests.\<close>

lemma stale_groups:
  assumes "hs_ok h" "hs_ok h'"
  defines "L2 \<equiv> [(0, [hard_rec 1 h]), (1, [hard_rec 2 h])]"
  shows "wl_groups (build L2 (opened sz thr files snaps)) =
      [1 \<mapsto> (new_group 1)\<lparr>gs_hs := h, gs_hsSeg := Some 0\<rparr>, 2 \<mapsto> (new_group 2)\<lparr>gs_hs := h, gs_hsSeg := Some 1\<rparr>]"
    "wl_groups (build (L2 @ [(2, [hard_rec 1 h'])]) (opened sz thr files snaps)) 1 = Some ((new_group 1)\<lparr>gs_hs := h', gs_hsSeg := Some 2\<rparr>)"
    "wl_groups (build (L2 @ [(2, [hard_rec 1 h']), (3, [hard_rec 1 h])]) (opened sz thr files snaps)) 1
      = Some ((new_group 1)\<lparr>gs_hs := h, gs_hsSeg := Some 3\<rparr>)"
  using assms(1,2) by (simp_all add: L2_def groups_hard wal_group_def new_group_def)

definition stale_work :: "HardState \<Rightarrow> rewriteWork" where
  "stale_work h = \<lparr>rw_group = 1, rw_hs = Some h, rw_snap = None, rw_commit = None, rw_lo = 0, rw_hi = 0\<rparr>"

lemma stale_collect:
  assumes "wl_groups w = [1 \<mapsto> (new_group 1)\<lparr>gs_hs := h, gs_hsSeg := Some 0\<rparr>, 2 \<mapsto> (new_group 2)\<lparr>gs_hs := h, gs_hsSeg := Some 1\<rparr>]"
  shows "rewrite_collect w 0 [1, 2] = [stale_work h]"
  by (simp add: rewrite_collect_def rewrite_work_def assms new_group_def first_in_def stale_work_def List.map_filter_simps Let_def)

lemma stale_submit:
  assumes "in_order 1 w L" "\<not> wl_closed w" "hs_ok h" "wl_groups w 1 = Some ((new_group 1)\<lparr>gs_hs := h', gs_hsSeg := Some 2\<rparr>)"
  shows "\<exists>w'. rewrite_each 0 [stale_work h] w = (w', Ok ()) \<and> wl_groups w' = wl_groups w \<and> \<not> wl_closed w'
    \<and> wl_files w' = layout_files (grow 1 L [hard_rec 1 h]) \<and> layout_ok (grow 1 L [hard_rec 1 h])"
proof -
  let ?r = "rewrite_request 0 (stale_work h) []"
  have "wr_records ?r = recs_bytes [hard_rec 1 h]"
    by (simp add: rewrite_request_def stale_work_def hard_rec_def appendRecord_frame Let_def)
  moreover have "list_all good_rec [hard_rec 1 h]" using hard_implements [of 1 h] assms(3) by (simp add: implements_def)
  moreover have "wr_apply ?r s base v = v" if "wl_groups v = wl_groups w" for s base v
    using assms(4) that by (simp add: rewrite_request_def stale_work_def new_group_def Let_def encodeEntriesBody_def)
  ultimately have i: "snd (writeBatch [?r] w) = None" "wl_groups (fst (writeBatch [?r] w)) = wl_groups w"
    "wl_files (fst (writeBatch [?r] w)) = layout_files (grow 1 L [hard_rec 1 h])" "layout_ok (grow 1 L [hard_rec 1 h])"
    "settings (fst (writeBatch [?r] w)) = settings w"
    using idle_write [OF assms(1), of ?r "[hard_rec 1 h]"] by blast+
  have "rewrite_each 0 [stale_work h] w = (fst (writeBatch [?r] w), Ok ())"
    using i(1) assms(1,2) by (cases "writeBatch [?r] w") (simp add: wal_submit_def in_order_def stale_work_def)
  then show ?thesis using i assms(2) by (simp add: settings_def)
qed

text \<open>C25. A copy made while reclaiming can undo a newer hard state, in a run in which group 1 saves a
  newer hard state between the moment a segment's records are collected and the moment their
  copies are submitted. Every step of the run succeeds and group 1 is told that its newer hard
  state is durable, and in memory it is; but the older copy comes after it in the log, and a
  restart reads the log in order, so it comes back with the older term and vote. The comments in
  \<open>rewriteSegment\<close> claim the contrary, that a newer record is never overridden by a rewritten older
  one.\<close>

theorem stale_copy_undoes_a_hard_state:
  assumes "hs_ok h" "hs_ok h'" "stale_copy thr h h' = (w, rs)"
  shows "rs = [Ok (), Ok (), Ok (), Ok ()] \<and> wal_LoadHardState 1 w = Ok h'
    \<and> (\<exists>w'. wal_Open (int 1) thr (wl_files w) [] [] = Ok w' \<and> wal_LoadHardState 1 w' = Ok h)"
proof -
  let ?o = "opened 1 thr [] []" and ?r = "hard_rec 1 h" and ?q = "hard_rec 2 h" and ?n = "hard_rec 1 h'"
  let ?L = "[(0, [?r]), (1, [?q])]"
  obtain w1 where w1: "wal_SaveHardState 1 ?o h = (w1, Ok ())" "in_order 1 w1 [(0, [?r])]" "\<not> wl_closed w1"
    using save_hard [OF opened_in_order, of 1 h 1 thr] assms(1) by (auto simp: grow_def opened_def settings_def)
  obtain w2 where w2: "wal_SaveHardState 2 w1 h = (w2, Ok ())" "in_order 1 w2 ?L" "\<not> wl_closed w2"
    using save_hard [OF w1(2) _ assms(1) w1(3), of 2] grow_each [of "[]" 0 1 h 2 h] w1(3) by (auto simp: settings_def)
  have L3: "grow 1 ?L [?n] = ?L @ [(2, [?n])]" using grow_each [of "[(0, [?r])]" 1 2 h 1 h'] by (simp add: numeral_2_eq_2)
  obtain w3 where w3: "wal_SaveHardState 1 w2 h' = (w3, Ok ())" "in_order 1 w3 (?L @ [(2, [?n])])" "\<not> wl_closed w3"
    using save_hard [OF w2(2) _ assms(2) w2(3), of 1] w2(3) unfolding L3 by (auto simp: settings_def)
  note g = stale_groups [OF assms(1,2)]
  have todo: "rewrite_collect w2 0 [1, 2] = [stale_work h]"
    using stale_collect groups_laid_out [of w2 ?L] g(1) w2(2) by (simp add: in_order_def)
  have g3: "wl_groups w3 1 = Some ((new_group 1)\<lparr>gs_hs := h', gs_hsSeg := Some 2\<rparr>)"
    using groups_laid_out [of w3 "?L @ [(2, [?n])]"] g(2) w3(2) by (simp add: in_order_def)
  have L4: "grow 1 (?L @ [(2, [?n])]) [?r] = (?L @ [(2, [?n])]) @ [(3, [?r])]" using grow_each [of ?L 2 1 h' 1 h] by (simp add: numeral_3_eq_3)
  obtain w4 where w4: "rewrite_each 0 [stale_work h] w3 = (w4, Ok ())" "wl_groups w4 = wl_groups w3" "\<not> wl_closed w4"
    "wl_files w4 = layout_files ((?L @ [(2, [?n])]) @ [(3, [?r])])" "layout_ok ((?L @ [(2, [?n])]) @ [(3, [?r])])"
    using stale_submit [OF w3(2,3) assms(1) g3] unfolding L4 by blast
  have w: "w = w4" "rs = [Ok (), Ok (), Ok (), Ok ()]"
    using assms(3) Open_new [of 1 thr] w1(1) w2(1) w3(1) w4(1) by (simp_all add: stale_copy_def todo del: One_nat_def rewrite_each.simps)
  obtain w5 where "wal_Open (int 1) thr (wl_files w4) [] [] = Ok w5" "\<not> wl_closed w5"
    "wl_groups w5 1 = Some ((new_group 1)\<lparr>gs_hs := h, gs_hsSeg := Some 3\<rparr>)"
    using Open_groups [OF w4(5), of 1 thr "[]"] g(3) w4(4) by auto
  then show ?thesis using w w4(2,3) g3 by (simp add: wal_LoadHardState_def)
qed

theorem stale_copy_undoes_a_hard_state_witness:
  "snd (stale_copy 1048576 demo_hs (demo_hs\<lparr>hs_CurrentTerm := 2\<rparr>)) = [Ok (), Ok (), Ok (), Ok ()]
    \<and> wal_LoadHardState 1 (fst (stale_copy 1048576 demo_hs (demo_hs\<lparr>hs_CurrentTerm := 2\<rparr>))) = Ok (demo_hs\<lparr>hs_CurrentTerm := 2\<rparr>)
    \<and> (\<exists>w'. wal_Open (int 1) 1048576 (wl_files (fst (stale_copy 1048576 demo_hs (demo_hs\<lparr>hs_CurrentTerm := 2\<rparr>)))) [] [] = Ok w'
           \<and> wal_LoadHardState 1 w' = Ok demo_hs)"
  by (rule stale_copy_undoes_a_hard_state [OF demo_ok(1) _ prod.collapse [symmetric]]) (simp add: hs_ok_def demo_hs_def)

section \<open>A record that takes back another is given up before it\<close>

text \<open>Segments of 100 bytes, and entries are never copied. Group 1 saves a hard state and group 2
  an entry, both in segment 0; group 1 is removed, a record in segment 1; group 2 saves a hard
  state, in segment 2; the log is reclaimed.\<close>

definition wal_demo_entry :: LogEntry where
  "wal_demo_entry = \<lparr>e_Index = 1, e_Term = 1, e_Command = replicate 20 0\<rparr>"

definition demo_voter :: HardState where
  "demo_voter = \<lparr>hs_CurrentTerm = 1, hs_VotedFor = replicate 60 0\<rparr>"

definition removed_group :: "(WAL \<Rightarrow> nat list) \<Rightarrow> WAL \<times> unit result list" where
  "removed_group order =
    (case wal_Open (int 100) 0 [] [] [] of
       Ok w \<Rightarrow>
         (case wal_SaveHardState 1 w demo_hs of (w, r1) \<Rightarrow>
          case wal_AppendLogEntries 2 w [wal_demo_entry] of (w, r2) \<Rightarrow>
          case wal_Remove order 1 w of (w, r3) \<Rightarrow>
          case wal_SaveHardState 2 w demo_voter of (w, r4) \<Rightarrow>
          case maybeReclaim order w of (w, r5) \<Rightarrow> (w, [r1, r2, r3, r4, r5]))
     | _ \<Rightarrow> (opened 100 0 [] [], []))"

definition entry_rec :: walRec where
  "entry_rec = (2, kindEntries, fst (encodeEntriesBody [wal_demo_entry]))"

definition remove_rec :: walRec where
  "remove_rec = (1, kindRemoveGroup, [])"

definition demo_first :: layout where
  "demo_first = [(0, [hard_rec 1 demo_hs, entry_rec])]"

lemma demo_lengths: "length (rec_bytes (hard_rec 1 demo_hs)) = 28" "length (rec_bytes entry_rec) = 61"
    "length (rec_bytes remove_rec) = 17" "length (rec_bytes (hard_rec 2 demo_voter)) = 87"
  by (simp_all add: hard_rec_def entry_rec_def remove_rec_def recordHeaderSize_def encodeHardStateBody_def
      demo_hs_def demo_voter_def wal_demo_entry_def encodeEntriesBody_def encodeEntry_def)

lemma demo_grows:
  "grow 100 [(0, [hard_rec 1 demo_hs])] [entry_rec] = demo_first"
  "grow 100 demo_first [remove_rec] = demo_first @ [(1, [remove_rec])]"
  "grow 100 (demo_first @ [(1, [remove_rec])]) [hard_rec 2 demo_voter] = demo_first @ [(1, [remove_rec]), (2, [hard_rec 2 demo_voter])]"
  using demo_lengths by (auto simp: grow_def demo_first_def numeral_2_eq_2)

lemma demo_fits: "hs_ok demo_voter" "state_ok 2 None [wal_demo_entry]" "entry_ok wal_demo_entry"
  by (simp_all add: hs_ok_def demo_voter_def state_ok_def entry_ok_def wal_demo_entry_def encodeEntriesBody_def encodeEntry_def)

lemma entry_implements: "implements (state_request 2 None [wal_demo_entry]) [entry_rec]"
  using state_implements [OF demo_fits(2)] by (simp add: state_recs_def entry_rec_def)

lemma remove_rec_implements: "implements (remove_request 1) [remove_rec]"
  using remove_implements [of 1] by (simp add: remove_rec_def)

definition demo_loc :: entryLoc where
  "demo_loc = \<lparr>el_seg = 0, el_off = 49, el_size = 40, el_term = 1\<rparr>"

lemma put_entry: "put_rec s off entry_rec w = installEntries w (wal_group w 2) s (off + 17) [wal_demo_entry] [4] 44"
  using put_entries [of "[wal_demo_entry]" s off 2 w] demo_fits(3)
  by (simp add: entry_rec_def recordHeaderSize_def wal_demo_entry_def encodeEntriesBody_def encodeEntry_def)

lemma demo_first_groups:
  "wl_groups (build demo_first (opened sz thr files snaps)) =
    [1 \<mapsto> (new_group 1)\<lparr>gs_hs := demo_hs, gs_hsSeg := Some 0\<rparr>, 2 \<mapsto> (new_group 2)\<lparr>gs_first := 1, gs_locs := [demo_loc]\<rparr>]"
  "wl_segments (build demo_first (opened sz thr files snaps)) =
    [\<lparr>sg_seq = 0, sg_size = 89, sg_liveEntries = 1, sg_liveBytes = 20, sg_pins = 1\<rparr>]"
  using demo_lengths demo_ok(1) put_hard [of demo_hs 0 0 1]
  by (simp_all add: demo_first_def build_seg_def hard_rec_def put_entry installHardState_def installEntries_def dropSuffix_def
      put_group_def wal_group_def new_group_def demo_loc_def wal_demo_entry_def pin_def unpin_def upd_seg_def credit_loc_def
      add_seg_def opened_def resize_def new_segment_def entryHeaderSize_def)

lemma put_remove: "put_rec s off remove_rec w = dropGroup w (wal_group w 1)"
  by (simp add: put_rec_def replay_rec_def wal_replay_def record_kinds remove_rec_def)

lemma put_voter: "put_rec s off (hard_rec 2 demo_voter) w = installHardState w (wal_group w 2) s demo_voter"
  using put_hard [OF demo_fits(1)] by (simp add: hard_rec_def)

lemmas memory_defs = put_remove put_voter build_seg_def installHardState_def dropGroup_def wal_release_def put_group_def wal_group_def
  pin_def unpin_def upd_seg_def add_seg_def resize_def new_segment_def

lemma demo_removed:
  "wl_groups (build (demo_first @ [(1, [remove_rec])]) (opened sz thr files snaps)) = [2 \<mapsto> (new_group 2)\<lparr>gs_first := 1, gs_locs := [demo_loc]\<rparr>]"
  "wl_segments (build (demo_first @ [(1, [remove_rec])]) (opened sz thr files snaps)) =
    [\<lparr>sg_seq = 0, sg_size = 89, sg_liveEntries = 1, sg_liveBytes = 20, sg_pins = 0\<rparr>,
     \<lparr>sg_seq = 1, sg_size = 17, sg_liveEntries = 0, sg_liveBytes = 0, sg_pins = 0\<rparr>]"
  using demo_first_groups [of sz thr files snaps] demo_lengths(3)
  by (simp_all add: build_append memory_defs) (simp_all add: new_group_def)

lemma demo_saved:
  "wl_groups (build (demo_first @ [(1, [remove_rec]), (2, [hard_rec 2 demo_voter])]) (opened sz thr files snaps)) =
    [2 \<mapsto> (new_group 2)\<lparr>gs_first := 1, gs_locs := [demo_loc], gs_hs := demo_voter, gs_hsSeg := Some 2\<rparr>]"
  "wl_segments (build (demo_first @ [(1, [remove_rec]), (2, [hard_rec 2 demo_voter])]) (opened sz thr files snaps)) =
    [\<lparr>sg_seq = 0, sg_size = 89, sg_liveEntries = 1, sg_liveBytes = 20, sg_pins = 0\<rparr>,
     \<lparr>sg_seq = 1, sg_size = 17, sg_liveEntries = 0, sg_liveBytes = 0, sg_pins = 0\<rparr>,
     \<lparr>sg_seq = 2, sg_size = 87, sg_liveEntries = 0, sg_liveBytes = 0, sg_pins = 1\<rparr>]"
proof -
  have "build (demo_first @ [(1, [remove_rec]), (2, [hard_rec 2 demo_voter])]) w = build_seg 2 [hard_rec 2 demo_voter] (build (demo_first @ [(1, [remove_rec])]) w)"
    for w by (simp add: build_append)
  then show "wl_groups (build (demo_first @ [(1, [remove_rec]), (2, [hard_rec 2 demo_voter])]) (opened sz thr files snaps)) =
    [2 \<mapsto> (new_group 2)\<lparr>gs_first := 1, gs_locs := [demo_loc], gs_hs := demo_voter, gs_hsSeg := Some 2\<rparr>]"
    "wl_segments (build (demo_first @ [(1, [remove_rec]), (2, [hard_rec 2 demo_voter])]) (opened sz thr files snaps)) =
    [\<lparr>sg_seq = 0, sg_size = 89, sg_liveEntries = 1, sg_liveBytes = 20, sg_pins = 0\<rparr>,
     \<lparr>sg_seq = 1, sg_size = 17, sg_liveEntries = 0, sg_liveBytes = 0, sg_pins = 0\<rparr>,
     \<lparr>sg_seq = 2, sg_size = 87, sg_liveEntries = 0, sg_liveBytes = 0, sg_pins = 1\<rparr>]"
    using demo_removed [of sz thr files snaps] demo_lengths(4) by (simp_all add: memory_defs) (simp_all add: new_group_def)
qed

lemma demo_reopened:
  "wl_groups (build (demo_first @ [(2, [hard_rec 2 demo_voter])]) (opened sz thr files snaps)) 1
    = Some ((new_group 1)\<lparr>gs_hs := demo_hs, gs_hsSeg := Some 0\<rparr>)"
  using demo_first_groups [of sz thr files snaps]
  by (simp add: build_append memory_defs) (simp add: new_group_def)

text \<open>The first segment holds a live entry, which is never copied: nothing is rewritten.\<close>

lemma reclaim_two:
  assumes "settings w = (False, 0)" "wl_segments w =
    [\<lparr>sg_seq = 0, sg_size = 89, sg_liveEntries = 1, sg_liveBytes = 20, sg_pins = 0\<rparr>,
     \<lparr>sg_seq = 1, sg_size = 17, sg_liveEntries = 0, sg_liveBytes = 0, sg_pins = 0\<rparr>]"
  shows "maybeReclaim order w = (w, Ok ())"
  using assms by (cases w) (simp add: settings_def maybeReclaim_def reclaim_remove_def reclaimable_def)

lemma reclaim_three:
  assumes "settings w = (False, 0)" "wl_faults w = []" "wl_segments w =
    [\<lparr>sg_seq = 0, sg_size = 89, sg_liveEntries = 1, sg_liveBytes = 20, sg_pins = 0\<rparr>,
     \<lparr>sg_seq = 1, sg_size = 17, sg_liveEntries = 0, sg_liveBytes = 0, sg_pins = 0\<rparr>,
     \<lparr>sg_seq = 2, sg_size = 87, sg_liveEntries = 0, sg_liveBytes = 0, sg_pins = 1\<rparr>]"
  shows "\<exists>w'. maybeReclaim order w = (w', Ok ()) \<and> wl_files w' = assoc_del 1 (wl_files w) \<and> wl_groups w' = wl_groups w \<and> \<not> wl_closed w'"
  using assms by (simp add: settings_def maybeReclaim_def reclaim_remove_def reclaimable_def io_call_def syncFile_def)

text \<open>C26. Reclaiming can bring a removed group back: one run in which it does. Every step of the run
  succeeds and group 1 is gone from memory; but the segment with nothing but the record of the
  removal counts as empty and is deleted, while the older segment that holds the group's hard
  state stays for the sake of another group, and after a restart group 1 exists again with that
  hard state. The comment on \<open>Remove\<close> promises that the group is forgotten durably, the one on
  \<open>Reclaim\<close> that only what nothing needs is deleted.\<close>

theorem removed_group_comes_back:
  assumes "removed_group order = (w, rs)"
  shows "rs = [Ok (), Ok (), Ok (), Ok (), Ok ()] \<and> wl_groups w 1 = None
    \<and> (\<exists>w'. wal_Open (int 100) 0 (wl_files w) [] [] = Ok w' \<and> wal_LoadHardState 1 w' = Ok demo_hs)"
proof -
  let ?o = "opened 100 0 [] []" and ?h = "hard_rec 2 demo_voter"
  have so: "settings ?o = (False, 0)" by (simp add: settings_def opened_def)
  obtain w1 where w1: "wal_SaveHardState 1 ?o demo_hs = (w1, Ok ())" "in_order 100 w1 [(0, [hard_rec 1 demo_hs])]" "settings w1 = (False, 0)"
    using save_hard [OF opened_in_order, of 1 demo_hs 100 0] demo_ok(1) so by (auto simp: grow_def opened_def)
  obtain w2 where w2: "wal_AppendLogEntries 2 w1 [wal_demo_entry] = (w2, Ok ())" "in_order 100 w2 demo_first" "settings w2 = (False, 0)"
    using submit_in_order [OF w1(2) entry_implements] w1(3) unfolding demo_grows
    by (auto simp: wal_AppendLogEntries_def wal_SaveState_def settings_def)
  obtain w3 where w3: "wal_submit w2 (remove_request 1) True = (w3, Ok ())" "in_order 100 w3 (demo_first @ [(1, [remove_rec])])" "settings w3 = (False, 0)"
    using submit_in_order [OF w2(2) remove_rec_implements] w2(3) unfolding demo_grows by (auto simp: settings_def)
  have "wl_groups w2 1 = Some ((new_group 1)\<lparr>gs_hs := demo_hs, gs_hsSeg := Some 0\<rparr>)"
    using groups_laid_out [of w2 demo_first] demo_first_groups(1) w2(2) by (simp add: in_order_def)
  moreover have "maybeReclaim order w3 = (w3, Ok ())"
    using reclaim_two [OF w3(3)] segments_laid_out [of w3] demo_removed(2) w3(2) by (simp add: in_order_def)
  ultimately have rm: "wal_Remove order 1 w2 = (w3, Ok ())" using w3(1) by (simp add: wal_Remove_def new_group_def)
  obtain w4 where w4: "wal_SaveHardState 2 w3 demo_voter = (w4, Ok ())" "in_order 100 w4 (demo_first @ [(1, [remove_rec]), (2, [?h])])"
    "settings w4 = (False, 0)"
    using save_hard [OF w3(2), of 2 demo_voter] demo_fits(1) w3(3) unfolding demo_grows by (auto simp: settings_def)
  have lo: "laid_out w4 (demo_first @ [(1, [remove_rec]), (2, [?h])])" "wl_faults w4 = []" using w4(2) by (simp_all add: in_order_def)
  obtain w5 where w5: "maybeReclaim order w4 = (w5, Ok ())" "wl_files w5 = assoc_del 1 (wl_files w4)" "wl_groups w5 = wl_groups w4"
    using reclaim_three [OF w4(3) lo(2) segments_laid_out [OF lo(1), unfolded demo_saved(2)], of order] by blast
  have "wl_groups w5 1 = None" using w5(3) groups_laid_out [OF lo(1)] demo_saved(1) by simp
  moreover have f: "wl_files w5 = layout_files (demo_first @ [(2, [?h])])"
    using w5(2) lo(1) by (simp add: laid_out_def layout_files_def assoc_del_def demo_first_def)
  moreover have "layout_ok (demo_first @ [(2, [?h])])" using lo(1) by (auto simp: laid_out_def layout_ok_def demo_first_def)
  from Open_groups [OF this, of 100 0 "[]"] obtain w6 where "wal_Open (int 100) 0 (wl_files w5) [] [] = Ok w6" "\<not> wl_closed w6"
    "wl_groups w6 1 = Some ((new_group 1)\<lparr>gs_hs := demo_hs, gs_hsSeg := Some 0\<rparr>)" using f demo_reopened by auto
  moreover have "w = w5" "rs = [Ok (), Ok (), Ok (), Ok (), Ok ()]"
    using assms Open_new [of 100 0] w1(1) w2(1) rm w4(1) w5(1) by (simp_all add: removed_group_def del: One_nat_def)
  ultimately show ?thesis by (simp add: wal_LoadHardState_def)
qed

theorem removed_group_comes_back_witness:
  "snd (removed_group (\<lambda>_. [1, 2])) = [Ok (), Ok (), Ok (), Ok (), Ok ()] \<and> wl_groups (fst (removed_group (\<lambda>_. [1, 2]))) 1 = None
    \<and> (\<exists>w'. wal_Open (int 100) 0 (wl_files (fst (removed_group (\<lambda>_. [1, 2])))) [] [] = Ok w' \<and> wal_LoadHardState 1 w' = Ok demo_hs)"
  by (rule removed_group_comes_back [OF prod.collapse [symmetric]])

end
