(* ===== verification/Wal_Snapshot.thy ===== *)
theory Wal_Snapshot
  imports Wal_Reclaim
begin

text \<open>
  The files of the shared log as formats: what is written is read back, whatever the size of the
  reads, and what was torn or altered is not taken for it.
\<close>

section \<open>Snapshot files\<close>

lemma map_of_assoc_put: "map_of (assoc_put k v al) = (map_of al)(k \<mapsto> v)"
proof (cases "k \<in> fst ` set al")
  case True
  have "map_of (map (\<lambda>(k', v'). if k' = k then (k, v) else (k', v')) xs) = (if k \<in> fst ` set xs then (map_of xs)(k \<mapsto> v) else map_of xs)" for xs
    by (induction xs) (auto simp: fun_upd_twist)
  then show ?thesis using True by (simp add: assoc_put_def)
next
  case False
  then have "map_of al k = None" by (simp add: map_of_eq_None_iff)
  then show ?thesis using False by (auto simp: assoc_put_def map_add_def fun_eq_iff split: option.split)
qed

text \<open>Reading the rest of the data, some of which was read before, and then the trailer.\<close>

lemma read_all:
  assumes "0 < plen" "length trailer = snapTrailerSize"
  shows "snap_ReadAll plen \<lparr>sr_rest = d @ trailer, sr_remaining = length d, sr_hashed = h, sr_checked = False\<rparr> acc =
    (if le_nat (take 4 (drop 8 trailer)) = crc32c (h @ d) then Ok (acc @ d) else Fail SnapChecksum)"
proof (induction "length d" arbitrary: d h acc rule: less_induct)
  case less
  show ?case
  proof (cases "length d \<le> plen")
    case True
    then show ?thesis using assms
      by (subst snap_ReadAll.simps) (auto simp: snap_Read_def snap_verify_def Let_def min_def)
  next
    case False
    then have "snap_Read \<lparr>sr_rest = d @ trailer, sr_remaining = length d, sr_hashed = h, sr_checked = False\<rparr> plen =
      (\<lparr>sr_rest = drop plen d @ trailer, sr_remaining = length (drop plen d), sr_hashed = h @ take plen d, sr_checked = False\<rparr>,
       take plen d, ReadMore)"
      using assms(1) by (auto simp: snap_Read_def Let_def min_def)
    then show ?thesis using less [of "drop plen d" "h @ take plen d" "acc @ take plen d"] False assms(1)
      by (subst snap_ReadAll.simps) simp
  qed
qed

text \<open>A file whose data may have changed since it was written.\<close>

lemma open_file:
  assumes "meta_ok meta" "map_of files (grp, sm_LastIncludedIndex meta) =
    Some (snapMagic @ le_bytes 8 (sm_LastIncludedIndex meta) @ le_bytes 8 (sm_LastIncludedTerm meta) @ d @ trailer)"
    and "length trailer = snapTrailerSize"
  shows "openSnapshotFile files grp meta = Ok \<lparr>sr_rest = d @ trailer, sr_remaining = length d, sr_hashed = [], sr_checked = False\<rparr>"
  using assms by (simp add: openSnapshotFile_def snapMagic_def snapHeaderSize_def meta_ok_def le_nat_le_bytes)

lemma snapshot_file_reads:
  assumes "meta_ok meta" "0 < plen" "map_of files (grp, sm_LastIncludedIndex meta) =
    Some (snapMagic @ le_bytes 8 (sm_LastIncludedIndex meta) @ le_bytes 8 (sm_LastIncludedTerm meta)
          @ d' @ le_bytes 8 (length d) @ le_bytes 4 (crc32c d))"
  shows "obind (openSnapshotFile files grp meta) (\<lambda>r. snap_ReadAll plen r []) =
    (if crc32c d = crc32c d' then Ok d' else Fail SnapChecksum)"
proof -
  let ?t = "le_bytes 8 (length d) @ le_bytes 4 (crc32c d)"
  have t: "length ?t = snapTrailerSize" by (simp add: snapTrailerSize_def)
  have "openSnapshotFile files grp meta = Ok \<lparr>sr_rest = d' @ ?t, sr_remaining = length d', sr_hashed = [], sr_checked = False\<rparr>"
    using open_file [OF assms(1) _ t] assms(3) by simp
  then show ?thesis using read_all [OF assms(2) t, of d' "[]" "[]"] crc32c_less [of d] by (simp add: le_nat_le_bytes)
qed

text \<open>C27. A snapshot file reads back as it was written, with reads of any size; if its data were
  changed to data with another checksum, the reader says so at the end.\<close>

theorem snapshot_file_roundtrip:
  assumes "meta_ok meta" "0 < plen"
  defines "f \<equiv> \<lambda>d d'. snapMagic @ le_bytes 8 (sm_LastIncludedIndex meta) @ le_bytes 8 (sm_LastIncludedTerm meta)
    @ d' @ le_bytes 8 (length d) @ le_bytes 4 (crc32c d)"
  shows "snapshot_file meta d = f d d
    \<and> obind (openSnapshotFile (assoc_put (grp, sm_LastIncludedIndex meta) (f d d) files) grp meta) (\<lambda>r. snap_ReadAll plen r []) = Ok d
    \<and> (crc32c d' \<noteq> crc32c d \<longrightarrow>
        obind (openSnapshotFile (assoc_put (grp, sm_LastIncludedIndex meta) (f d d') files) grp meta) (\<lambda>r. snap_ReadAll plen r []) = Fail SnapChecksum)"
  using snapshot_file_reads [OF assms(1,2), of "assoc_put (grp, sm_LastIncludedIndex meta) (f d d) files" grp d d]
    snapshot_file_reads [OF assms(1,2), of "assoc_put (grp, sm_LastIncludedIndex meta) (f d d') files" grp d' d]
  by (simp add: f_def snapshot_file_def map_of_assoc_put)

unbundle bit_operations_syntax

text \<open>While the low bits are clear the checksum only shifts.\<close>

lemma crc_shifts: "(\<And>j. j < k \<Longrightarrow> \<not> bit c j) \<Longrightarrow> (crc_bit ^^ k) c = drop_bit k c"
proof (induction k)
  case (Suc k)
  then have "(crc_bit ^^ Suc k) c = crc_bit (drop_bit k c)" by simp
  moreover have "\<not> bit (drop_bit k c) 0" using Suc.prems [of k] by (simp add: bit_drop_bit_eq)
  then have "crc_bit (drop_bit k c) = drop_bit (Suc k) c" by (simp add: crc_bit_def)
  ultimately show ?case by simp
qed simp

lemma crc_differs: "crc32c [-1] \<noteq> crc32c []"
proof -
  have "crc_byte (NOT 0) (-1) = drop_bit 8 (NOT 0 XOR ucast (-1 :: byte))"
    unfolding crc_byte_def by (rule crc_shifts) (simp add: bit_simps)
  then have "bit (NOT (crc_byte (NOT 0) (-1))) 31" by (simp add: bit_simps)
  then have "NOT (crc_byte (NOT 0) (-1)) \<noteq> 0" by auto
  then show ?thesis by (simp add: crc32c_def unsigned_eq_0_iff)
qed

theorem snapshot_file_roundtrip_witness:
  "obind (openSnapshotFile (assoc_put (1, 5) (snapshot_file \<lparr>sm_LastIncludedIndex = 5, sm_LastIncludedTerm = 2\<rparr> []) []) 1
       \<lparr>sm_LastIncludedIndex = 5, sm_LastIncludedTerm = 2\<rparr>) (\<lambda>r. snap_ReadAll 512 r []) = Ok []
   \<and> obind (openSnapshotFile (assoc_put (1, 5) (snapMagic @ le_bytes 8 5 @ le_bytes 8 2 @ [-1] @ le_bytes 8 0 @ le_bytes 4 (crc32c [])) []) 1
       \<lparr>sm_LastIncludedIndex = 5, sm_LastIncludedTerm = 2\<rparr>) (\<lambda>r. snap_ReadAll 512 r []) = Fail SnapChecksum"
proof -
  let ?m = "\<lparr>sm_LastIncludedIndex = 5, sm_LastIncludedTerm = 2\<rparr>"
  have "meta_ok ?m" "(0::nat) < 512" by (simp_all add: meta_ok_def)
  from snapshot_file_roundtrip [OF this, of "[]" 1 "[]" "[-1]"] crc_differs show ?thesis by simp
qed

section \<open>Records\<close>

text \<open>C28. A record is read back with its group, kind and body and its length, whatever follows it,
  and no part of a record that was not written to its end reads as a record.\<close>

theorem record_roundtrip:
  assumes "grp < 2 ^ 64" "length body < 2 ^ 32"
  shows "parseRecord (appendRecord [] grp kind body @ rest) =
      Ok (\<lparr>pr_group = grp, pr_kind = kind, pr_body = body, pr_off = 0, pr_size = length (appendRecord [] grp kind body)\<rparr>,
          length (appendRecord [] grp kind body))
    \<and> (n < length (appendRecord [] grp kind body) \<longrightarrow> parseRecord (take n (appendRecord [] grp kind body)) = Fail errBadRecord)"
  using parse_frame [OF assms, of kind rest] parse_torn [OF assms, of n kind] by (simp add: frame_def [symmetric])

theorem record_roundtrip_witness:
  "parseRecord (appendRecord [] 7 kindRemoveGroup [] @ [1, 2]) =
      Ok (\<lparr>pr_group = 7, pr_kind = kindRemoveGroup, pr_body = [], pr_off = 0, pr_size = 17\<rparr>, 17)
    \<and> parseRecord (take 16 (appendRecord [] 7 kindRemoveGroup [])) = Fail errBadRecord"
proof -
  have l: "length (appendRecord [] 7 kindRemoveGroup []) = 17" by (simp add: frame_def [symmetric] recordHeaderSize_def)
  show ?thesis using record_roundtrip [of 7 "[]" kindRemoveGroup "[1, 2]" 16] unfolding l by simp
qed

end
