(* ===== verification/Spec2Isabelle.thy ===== *)
theory Spec2Isabelle
  imports Election_Properties Node_Properties Component_Properties Apply_Loop Wal_Snapshot
begin

text \<open>
  A verification of the Raft library under \<open>src/\<close>: the node and everything below it, from the
  events a node handles down to the bytes of its log, together with the write-ahead log that the
  groups of a host share.

  \<^bold>\<open>The program and its model.\<close>  A node is one goroutine that takes one event after the other from its
  channels.  The model is the handler of each event as a function from state to state; calls to
  peers, answers and results leave a node as values of its output list, and time, chance and the
  order in which Go visits a map are parameters.  Log writes are queued with a second goroutine,
  the storage writer, whose steps are separate functions, so that a write may take effect at any
  later time, fail, or be lost in a crash.  A Go slice is a list; a slice or index expression out
  of range is the outcome \<open>Panic\<close>, an error return \<open>Fail\<close>.  Terms and indices are natural numbers: no
  run within the lifetime of a cluster reaches \<open>2 ^ 64\<close> of either; wherever the code encodes them, the
  width is a condition of the round trip.

  \<^item> \<open>Prelude\<close>, \<open>Types\<close>: outcomes, checked list access, byte order; the values of \<open>types.go\<close>,
    \<open>errors.go\<close>, \<open>transport.go\<close>.
  \<^item> \<open>Quorum\<close>: \<open>quorum.go\<close>, the sizes of commit and election quorums.
  \<^item> \<open>Config_Change\<close>, \<open>Client_Dedup\<close>, \<open>Snapshot_Frame\<close>: \<open>config_change.go\<close> and \<open>client_dedup.go\<close>, the
    entries that change a group, the table of client sessions with its eviction, the wrapping of a
    client's command and the frame of a snapshot, byte for byte.
  \<^item> \<open>Storage\<close>, \<open>Memstore\<close>: \<open>storage.go\<close> as a record of operations with its documentation as the
    locales \<open>storage_contract\<close>, \<open>reliable_storage\<close> and \<open>complete_storage\<close>, and \<open>storage/memstore\<close>, which is
    shown to implement the last.
  \<^item> \<open>Storage_Writer\<close>: \<open>storage_writer.go\<close>, the queue of writes, their batches and completions.
  \<^item> \<open>Raft_Log\<close>: \<open>raft_log.go\<close>, one definition per method; \<open>Term_Runs\<close>, \<open>Raft_Log_Inv\<close> and \<open>Raft_Log_Correct\<close>
    are its proofs: the cached term runs, the invariant that ties the caches and the entries not yet
    written to what the store will hold, and what the log therefore promises over every store that
    keeps the contract.
  \<^item> \<open>Node_State\<close>, \<open>Node_Base\<close>, \<open>Node_Readindex\<close>, \<open>Node_Send\<close>, \<open>Node_Membership\<close>, \<open>Node_Election\<close>,
    \<open>Node_Replication\<close>, \<open>Node_Snapshot\<close>, \<open>Node_Loop\<close>: \<open>node.go\<close> and the files \<open>node_*.go\<close>, in the order in
    which the code builds on itself; \<open>step_event\<close> is one turn of the event loop.
  \<^item> \<open>Node_New\<close>, \<open>Apply_Loop\<close>: \<open>config.go\<close>, the construction of a node from its store, and the goroutine
    that applies committed entries (\<open>node.go\<close>, \<open>apply_batch.go\<close>), over a state machine that is a parameter.
  \<^item> \<open>Wal_Record\<close>, \<open>Wal\<close>, \<open>Wal_Group\<close>: \<open>storage/sharedwal\<close>, the record format with its checksum, segments
    and group commit over files whose operations fail after any number of bytes, recovery, the
    store of one group, snapshot files and the reclaiming of space.

  \<^bold>\<open>What is shown.\<close>
  \<^item> Elections.  \<open>Node_Frame\<close> and \<open>Node_Vote\<close> show what every event leaves alone and that every event keeps
    the invariant that ties the vote in memory, the writes on their way and the hard state in the
    store together; \<open>Election_Safety\<close> puts nodes into a group with crashes, restarts, failing writes and
    a network that loses, repeats and reorders; \<open>Election_Properties\<close> has one vote per voter and term,
    one leader per term.
  \<^item> Handlers.  \<open>Node_Properties\<close>: no event lowers term, vote or commit index; the commit rule and the
    quorum behind it; what a follower may commit; pre-votes; what fits into one message; how a
    snapshot is sent.
  \<^item> The log.  \<open>Log_Properties\<close>: what is reported stable survives a crash at any point, reads are
    complete, appends are visible, the cached term.
  \<^item> \<open>Component_Properties\<close>: round trips of every format, decoders that never panic, the session table
    as a recency list that replicas keep alike, the in-memory store against the contract, the
    writer that drains, quorum sizes.
  \<^item> The shared log.  \<open>Wal_Recovery\<close>, \<open>Wal_Batch\<close>, \<open>Wal_Commit\<close> and \<open>Wal_Crash\<close> relate the state in memory to
    the records in the files, for a batch that succeeds and for one that stops anywhere;
    \<open>Wal_Properties\<close> has recovery, crashes and group commit for runs in which no segment is
    reclaimed, \<open>Wal_Reclaim\<close> two runs in which reclaiming loses what was promised, \<open>Wal_Snapshot\<close> the
    snapshot files.

  Some properties state behaviour that departs from the documentation of the code; the text
  before each of them says so: the cached term after the whole log was compacted, snapshots without
  a frame that are shorter than the common header, a chunk size of 0, two entries proposed at one
  index, a crash during a rotation, and the two runs with a reclaim.

  \<^bold>\<open>Bounds and fuel.\<close>  One loop takes fuel, \<open>send_loop\<close>, because it need not end: with a positive chunk
  size and a peer that answers, the length of the snapshot divided by the chunk size plus one turn
  is shown to be enough.  The loop of the storage writer is a sequence of turns, and a closed
  writer is shown to end after one turn more than it has operations.  Every other recursion has a
  termination proof.  Conditions on widths, such as \<open>length < 2 ^ 32\<close>, are those of the fields of a
  format.

  \<^bold>\<open>Not modelled.\<close>  Goroutine start and stop, futures, loggers, metrics and observers' callbacks; memory
  that a decoder reserves by a count in its input; the text of errors; cancelled contexts; real
  file names and the directory lock of the shared log; a copy made while reclaiming for a group
  that is removed at the same time.  The file store, the transports, discovery, the balancer, the
  group manager, the recovery tool and \<open>easyraft\<close> are clients or I/O and are left out.
\<close>

text \<open>C3.  A commit quorum and an election quorum always share a voter, also while
  the group is changing its quorum policy: whatever set of voters committed an
  entry for a node that counts by the policies \<open>a\<close> (in effect) and \<open>l\<close> (in its
  log), every set of voters that elects a leader for a node that shares one of the
  two policies contains a voter of that set.\<close>

theorem commit_quorum_meets_election_quorum:
  assumes "quorum_set commitQuorum a l V A" "quorum_set electionQuorum a' l' V B"
    and "q \<in> {a, l}" "q \<in> {a', l'}"
  shows "A \<inter> B \<noteq> {}"
  using assms by (rule quorum_set_commit_meet)

theorem commit_quorum_meets_election_quorum_witness:
  "quorum_set commitQuorum 0 2 {1, 2, 3, 4, 5 :: nat} {1, 2, 3}
    \<and> quorum_set electionQuorum 2 2 {1, 2, 3, 4, 5 :: nat} {2, 3, 4, 5}
    \<and> {1, 2, 3 :: nat} \<inter> {2, 3, 4, 5} \<noteq> {}"
proof -
  have hyps: "quorum_set commitQuorum 0 2 {1, 2, 3, 4, 5 :: nat} {1, 2, 3}"
    "quorum_set electionQuorum 2 2 {1, 2, 3, 4, 5 :: nat} {2, 3, 4, 5}"
    by (simp_all add: quorum_set_def commitQuorumFor_def electionQuorumFor_def)
  with commit_quorum_meets_election_quorum [OF hyps, of 2] show ?thesis by simp
qed

end
